(* ===== verification/Prelude.thy ===== *)
theory Prelude
  imports Main "HOL-Library.Word" "HOL-Library.Monad_Syntax"
begin

text \<open>
  What every component of the development shares.

  \<^item> Names for the C integer types: \<open>byte\<close>, \<open>u16\<close>, \<open>u32\<close>, \<open>u64\<close> are words of the
    width the sources give them, and \<open>cint\<close> is the 32-bit \<^verbatim>\<open>int\<close> of the flag values that
    the functions return.
  \<^item> Byte arrays (\<open>buf\<close>): a length and the contents. \<open>ld\<close> and \<open>st\<close> are an indexed read and
    an indexed write; an index outside the array has no value.
  \<^item> Results. A function that can fail to return normally has type \<open>'r option\<close>, and \<open>None\<close>
    says that the C function does not return: a failed \<^verbatim>\<open>assert\<close>, an access outside an
    object, or a loop that never ends. Error codes are ordinary return values.
  \<^item> \<open>post\<close> and \<open>tot\<close>: "whenever the call returns, the result satisfies Q", and "the call
    returns, and the result satisfies Q", with one rule per construct of the model.
\<close>

unbundle bit_operations_syntax

type_synonym byte = "8 word"
type_synonym u16 = "16 word"
type_synonym u32 = "32 word"
type_synonym u64 = "64 word"
type_synonym cint = "32 word"

section \<open>Results\<close>

definition post :: "'r option \<Rightarrow> ('r \<Rightarrow> bool) \<Rightarrow> bool" where
  "post m Q \<longleftrightarrow> (\<forall>r. m = Some r \<longrightarrow> Q r)"

definition tot :: "'r option \<Rightarrow> ('r \<Rightarrow> bool) \<Rightarrow> bool" where
  "tot m Q \<longleftrightarrow> (\<exists>r. m = Some r \<and> Q r)"

named_theorems post_rules \<open>decomposition of a \<open>post\<close> goal along the program text\<close>
named_theorems tot_rules \<open>decomposition of a \<open>tot\<close> goal along the program text\<close>

lemma postI: "(\<And>r. m = Some r \<Longrightarrow> Q r) \<Longrightarrow> post m Q"
  by (simp add: post_def)

lemma postD: "post m Q \<Longrightarrow> m = Some r \<Longrightarrow> Q r"
  by (simp add: post_def)

lemma post_mono: "post m P \<Longrightarrow> (\<And>r. P r \<Longrightarrow> Q r) \<Longrightarrow> post m Q"
  by (auto simp: post_def)

lemma post_conj: "post m P \<Longrightarrow> post m Q \<Longrightarrow> post m (\<lambda>r. P r \<and> Q r)"
  by (auto simp: post_def)

lemma post_Some [post_rules]: "Q r \<Longrightarrow> post (Some r) Q"
  by (simp add: post_def)

lemma post_None [post_rules, simp]: "post None Q"
  by (simp add: post_def)

lemma post_bind: "post m (\<lambda>r. post (f r) Q) \<Longrightarrow> post (Option.bind m f) Q"
  by (auto simp: post_def Option.bind_eq_Some_conv)

lemma post_bindI [post_rules]:
  "(\<And>r. m = Some r \<Longrightarrow> post (f r) Q) \<Longrightarrow> post (Option.bind m f) Q"
  by (auto simp: post_def Option.bind_eq_Some_conv)

lemma post_if [post_rules]:
  "(b \<Longrightarrow> post x Q) \<Longrightarrow> (\<not> b \<Longrightarrow> post y Q) \<Longrightarrow> post (if b then x else y) Q"
  by simp

lemma post_case_prod [post_rules]:
  "(\<And>a b. p = (a, b) \<Longrightarrow> post (f a b) Q) \<Longrightarrow> post (case p of (a, b) \<Rightarrow> f a b) Q"
  by (cases p) simp

lemma post_case_prod_app [post_rules]:
  "(\<And>a b. p = (a, b) \<Longrightarrow> post (f a b x) Q) \<Longrightarrow> post ((case p of (a, b) \<Rightarrow> f a b) x) Q"
  by (cases p) simp

lemma post_case_option [post_rules]:
  "(x = None \<Longrightarrow> post y Q) \<Longrightarrow> (\<And>a. x = Some a \<Longrightarrow> post (f a) Q) \<Longrightarrow>
   post (case x of None \<Rightarrow> y | Some a \<Rightarrow> f a) Q"
  by (cases x) simp_all

lemma post_let [post_rules]: "(\<And>x. x = v \<Longrightarrow> post (f x) Q) \<Longrightarrow> post (Let v f) Q"
  by simp

lemma totI: "m = Some r \<Longrightarrow> Q r \<Longrightarrow> tot m Q"
  by (simp add: tot_def)

lemma totE: "tot m Q \<Longrightarrow> (\<And>r. m = Some r \<Longrightarrow> Q r \<Longrightarrow> thesis) \<Longrightarrow> thesis"
  by (auto simp: tot_def)

lemma tot_post: "tot m P \<Longrightarrow> post m P"
  by (auto simp: tot_def post_def)

lemma tot_mono: "tot m P \<Longrightarrow> (\<And>r. P r \<Longrightarrow> Q r) \<Longrightarrow> tot m Q"
  by (auto simp: tot_def)

lemma tot_conj_post: "tot m P \<Longrightarrow> post m Q \<Longrightarrow> tot m (\<lambda>r. P r \<and> Q r)"
  by (auto simp: tot_def post_def)

lemma tot_Some [tot_rules]: "Q r \<Longrightarrow> tot (Some r) Q"
  by (simp add: tot_def)

lemma tot_bind [tot_rules]: "tot m (\<lambda>r. tot (f r) Q) \<Longrightarrow> tot (Option.bind m f) Q"
  by (auto simp: tot_def)

lemma tot_if [tot_rules]:
  "(b \<Longrightarrow> tot x Q) \<Longrightarrow> (\<not> b \<Longrightarrow> tot y Q) \<Longrightarrow> tot (if b then x else y) Q"
  by simp

lemma tot_case_prod [tot_rules]:
  "(\<And>a b. p = (a, b) \<Longrightarrow> tot (f a b) Q) \<Longrightarrow> tot (case p of (a, b) \<Rightarrow> f a b) Q"
  by (cases p) simp

lemma tot_case_prod_app [tot_rules]:
  "(\<And>a b. p = (a, b) \<Longrightarrow> tot (f a b x) Q) \<Longrightarrow> tot ((case p of (a, b) \<Rightarrow> f a b) x) Q"
  by (cases p) simp

lemma tot_case_option [tot_rules]:
  "(x = None \<Longrightarrow> tot y Q) \<Longrightarrow> (\<And>a. x = Some a \<Longrightarrow> tot (f a) Q) \<Longrightarrow>
   tot (case x of None \<Rightarrow> y | Some a \<Rightarrow> f a) Q"
  by (cases x) simp_all

lemma tot_let [tot_rules]: "(\<And>x. x = v \<Longrightarrow> tot (f x) Q) \<Longrightarrow> tot (Let v f) Q"
  by simp

section \<open>Byte arrays\<close>

record buf =
  blen :: nat
  bdat :: "nat \<Rightarrow> byte"

definition ld :: "buf \<Rightarrow> nat \<Rightarrow> byte option" where
  "ld b i = (if i < blen b then Some (bdat b i) else None)"

definition st :: "nat \<Rightarrow> byte \<Rightarrow> buf \<Rightarrow> buf option" where
  "st i v b = (if i < blen b then Some (b\<lparr>bdat := (bdat b)(i := v)\<rparr>) else None)"

text \<open>\<^verbatim>\<open>memcpy(dst + d, src + i, n)\<close> on contents.\<close>

definition blit :: "(nat \<Rightarrow> byte) \<Rightarrow> nat \<Rightarrow> nat \<Rightarrow> (nat \<Rightarrow> byte) \<Rightarrow> nat \<Rightarrow> nat \<Rightarrow> byte" where
  "blit src i n dst d = (\<lambda>k. if d \<le> k \<and> k < d + n then src (k - d + i) else dst k)"

lemma blit_in [simp]: "d \<le> k \<Longrightarrow> k < d + n \<Longrightarrow> blit src i n dst d k = src (k - d + i)"
  by (simp add: blit_def)

lemma blit_out [simp]: "k < d \<or> d + n \<le> k \<Longrightarrow> blit src i n dst d k = dst k"
  by (auto simp: blit_def)

lemma blit_zero [simp]: "blit src i 0 dst d = dst"
  by (rule ext) (auto simp: blit_def)

lemma blit_self [simp]: "blit src d n src d = src"
  by (rule ext) (auto simp: blit_def)

lemma ld_eq_Some: "ld b i = Some v \<longleftrightarrow> i < blen b \<and> v = bdat b i"
  by (auto simp: ld_def)

lemma st_eq_Some: "st i v b = Some b' \<longleftrightarrow> i < blen b \<and> b' = b\<lparr>bdat := (bdat b)(i := v)\<rparr>"
  by (auto simp: st_def)

section \<open>The byte-order helpers of fsutil.h\<close>

text \<open>
  \<open>le16dec\<close> and \<open>le32dec\<close> read through any byte reader, \<open>le16enc\<close> and \<open>le32enc\<close> write
  through any byte writer: the C functions take a pointer, and the callers point them into a
  heap block, a memory-mapped file or a stack array.
\<close>

definition le16dec :: "(nat \<Rightarrow> byte option) \<Rightarrow> nat \<Rightarrow> u16 option" where
  "le16dec rd i = do {
     p1 \<leftarrow> rd (i + 1);
     p0 \<leftarrow> rd i;
     Some (push_bit 8 (ucast p1) OR ucast p0) }"

definition le32dec :: "(nat \<Rightarrow> byte option) \<Rightarrow> nat \<Rightarrow> u32 option" where
  "le32dec rd i = do {
     p3 \<leftarrow> rd (i + 3);
     p2 \<leftarrow> rd (i + 2);
     p1 \<leftarrow> rd (i + 1);
     p0 \<leftarrow> rd i;
     Some (push_bit 24 (ucast p3) OR push_bit 16 (ucast p2) OR push_bit 8 (ucast p1) OR ucast p0) }"

definition le16enc :: "(nat \<Rightarrow> byte \<Rightarrow> 's \<Rightarrow> 's option) \<Rightarrow> nat \<Rightarrow> u16 \<Rightarrow> 's \<Rightarrow> 's option" where
  "le16enc wr i u s = do {
     s \<leftarrow> wr i (ucast (u AND 0xff)) s;
     wr (i + 1) (ucast (drop_bit 8 u AND 0xff)) s }"

definition le32enc :: "(nat \<Rightarrow> byte \<Rightarrow> 's \<Rightarrow> 's option) \<Rightarrow> nat \<Rightarrow> u32 \<Rightarrow> 's \<Rightarrow> 's option" where
  "le32enc wr i u s = do {
     s \<leftarrow> wr i (ucast (u AND 0xff)) s;
     s \<leftarrow> wr (i + 1) (ucast (drop_bit 8 u AND 0xff)) s;
     s \<leftarrow> wr (i + 2) (ucast (drop_bit 16 u AND 0xff)) s;
     wr (i + 3) (ucast (drop_bit 24 u AND 0xff)) s }"

lemma ff_mask: "(0xff :: 'a::len word) = mask 8"
  by (simp add: mask_eq_exp_minus_1)

lemma u16_split_bytes:
  "push_bit 8 (ucast (ucast (drop_bit 8 u AND 0xff) :: byte)) OR ucast (ucast (u AND 0xff) :: byte)
   = (u :: u16)" (is "?l = u")
proof (rule bit_word_eqI)
  fix n :: nat
  assume "n < LENGTH(16)"
  then consider "n < 8" | "8 \<le> n" "n < 16" by fastforce
  then show "bit ?l n = bit u n"
    by cases (auto simp: ff_mask bit_simps)
qed

lemma u32_split_bytes:
  "push_bit 24 (ucast (ucast (drop_bit 24 u AND 0xff) :: byte)) OR
   push_bit 16 (ucast (ucast (drop_bit 16 u AND 0xff) :: byte)) OR
   push_bit 8 (ucast (ucast (drop_bit 8 u AND 0xff) :: byte)) OR
   ucast (ucast (u AND 0xff) :: byte) = (u :: u32)" (is "?l = u")
proof (rule bit_word_eqI)
  fix n :: nat
  assume "n < LENGTH(32)"
  then consider "n < 8" | "8 \<le> n" "n < 16" | "16 \<le> n" "n < 24" | "24 \<le> n" "n < 32"
    by fastforce
  then show "bit ?l n = bit u n"
    by cases (auto simp: ff_mask bit_simps)
qed

text \<open>
  A store of bytes with a reader and a writer: a read after a write at the same index gives
  the byte written, every other index is untouched, and the readable range stays what it was.
  The clients are the multi-byte encodings.
\<close>

locale byte_store =
  fixes rd :: "'s \<Rightarrow> nat \<Rightarrow> byte option"
    and wr :: "nat \<Rightarrow> byte \<Rightarrow> 's \<Rightarrow> 's option"
  assumes rd_wr: "wr i v s = Some s' \<Longrightarrow> rd s' j = (if j = i then Some v else rd s j)"
begin

lemma le16dec_le16enc: "le16enc wr i u s = Some s' \<Longrightarrow> le16dec (rd s') i = Some u"
  by (auto simp: le16enc_def le16dec_def rd_wr u16_split_bytes Option.bind_eq_Some_conv)

lemma le16enc_other:
  "le16enc wr i u s = Some s' \<Longrightarrow> j \<noteq> i \<Longrightarrow> j \<noteq> i + 1 \<Longrightarrow> rd s' j = rd s j"
  by (auto simp: le16enc_def rd_wr Option.bind_eq_Some_conv)

lemma le16enc_bytes:
  "le16enc wr i u s = Some s' \<Longrightarrow>
   rd s' i = Some (ucast (u AND 0xff)) \<and> rd s' (i + 1) = Some (ucast (drop_bit 8 u AND 0xff))"
  by (auto simp: le16enc_def rd_wr Option.bind_eq_Some_conv)

lemma le32dec_le32enc: "le32enc wr i u s = Some s' \<Longrightarrow> le32dec (rd s') i = Some u"
  by (auto simp: le32enc_def le32dec_def rd_wr u32_split_bytes Option.bind_eq_Some_conv)

lemma le32enc_other:
  "le32enc wr i u s = Some s' \<Longrightarrow> j < i \<or> i + 3 < j \<Longrightarrow> rd s' j = rd s j"
  by (auto simp: le32enc_def rd_wr Option.bind_eq_Some_conv)

lemma le16dec_le16enc_disjoint:
  "le16enc wr i u s = Some s' \<Longrightarrow> j + 1 < i \<or> i + 1 < j \<Longrightarrow> le16dec (rd s') j = le16dec (rd s) j"
  by (auto simp: le16dec_def le16enc_other)

lemma le32dec_le32enc_disjoint:
  "le32enc wr i u s = Some s' \<Longrightarrow> j + 3 < i \<or> i + 3 < j \<Longrightarrow> le32dec (rd s') j = le32dec (rd s) j"
  by (auto simp: le32dec_def le32enc_other)

end

interpretation heap_buf: byte_store ld st
  by unfold_locales (auto simp: ld_def st_eq_Some)

end
