(* ===== verification/Fsck_Env.thy ===== *)
theory Fsck_Env
  imports Prelude
begin

text \<open>
  The environment of \<^verbatim>\<open>fsck_msdosfs\<close>: the option variables of main.c, the terminal behind
  \<^verbatim>\<open>ask()\<close>, the device behind the file descriptor, and the allocator.

  The device is a fixed-size array of bytes with a file position. The schedule \<open>io_faults\<close>
  decides which of the coming \<^verbatim>\<open>lseek\<close>, \<^verbatim>\<open>read\<close> and \<^verbatim>\<open>write\<close> calls fail (an exhausted
  schedule means no further fault), and \<open>alloc_faults\<close> does the same for
  \<^verbatim>\<open>malloc\<close>/\<^verbatim>\<open>calloc\<close>, so every error branch of the sources is reachable; \<open>junk\<close> is what
  fresh memory happens to hold. A failed call
  transfers nothing; a transfer that runs into the end of the device is short, which the
  callers treat as an error. \<open>writes\<close> records position and length of every \<^verbatim>\<open>write\<close> the
  program issues. The access mode of the descriptor is not part of the device: the model
  carries a write out even when the program runs read-only, so that the absence of writes is
  a property of the program and not of the kernel.
\<close>

record env =
  alwaysno :: bool
  alwaysyes :: bool
  preen :: bool
  rdonly :: bool
  skipclean :: bool
  allow_mmap :: bool
  input :: string
  dev :: buf
  pos :: nat
  io_faults :: "bool list"
  alloc_faults :: "bool list"
  mmap_faults :: "bool list"
  junk :: "nat \<Rightarrow> byte"
  writes :: "(nat \<times> nat) list"

section \<open>Return values (ext.h)\<close>

abbreviation (input) FSOK :: cint where "FSOK \<equiv> 0"
abbreviation (input) FSBOOTMOD :: cint where "FSBOOTMOD \<equiv> 1"
abbreviation (input) FSDIRMOD :: cint where "FSDIRMOD \<equiv> 2"
abbreviation (input) FSFATMOD :: cint where "FSFATMOD \<equiv> 4"
abbreviation (input) FSERROR :: cint where "FSERROR \<equiv> 8"
abbreviation (input) FSFATAL :: cint where "FSFATAL \<equiv> 16"
abbreviation (input) FSDIRTY :: cint where "FSDIRTY \<equiv> 32"

text \<open>\<open>has m f\<close> is the C test \<^verbatim>\<open>(m & f) != 0\<close>.\<close>

definition has :: "cint \<Rightarrow> cint \<Rightarrow> bool" where
  "has m f \<longleftrightarrow> m AND f \<noteq> 0"

lemma has_or [simp]: "has (a OR b) f \<longleftrightarrow> has a f \<or> has b f"
proof -
  have "(a OR b) AND f = (a AND f) OR (b AND f)"
    by (simp add: bit.conj_disj_distrib2)
  then show ?thesis
    by (simp add: has_def or_eq_0_iff)
qed

lemma has_zero [simp]: "\<not> has 0 f"
  by (simp add: has_def)

section \<open>The terminal: ask() of main.c\<close>

text \<open>
  \<open>ask_loop\<close> is the prompt loop over the remaining standard input: the first character of a
  line is the answer, the rest of the line is discarded, an empty line and any other character
  ask again, and end of file answers no.
\<close>

definition skip_line :: "string \<Rightarrow> string option" where
  "skip_line cs = (case dropWhile (\<lambda>c. c \<noteq> CHR 0x0A) cs of [] \<Rightarrow> None | _ # rest \<Rightarrow> Some rest)"

lemma skip_line_length: "skip_line cs = Some rest \<Longrightarrow> length rest < length cs"
proof -
  assume "skip_line cs = Some rest"
  then obtain c where "dropWhile (\<lambda>c. c \<noteq> CHR 0x0A) cs = c # rest"
    by (auto simp: skip_line_def split: list.splits)
  moreover have "length (dropWhile (\<lambda>c. c \<noteq> CHR 0x0A) cs) \<le> length cs"
    by (rule length_dropWhile_le)
  ultimately show ?thesis by simp
qed

function ask_loop :: "string \<Rightarrow> bool \<times> string" where
  "ask_loop [] = (False, [])"
| "ask_loop (c # cs) =
     (if c = CHR 0x0A then ask_loop cs
      else case skip_line cs of
        None \<Rightarrow> (False, [])
      | Some rest \<Rightarrow>
          if c = CHR ''y'' \<or> c = CHR ''Y'' then (True, rest)
          else if c = CHR ''n'' \<or> c = CHR ''N'' then (False, rest)
          else ask_loop rest)"
  by pat_completeness auto
termination
  by (relation "measure length") (auto dest: skip_line_length)

definition ask :: "bool \<Rightarrow> 'a env_scheme \<Rightarrow> bool \<times> 'a env_scheme" where
  "ask dflt s =
     (let forced = alwaysyes s \<or> alwaysno s \<or> rdonly s;
          d = (if forced then alwaysyes s \<and> \<not> rdonly s \<and> \<not> alwaysno s else dflt)
      in if preen s then (d, s)
         else if forced then (d, s)
         else case ask_loop (input s) of (r, rest) \<Rightarrow> (r, s\<lparr>input := rest\<rparr>))"

section \<open>Standard input/output calls on the device\<close>

definition pop_fault :: "bool list \<Rightarrow> bool \<times> bool list" where
  "pop_fault fs = (case fs of [] \<Rightarrow> (False, []) | f # rest \<Rightarrow> (f, rest))"

definition lseek :: "nat \<Rightarrow> 'a env_scheme \<Rightarrow> bool \<times> 'a env_scheme" where
  "lseek off s = (case pop_fault (io_faults s) of (f, rest) \<Rightarrow>
     if f then (False, s\<lparr>io_faults := rest\<rparr>)
     else (True, s\<lparr>io_faults := rest, pos := off\<rparr>))"

text \<open>
  \<open>dread n o b s\<close> is \<^verbatim>\<open>read(fd, b + o, n) == n\<close>: the first component is the comparison, the
  second the buffer afterwards. \<open>dwrite\<close> is the same for \<^verbatim>\<open>write\<close>.
\<close>

definition dread :: "nat \<Rightarrow> nat \<Rightarrow> buf \<Rightarrow> 'a env_scheme \<Rightarrow> ((bool \<times> buf) \<times> 'a env_scheme) option" where
  "dread n o1 b s =
     (if blen b < o1 + n then None
      else case pop_fault (io_faults s) of (f, rest) \<Rightarrow>
        if f then Some ((n = 0, b), s\<lparr>io_faults := rest\<rparr>)
        else let k = min n (blen (dev s) - pos s)
             in Some ((k = n, b\<lparr>bdat := blit (bdat (dev s)) (pos s) k (bdat b) o1\<rparr>),
                      s\<lparr>io_faults := rest, pos := pos s + k\<rparr>))"

definition dwrite :: "nat \<Rightarrow> nat \<Rightarrow> buf \<Rightarrow> 'a env_scheme \<Rightarrow> (bool \<times> 'a env_scheme) option" where
  "dwrite n o1 b s =
     (if blen b < o1 + n then None
      else case pop_fault (io_faults s) of (f, rest) \<Rightarrow>
        let s = s\<lparr>io_faults := rest, writes := writes s @ [(pos s, n)]\<rparr>
        in if f then Some (n = 0, s)
           else let k = min n (blen (dev s) - pos s)
                in Some (k = n,
                     s\<lparr>dev := (dev s)\<lparr>bdat := blit (bdat b) o1 k (bdat (dev s)) (pos s)\<rparr>,
                       pos := pos s + k\<rparr>))"

text \<open>
  The idiom \<^verbatim>\<open>lseek(fd, off, SEEK_SET) != off || read(fd, b, n) != n\<close>, negated, and its
  counterpart for \<^verbatim>\<open>write\<close>: the transfer is attempted only when the seek succeeds.
\<close>

definition seek_read ::
  "nat \<Rightarrow> nat \<Rightarrow> nat \<Rightarrow> buf \<Rightarrow> 'a env_scheme \<Rightarrow> ((bool \<times> buf) \<times> 'a env_scheme) option" where
  "seek_read off n o1 b s =
     (case lseek off s of (ok, s) \<Rightarrow> if ok then dread n o1 b s else Some ((False, b), s))"

definition seek_write ::
  "nat \<Rightarrow> nat \<Rightarrow> nat \<Rightarrow> buf \<Rightarrow> 'a env_scheme \<Rightarrow> (bool \<times> 'a env_scheme) option" where
  "seek_write off n o1 b s =
     (case lseek off s of (ok, s) \<Rightarrow> if ok then dwrite n o1 b s else Some (False, s))"

text \<open>\<^verbatim>\<open>pread\<close> and \<^verbatim>\<open>pwrite\<close> take the offset as an argument and leave the file position alone.\<close>

definition dpread ::
  "nat \<Rightarrow> nat \<Rightarrow> nat \<Rightarrow> buf \<Rightarrow> 'a env_scheme \<Rightarrow> ((bool \<times> buf) \<times> 'a env_scheme) option" where
  "dpread off n o1 b s =
     map_option (\<lambda>(r, t). (r, t\<lparr>pos := pos s\<rparr>)) (dread n o1 b (s\<lparr>pos := off\<rparr>))"

definition dpwrite ::
  "nat \<Rightarrow> nat \<Rightarrow> nat \<Rightarrow> buf \<Rightarrow> 'a env_scheme \<Rightarrow> (bool \<times> 'a env_scheme) option" where
  "dpwrite off n o1 b s =
     map_option (\<lambda>(r, t). (r, t\<lparr>pos := pos s\<rparr>)) (dwrite n o1 b (s\<lparr>pos := off\<rparr>))"

definition malloc :: "nat \<Rightarrow> 'a env_scheme \<Rightarrow> buf option \<times> 'a env_scheme" where
  "malloc n s = (case pop_fault (alloc_faults s) of (f, rest) \<Rightarrow>
     (if f then None else Some \<lparr>blen = n, bdat = junk s\<rparr>, s\<lparr>alloc_faults := rest\<rparr>))"

section \<open>Quiet transitions\<close>

text \<open>
  \<open>quiet s s'\<close>: between \<open>s\<close> and \<open>s'\<close> no write was issued, the device is as it was, and the
  options have not changed.
\<close>

definition opts :: "'a env_scheme \<Rightarrow> bool \<times> bool \<times> bool \<times> bool \<times> bool \<times> bool" where
  "opts s = (alwaysno s, alwaysyes s, preen s, rdonly s, skipclean s, allow_mmap s)"

definition quiet :: "'a env_scheme \<Rightarrow> 'b env_scheme \<Rightarrow> bool" where
  "quiet s s' \<longleftrightarrow> dev s' = dev s \<and> writes s' = writes s \<and> opts s' = opts s"

lemma quiet_refl [simp, intro]: "quiet s s"
  by (simp add: quiet_def)

lemma quiet_trans [trans]: "quiet s t \<Longrightarrow> quiet t u \<Longrightarrow> quiet s u"
  by (simp add: quiet_def)

lemma quiet_rdonly: "quiet s s' \<Longrightarrow> rdonly s' = rdonly s"
  by (simp add: quiet_def opts_def)

lemma ask_quiet: "ask d s = (r, s') \<Longrightarrow> quiet s s'"
  by (auto simp: ask_def Let_def quiet_def opts_def split: if_splits prod.splits)

lemma ask_rdonly: "rdonly s \<Longrightarrow> ask d s = (False, s)"
  by (simp add: ask_def)

lemma lseek_quiet: "lseek off s = (r, s') \<Longrightarrow> quiet s s'"
  by (auto simp: lseek_def quiet_def opts_def split: if_splits prod.splits)

lemma dread_quiet: "dread n o1 b s = Some ((r, b'), s') \<Longrightarrow> quiet s s'"
  by (auto simp: dread_def quiet_def opts_def Let_def split: if_splits prod.splits)

lemma seek_read_quiet: "seek_read off n o1 b s = Some ((r, b'), s') \<Longrightarrow> quiet s s'"
  by (auto simp: seek_read_def split: if_splits prod.splits intro: quiet_trans
      dest!: lseek_quiet dread_quiet)

lemma dpread_quiet: "dpread off n o1 b s = Some ((r, b'), s') \<Longrightarrow> quiet s s'"
  by (auto simp: dpread_def quiet_def opts_def dest!: dread_quiet)

lemma malloc_quiet: "malloc n s = (r, s') \<Longrightarrow> quiet s s'"
  by (auto simp: malloc_def quiet_def opts_def split: prod.splits)

section \<open>Transfers that succeed\<close>

lemma seek_read_True:
  assumes "seek_read off n o1 b s = Some ((True, b'), s')" and "n \<noteq> 0"
  shows "off + n \<le> blen (dev s)" and "b' = b\<lparr>bdat := blit (bdat (dev s)) off n (bdat b) o1\<rparr>"
    and "dev s' = dev s"
  using assms
  by (auto simp: seek_read_def lseek_def dread_def Let_def split: if_splits prod.splits)

lemma seek_write_True:
  assumes "seek_write off n o1 b s = Some (True, s')" and "n \<noteq> 0"
  shows "off + n \<le> blen (dev s)"
    and "dev s' = (dev s)\<lparr>bdat := blit (bdat b) o1 n (bdat (dev s)) off\<rparr>"
  using assms
  by (auto simp: seek_write_def lseek_def dwrite_def Let_def split: if_splits prod.splits)

lemma seek_read_nofault:
  assumes "io_faults s = []" and "off + n \<le> blen (dev s)" and "o1 + n \<le> blen b"
  shows "seek_read off n o1 b s =
    Some ((True, b\<lparr>bdat := blit (bdat (dev s)) off n (bdat b) o1\<rparr>), s\<lparr>io_faults := [], pos := off + n\<rparr>)"
  using assms by (simp add: seek_read_def lseek_def dread_def pop_fault_def Let_def)

lemma seek_write_nofault:
  assumes "io_faults s = []" and "off + n \<le> blen (dev s)" and "o1 + n \<le> blen b"
  shows "seek_write off n o1 b s = Some (True, s\<lparr>io_faults := [], writes := writes s @ [(off, n)],
     dev := (dev s)\<lparr>bdat := blit (bdat b) o1 n (bdat (dev s)) off\<rparr>, pos := off + n\<rparr>)"
  using assms by (simp add: seek_write_def lseek_def dwrite_def pop_fault_def Let_def)

text \<open>A fault-free environment around a device, for concrete runs.\<close>

definition sample_env :: "buf \<Rightarrow> env" where
  "sample_env d = \<lparr>alwaysno = False, alwaysyes = False, preen = False, rdonly = False,
     skipclean = False, allow_mmap = False, input = [], dev = d, pos = 0, io_faults = [],
     alloc_faults = [], mmap_faults = [], junk = (\<lambda>_. 0), writes = []\<rparr>"

section \<open>The answers of ask()\<close>

text \<open>What a user types: lines, each ended by a newline.\<close>

definition typed :: "string list \<Rightarrow> string" where
  "typed ls = concat (map (\<lambda>l. l @ [CHR 0x0A]) ls)"

definition decides :: "string \<Rightarrow> bool" where
  "decides l \<longleftrightarrow> l \<noteq> [] \<and> hd l \<in> {CHR ''y'', CHR ''Y'', CHR ''n'', CHR ''N''}"

lemma skip_line_typed: "CHR 0x0A \<notin> set l \<Longrightarrow> skip_line (l @ CHR 0x0A # cs) = Some cs"
proof -
  assume "CHR 0x0A \<notin> set l"
  then have "dropWhile (\<lambda>c. c \<noteq> CHR 0x0A) (l @ CHR 0x0A # cs) = CHR 0x0A # cs" by (subst dropWhile_append2) auto
  then show ?thesis by (simp add: skip_line_def)
qed

lemma skip_line_eof: "CHR 0x0A \<notin> set l \<Longrightarrow> skip_line l = None"
proof -
  assume "CHR 0x0A \<notin> set l"
  then have "dropWhile (\<lambda>c. c \<noteq> CHR 0x0A) l = []" by (auto simp: dropWhile_eq_Nil_conv)
  then show ?thesis unfolding skip_line_def by (simp only: list.case)
qed

lemma ask_loop_line:
  "CHR 0x0A \<notin> set l \<Longrightarrow> ask_loop (l @ CHR 0x0A # cs) = (if decides l then (hd l \<in> {CHR ''y'', CHR ''Y''}, cs) else ask_loop cs)"
  by (cases l) (auto simp: decides_def skip_line_typed)

lemma ask_loop_eof: "CHR 0x0A \<notin> set l \<Longrightarrow> ask_loop l = (False, [])"
  by (cases l) (auto simp: skip_line_eof)

lemma ask_loop_typed:
  "\<forall>l \<in> set ls. CHR 0x0A \<notin> set l \<Longrightarrow> CHR 0x0A \<notin> set part \<Longrightarrow>
   ask_loop (typed ls @ part) = (case dropWhile (\<lambda>l. \<not> decides l) ls of [] \<Rightarrow> (False, [])
     | l # rest \<Rightarrow> (hd l \<in> {CHR ''y'', CHR ''Y''}, typed rest @ part))"
  by (induction ls) (simp_all add: typed_def ask_loop_eof ask_loop_line)

text \<open>
  C21: \<^verbatim>\<open>ask()\<close> in an interactive run (none of \<^verbatim>\<open>-y\<close>, \<^verbatim>\<open>-n\<close>, \<^verbatim>\<open>-p\<close>, device writable). The standard input
  is a sequence of lines, possibly followed by characters without a newline. The first line that
  begins with y, Y, n or N decides: the answer is whether it begins with y or Y, all lines up to this one are
  consumed, and the input behind it is left for the next question. If no line decides, also when the
  unfinished last line begins with a y, the input is exhausted and the answer is no. The caller's
  default does not matter.
\<close>

theorem ask_first_answer:
  assumes "\<not> alwaysyes s" "\<not> alwaysno s" "\<not> rdonly s" "\<not> preen s"
    and "\<forall>l \<in> set ls. CHR 0x0A \<notin> set l" and "CHR 0x0A \<notin> set part" and "input s = typed ls @ part"
  shows "ask dflt s = (case dropWhile (\<lambda>l. \<not> decides l) ls of
      [] \<Rightarrow> (False, s\<lparr>input := []\<rparr>)
    | l # rest \<Rightarrow> (hd l \<in> {CHR ''y'', CHR ''Y''}, s\<lparr>input := typed rest @ part\<rparr>))"
  using assms ask_loop_typed [of ls part] by (cases "dropWhile (\<lambda>l. \<not> decides l) ls") (simp_all add: ask_def del: dropWhile_eq_Nil_conv)

theorem ask_first_answer_witness:
  "ask False (sample_env \<lparr>blen = 0, bdat = \<lambda>_. 0\<rparr>\<lparr>input := typed ['''', ''maybe'', ''Yes'', ''no''] @ ''y''\<rparr>)
     = (True, sample_env \<lparr>blen = 0, bdat = \<lambda>_. 0\<rparr>\<lparr>input := typed [''no''] @ ''y''\<rparr>) \<and>
   ask True (sample_env \<lparr>blen = 0, bdat = \<lambda>_. 0\<rparr>\<lparr>input := typed [''what''] @ ''y''\<rparr>) = (False, sample_env \<lparr>blen = 0, bdat = \<lambda>_. 0\<rparr>)"
  using ask_first_answer [of "sample_env \<lparr>blen = 0, bdat = \<lambda>_. 0\<rparr>\<lparr>input := typed ['''', ''maybe'', ''Yes'', ''no''] @ ''y''\<rparr>"
      "['''', ''maybe'', ''Yes'', ''no'']" "''y''" False]
    ask_first_answer [of "sample_env \<lparr>blen = 0, bdat = \<lambda>_. 0\<rparr>\<lparr>input := typed [''what''] @ ''y''\<rparr>" "[''what'']" "''y''" True]
  by (simp add: sample_env_def decides_def)

end
