(* ===== verification/Fsck_Boot.thy ===== *)
theory Fsck_Boot
  imports Fsck_Env
begin

text \<open>
  boot.c: the boot block and the FSInfo block. \<open>bootblock\<close> is the struct of dosfs.h, field by
  field. \<open>readboot\<close> is split at its natural seams: \<open>readboot_bpb\<close> decodes and checks the BIOS
  Parameter Block, \<open>readboot_fat32\<close> the FAT32 extension with the FSInfo block,
  \<open>readboot_geometry\<close> derives the cluster geometry. The arithmetic is that of the 32-bit
  unsigned fields, wrap-around included.
\<close>

section \<open>dosfs.h\<close>

type_synonym cl_t = u32

record bootblock =
  bpbBytesPerSec :: u32
  bpbSecPerClust :: u32
  bpbResSectors :: u32
  bpbFATs :: u32
  bpbRootDirEnts :: u32
  bpbSectors :: u32
  bpbMedia :: u32
  bpbFATsmall :: u32
  SecPerTrack :: u32
  bpbHeads :: u32
  bpbHiddenSecs :: u32
  bpbHugeSectors :: u32
  bpbRootClust :: cl_t
  bpbFSInfo :: u32
  bpbBackup :: u32
  FSFree :: cl_t
  FSNext :: cl_t
  flags :: u32
  ValidFat :: cint
  ClustMask :: cl_t
  NumClusters :: cl_t
  NumSectors :: u32
  FATsecs :: u32
  NumFatEntries :: u32
  FirstCluster :: u32
  ClusterSize :: u32
  NumFiles :: u32
  NumFree :: u32
  NumBad :: u32

abbreviation (input) CLUST_FREE :: cl_t where "CLUST_FREE \<equiv> 0"
abbreviation (input) CLUST_FIRST :: cl_t where "CLUST_FIRST \<equiv> 2"
abbreviation (input) CLUST_RSRVD :: cl_t where "CLUST_RSRVD \<equiv> 0xfffffff6"
abbreviation (input) CLUST_BAD :: cl_t where "CLUST_BAD \<equiv> 0xfffffff7"
abbreviation (input) CLUST_EOFS :: cl_t where "CLUST_EOFS \<equiv> 0xfffffff8"
abbreviation (input) CLUST_EOF :: cl_t where "CLUST_EOF \<equiv> 0xffffffff"
abbreviation (input) CLUST_DEAD :: cl_t where "CLUST_DEAD \<equiv> 0xfdeadc0d"
abbreviation (input) CLUST12_MASK :: cl_t where "CLUST12_MASK \<equiv> 0xfff"
abbreviation (input) CLUST16_MASK :: cl_t where "CLUST16_MASK \<equiv> 0xffff"
abbreviation (input) CLUST32_MASK :: cl_t where "CLUST32_MASK \<equiv> 0xfffffff"
abbreviation (input) DOSBOOTBLOCKSIZE_REAL :: u32 where "DOSBOOTBLOCKSIZE_REAL \<equiv> 512"
abbreviation (input) DOSBOOTBLOCKSIZE :: u32 where "DOSBOOTBLOCKSIZE \<equiv> 4096"

definition zero_boot :: bootblock where
  "zero_boot = \<lparr>bpbBytesPerSec = 0, bpbSecPerClust = 0, bpbResSectors = 0, bpbFATs = 0,
     bpbRootDirEnts = 0, bpbSectors = 0, bpbMedia = 0, bpbFATsmall = 0, SecPerTrack = 0,
     bpbHeads = 0, bpbHiddenSecs = 0, bpbHugeSectors = 0, bpbRootClust = 0, bpbFSInfo = 0,
     bpbBackup = 0, FSFree = 0, FSNext = 0, flags = 0, ValidFat = 0, ClustMask = 0,
     NumClusters = 0, NumSectors = 0, FATsecs = 0, NumFatEntries = 0, FirstCluster = 0,
     ClusterSize = 0, NumFiles = 0, NumFree = 0, NumBad = 0\<rparr>"

definition is_fat32 :: "bootblock \<Rightarrow> bool" where
  "is_fat32 boot \<longleftrightarrow> flags boot AND 1 \<noteq> 0"

section \<open>readboot()\<close>

text \<open>\<^verbatim>\<open>powerof2\<close> of sys/param.h, and the byte sums \<^verbatim>\<open>b[i] + (b[i+1] << 8) + \<dots>\<close>.\<close>

definition powerof2 :: "u32 \<Rightarrow> bool" where
  "powerof2 x \<longleftrightarrow> (x - 1) AND x = 0"

definition b2 :: "(nat \<Rightarrow> byte) \<Rightarrow> nat \<Rightarrow> u32" where
  "b2 b i = ucast (b i) + push_bit 8 (ucast (b (i + 1)))"

definition b4 :: "(nat \<Rightarrow> byte) \<Rightarrow> nat \<Rightarrow> u32" where
  "b4 b i = ucast (b i) + push_bit 8 (ucast (b (i + 1)))
            + push_bit 16 (ucast (b (i + 2))) + push_bit 24 (ucast (b (i + 3)))"

text \<open>\<^verbatim>\<open>memcmp(&b[i], cs, n) == 0\<close> and \<^verbatim>\<open>memcpy(&b[i], cs, n)\<close> for a literal.\<close>

definition mem_eq :: "(nat \<Rightarrow> byte) \<Rightarrow> nat \<Rightarrow> byte list \<Rightarrow> bool" where
  "mem_eq b i cs \<longleftrightarrow> map (\<lambda>k. b (i + k)) [0..<length cs] = cs"

definition put_bytes :: "nat \<Rightarrow> byte list \<Rightarrow> (nat \<Rightarrow> byte) \<Rightarrow> nat \<Rightarrow> byte" where
  "put_bytes i cs b = (\<lambda>k. if i \<le> k \<and> k < i + length cs then cs ! (k - i) else b k)"

definition readboot_bpb :: "(nat \<Rightarrow> byte) \<Rightarrow> bool \<times> bootblock" where
  "readboot_bpb block =
    (let boot = zero_boot\<lparr>ValidFat := -1\<rparr>;
         boot = boot\<lparr>bpbBytesPerSec := b2 block 11\<rparr> in
     if bpbBytesPerSec boot < DOSBOOTBLOCKSIZE_REAL \<or> bpbBytesPerSec boot > DOSBOOTBLOCKSIZE
        \<or> \<not> powerof2 (bpbBytesPerSec boot) then (False, boot)
     else let boot = boot\<lparr>bpbSecPerClust := ucast (block 13)\<rparr> in
     if bpbSecPerClust boot = 0 \<or> \<not> powerof2 (bpbSecPerClust boot) then (False, boot)
     else let boot = boot\<lparr>bpbResSectors := b2 block 14\<rparr> in
     if bpbResSectors boot < 1 then (False, boot)
     else let boot = boot\<lparr>bpbFATs := ucast (block 16)\<rparr> in
     if bpbFATs boot = 0 then (False, boot)
     else let boot = boot\<lparr>bpbRootDirEnts := b2 block 17\<rparr>;
              boot = (if bpbRootDirEnts boot = 0 then boot\<lparr>flags := flags boot OR 1\<rparr> else boot);
              boot = boot\<lparr>bpbSectors := b2 block 19\<rparr> in
     if bpbSectors boot \<noteq> 0 \<and> is_fat32 boot then (False, boot)
     else let boot = boot\<lparr>bpbMedia := ucast (block 21)\<rparr>;
              boot = boot\<lparr>bpbFATsmall := b2 block 22\<rparr> in
     if bpbFATsmall boot \<noteq> 0 \<and> is_fat32 boot then (False, boot)
     else let boot = boot\<lparr>SecPerTrack := b2 block 24, bpbHeads := b2 block 26,
                          bpbHiddenSecs := b4 block 28, bpbHugeSectors := b4 block 32\<rparr> in
     if bpbHugeSectors boot = 0 then
       (if is_fat32 boot then (False, boot)
        else if bpbSectors boot = 0 then (False, boot)
        else (True, boot\<lparr>NumSectors := bpbSectors boot\<rparr>))
     else
       (if bpbSectors boot \<noteq> 0 then (False, boot)
        else (True, boot\<lparr>NumSectors := bpbHugeSectors boot\<rparr>)))"

text \<open>The signature test of the FSInfo block, and the repair of its signature bytes.\<close>

abbreviation (input) RRaA :: "byte list" where "RRaA \<equiv> [0x52, 0x52, 0x61, 0x41]"
abbreviation (input) rrAa :: "byte list" where "rrAa \<equiv> [0x72, 0x72, 0x41, 0x61]"

definition fsinfo_bad :: "(nat \<Rightarrow> byte) \<Rightarrow> bool" where
  "fsinfo_bad fi \<longleftrightarrow>
     \<not> mem_eq fi 0 RRaA \<or> \<not> mem_eq fi 0x1e4 rrAa
     \<or> fi 0x1fc \<noteq> 0 \<or> fi 0x1fd \<noteq> 0 \<or> fi 0x1fe \<noteq> 0x55 \<or> fi 0x1ff \<noteq> 0xaa
     \<or> fi 0x3fc \<noteq> 0 \<or> fi 0x3fd \<noteq> 0 \<or> fi 0x3fe \<noteq> 0x55 \<or> fi 0x3ff \<noteq> 0xaa"

definition fsinfo_fix :: "(nat \<Rightarrow> byte) \<Rightarrow> nat \<Rightarrow> byte" where
  "fsinfo_fix fi = put_bytes 0x3fc [0, 0, 0x55, 0xaa] (put_bytes 0x1fc [0, 0, 0x55, 0xaa]
     (put_bytes 0x1e4 rrAa (put_bytes 0 RRaA fi)))"

definition fsinfo_off :: "bootblock \<Rightarrow> nat" where
  "fsinfo_off boot = unat (bpbFSInfo boot * bpbBytesPerSec boot)"

definition readboot_fsinfo ::
  "bootblock \<Rightarrow> 'a env_scheme \<Rightarrow> ((cint \<times> bootblock) \<times> 'a env_scheme) option" where
  "readboot_fsinfo boot s = do {
     ((ok, fi), s) \<leftarrow> seek_read (fsinfo_off boot) 8192 0 \<lparr>blen = 8192, bdat = junk s\<rparr> s;
     if \<not> ok then Some ((FSFATAL, boot), s)
     else if fsinfo_bad (bdat fi) then
       (case ask False s of (yes, s) \<Rightarrow>
          if yes then do {
            (ok, s) \<leftarrow> seek_write (fsinfo_off boot) 8192 0 (fi\<lparr>bdat := fsinfo_fix (bdat fi)\<rparr>) s;
            Some ((if ok then FSBOOTMOD else FSFATAL, boot), s) }
          else Some ((FSOK, boot\<lparr>bpbFSInfo := 0\<rparr>), s))
     else Some ((FSOK, boot\<lparr>FSFree := b4 (bdat fi) 0x1e8, FSNext := b4 (bdat fi) 0x1ec\<rparr>), s) }"

abbreviation (input) EXFAT_NAME :: "byte list" where
  "EXFAT_NAME \<equiv> [0x45, 0x58, 0x46, 0x41, 0x54, 0x20, 0x20, 0x20]"

definition readboot_fat32 ::
  "(nat \<Rightarrow> byte) \<Rightarrow> bootblock \<Rightarrow> 'a env_scheme \<Rightarrow> ((cint \<times> bootblock) \<times> 'a env_scheme) option" where
  "readboot_fat32 block boot s =
    (if is_fat32 boot then
       (if mem_eq block 3 EXFAT_NAME then Some ((FSFATAL, boot), s)
        else let boot = boot\<lparr>FATsecs := b4 block 36\<rparr>;
                 boot = (if block 40 AND 0x80 \<noteq> 0
                         then boot\<lparr>ValidFat := ucast (block 40 AND 0x0f)\<rparr> else boot) in
        if block 42 \<noteq> 0 \<or> block 43 \<noteq> 0 then Some ((FSFATAL, boot), s)
        else let boot = boot\<lparr>bpbRootClust := b4 block 44, bpbFSInfo := b2 block 48,
                             bpbBackup := b2 block 50\<rparr> in
        if bpbFSInfo boot = 0 then Some ((FSFATAL, boot), s)
        else readboot_fsinfo boot s)
     else Some ((FSOK, boot\<lparr>FATsecs := bpbFATsmall boot\<rparr>), s))"

text \<open>
  The mask for the number of clusters, as the \<^verbatim>\<open>if\<close> ladder chooses it; \<open>None\<close> is a rejected
  file system. \<open>NumClusters\<close> is at this point the number of data clusters.
\<close>

definition readboot_clustmask :: "bootblock \<Rightarrow> cl_t option" where
  "readboot_clustmask boot =
    (if is_fat32 boot then
       (if NumClusters boot > (CLUST_RSRVD AND CLUST32_MASK) then None
        else if NumClusters boot < (CLUST_RSRVD AND CLUST16_MASK) then None
        else if bpbRootClust boot < CLUST_FIRST \<or> bpbRootClust boot \<ge> NumClusters boot then None
        else Some CLUST32_MASK)
     else if NumClusters boot < (CLUST_RSRVD AND CLUST12_MASK) then Some CLUST12_MASK
     else if NumClusters boot < (CLUST_RSRVD AND CLUST16_MASK) then Some CLUST16_MASK
     else None)"

definition first_cluster :: "bootblock \<Rightarrow> u32" where
  "first_cluster boot =
     (bpbRootDirEnts boot * 32 + bpbBytesPerSec boot - 1) div bpbBytesPerSec boot
     + bpbResSectors boot + bpbFATs boot * FATsecs boot"

definition fat_entries :: "bootblock \<Rightarrow> u32" where
  "fat_entries boot =
    (if ClustMask boot = CLUST32_MASK then (FATsecs boot * bpbBytesPerSec boot) div 4
     else if ClustMask boot = CLUST16_MASK then (FATsecs boot * bpbBytesPerSec boot) div 2
     else (FATsecs boot * bpbBytesPerSec boot * 2) div 3)"

definition readboot_geometry :: "bootblock \<Rightarrow> bool \<times> bootblock" where
  "readboot_geometry boot =
    (if FATsecs boot < 1 \<or> FATsecs boot > 0xffffffff div bpbFATs boot then (False, boot)
     else let boot = boot\<lparr>FirstCluster := first_cluster boot\<rparr> in
     if FirstCluster boot + bpbSecPerClust boot > NumSectors boot then (False, boot)
     else let boot = boot\<lparr>NumClusters :=
                (NumSectors boot - FirstCluster boot) div bpbSecPerClust boot\<rparr> in
     case readboot_clustmask boot of
       None \<Rightarrow> (False, boot)
     | Some cmask \<Rightarrow>
        let boot = boot\<lparr>ClustMask := cmask\<rparr>;
            boot = boot\<lparr>NumFatEntries := fat_entries boot\<rparr> in
        if NumFatEntries boot < NumClusters boot then (False, boot)
        else (True, boot\<lparr>NumClusters := NumClusters boot + CLUST_FIRST,
                         ClusterSize := bpbBytesPerSec boot * bpbSecPerClust boot,
                         NumFiles := 1, NumFree := 0\<rparr>))"

definition readboot :: "'a env_scheme \<Rightarrow> ((cint \<times> bootblock) \<times> 'a env_scheme) option" where
  "readboot s = do {
     ((ok, blk), s) \<leftarrow> dread 4096 0 \<lparr>blen = 4096, bdat = junk s\<rparr> s;
     if \<not> ok then Some ((FSFATAL, zero_boot), s)
     else if bdat blk 510 \<noteq> 0x55 \<or> bdat blk 511 \<noteq> 0xaa then Some ((FSFATAL, zero_boot), s)
     else case readboot_bpb (bdat blk) of (ok, boot) \<Rightarrow>
       if \<not> ok then Some ((FSFATAL, boot), s)
       else do {
         ((ret, boot), s) \<leftarrow> readboot_fat32 (bdat blk) boot s;
         if ret = FSFATAL then Some ((FSFATAL, boot), s)
         else case readboot_geometry boot of (ok, boot) \<Rightarrow>
           Some ((if ok then ret else FSFATAL, boot), s) } }"

section \<open>writefsinfo()\<close>

definition le32_bytes :: "u32 \<Rightarrow> byte list" where
  "le32_bytes u = [ucast u, ucast (drop_bit 8 u), ucast (drop_bit 16 u), ucast (drop_bit 24 u)]"

definition writefsinfo :: "bootblock \<Rightarrow> 'a env_scheme \<Rightarrow> (cint \<times> 'a env_scheme) option" where
  "writefsinfo boot s = do {
     ((ok, fi), s) \<leftarrow> seek_read (fsinfo_off boot) 8192 0 \<lparr>blen = 8192, bdat = junk s\<rparr> s;
     if \<not> ok then Some (FSFATAL, s)
     else do {
       (ok, s) \<leftarrow> seek_write (fsinfo_off boot) 8192 0
         (fi\<lparr>bdat := put_bytes 0x1ec (le32_bytes (FSNext boot))
                      (put_bytes 0x1e8 (le32_bytes (FSFree boot)) (bdat fi))\<rparr>) s;
       Some (if ok then 0 else FSFATAL, s) } }"

section \<open>What an accepted boot block guarantees\<close>

lemma nat_power_of_two: "0 < n \<Longrightarrow> (n - 1) AND n = 0 \<Longrightarrow> \<exists>k. n = 2 ^ k" for n :: nat
proof (induction n rule: less_induct)
  case (less n)
  show ?case
  proof (cases "even n")
    case True
    then obtain m where m: "n = 2 * m" ..
    with less.prems obtain j where "m = Suc j" by (cases m) auto
    with m have n: "n = 2 * Suc j" by simp
    have "(n - 1) AND n = 2 * (j AND Suc j)"
      by (simp add: n and_nat_unfold [of "Suc (2 * j)"])
    with less.prems have "(Suc j - 1) AND Suc j = 0" by simp
    with less.IH [of "Suc j"] n obtain k where "Suc j = 2 ^ k" by auto
    with n have "n = 2 ^ Suc k" by simp
    then show ?thesis ..
  next
    case False
    then obtain m where n: "n = 2 * m + 1" by (auto elim: oddE)
    have "(2 * m) AND (2 * m + 1) = 2 * m"
      by (cases "m = 0") (simp_all add: and_nat_unfold [of "2 * m" "Suc (2 * m)"])
    with less.prems n have "n = 2 ^ 0" by simp
    then show ?thesis ..
  qed
qed

lemma powerof2_cases:
  assumes "powerof2 x" and "x \<noteq> 0"
  shows "\<exists>k<32. x = 2 ^ k"
proof -
  have pos: "0 < unat x" using assms(2) by (simp add: unat_gt_0)
  have "unat (x - 1) = unat x - 1"
    using pos assms(2) by (simp add: unat_minus_one)
  moreover have "unat ((x - 1) AND x) = unat (x - 1) AND unat x"
    by (simp add: unsigned_and_eq)
  ultimately have "(unat x - 1) AND unat x = 0"
    using assms(1) by (simp add: powerof2_def)
  with pos obtain k where k: "unat x = 2 ^ k"
    using nat_power_of_two by blast
  have "unat x < 2 ^ LENGTH(32)" by (rule unsigned_less)
  with k have "(2::nat) ^ k < 2 ^ LENGTH(32)" by simp
  then have "k < LENGTH(32)" by (rule power_less_imp_less_exp [rotated]) simp
  then have "k < 32" by simp
  moreover have "x = 2 ^ k"
  proof -
    have "x = of_nat (unat x)" by simp
    also have "\<dots> = 2 ^ k" by (simp only: k of_nat_power of_nat_numeral)
    finally show ?thesis .
  qed
  ultimately show ?thesis by blast
qed

lemma sector_sizes:
  assumes "powerof2 x" "\<not> x < 512" "\<not> x > 4096"
  shows "x \<in> {512, 1024, 2048, 4096}"
proof -
  obtain k where k: "k < 32" "x = 2 ^ k" using powerof2_cases assms by fastforce
  then have "k \<in> set [0..<32]" by simp
  then show ?thesis using assms(2,3) k(2) by (simp add: upt_rec) fastforce
qed

lemma cluster_sizes:
  assumes "powerof2 x" "x \<noteq> 0" "x < 256"
  shows "x \<in> {1, 2, 4, 8, 16, 32, 64, 128}"
proof -
  obtain k where k: "k < 32" "x = 2 ^ k" using powerof2_cases assms by fastforce
  then have "k \<in> set [0..<32]" by simp
  then show ?thesis using assms(3) k(2) by (simp add: upt_rec) fastforce
qed

definition wf_bpb :: "bootblock \<Rightarrow> bool" where
  "wf_bpb boot \<longleftrightarrow>
     bpbBytesPerSec boot \<in> {512, 1024, 2048, 4096} \<and>
     bpbSecPerClust boot \<in> {1, 2, 4, 8, 16, 32, 64, 128} \<and>
     bpbResSectors boot \<noteq> 0 \<and> bpbResSectors boot < 0x10000 \<and>
     bpbFATs boot \<noteq> 0 \<and> bpbFATs boot < 0x100 \<and> bpbRootDirEnts boot < 0x10000 \<and>
     (is_fat32 boot \<longleftrightarrow> bpbRootDirEnts boot = 0)"

definition wf_boot :: "bootblock \<Rightarrow> bool" where
  "wf_boot boot \<longleftrightarrow>
     wf_bpb boot \<and> FATsecs boot \<noteq> 0 \<and> unat (bpbFATs boot) * unat (FATsecs boot) < 2 ^ 32 \<and>
     ClusterSize boot = bpbBytesPerSec boot * bpbSecPerClust boot \<and>
     (is_fat32 boot \<and> ClustMask boot = CLUST32_MASK
        \<and> 0xfff8 \<le> NumClusters boot \<and> NumClusters boot \<le> 0xffffff8
        \<and> CLUST_FIRST \<le> bpbRootClust boot \<and> bpbRootClust boot < NumClusters boot - CLUST_FIRST
      \<or> \<not> is_fat32 boot \<and> ClustMask boot = CLUST16_MASK
        \<and> 0xff8 \<le> NumClusters boot \<and> NumClusters boot < 0xfff8
      \<or> \<not> is_fat32 boot \<and> ClustMask boot = CLUST12_MASK
        \<and> CLUST_FIRST \<le> NumClusters boot \<and> NumClusters boot < 0xff8) \<and>
     NumClusters boot - CLUST_FIRST \<le> NumFatEntries boot"

lemma ucast_byte_less: "(ucast (b :: byte) :: u32) < 0x100"
proof -
  have "unat b < 2 ^ LENGTH(8)" by (rule unsigned_less)
  then show ?thesis by (simp add: word_less_nat_alt unsigned_ucast_eq take_bit_nat_eq_self)
qed

lemma b2_less: "b2 b i < 0x10000"
proof -
  have "unat (b i) < 2 ^ LENGTH(8)" "unat (b (i + 1)) < 2 ^ LENGTH(8)" by (rule unsigned_less)+
  then show ?thesis
    by (simp add: b2_def word_less_nat_alt unat_word_ariths unsigned_ucast_eq take_bit_nat_eq_self
        push_bit_eq_mult)
qed

lemma readboot_bpb_wf: "readboot_bpb block = (True, boot) \<Longrightarrow> wf_bpb boot"
  using b2_less [of block 14] b2_less [of block 17] ucast_byte_less [of "block 13"] ucast_byte_less [of "block 16"]
  by (auto simp: readboot_bpb_def Let_def wf_bpb_def zero_boot_def is_fat32_def
      dest: sector_sizes cluster_sizes split: if_splits)


lemma wf_bpb_upds [simp]:
  "wf_bpb (boot\<lparr>FATsecs := a\<rparr>) = wf_bpb boot" "wf_bpb (boot\<lparr>ValidFat := b\<rparr>) = wf_bpb boot"
  "wf_bpb (boot\<lparr>bpbRootClust := a\<rparr>) = wf_bpb boot" "wf_bpb (boot\<lparr>bpbFSInfo := a\<rparr>) = wf_bpb boot"
  "wf_bpb (boot\<lparr>bpbBackup := a\<rparr>) = wf_bpb boot" "wf_bpb (boot\<lparr>FSFree := a\<rparr>) = wf_bpb boot"
  "wf_bpb (boot\<lparr>FSNext := a\<rparr>) = wf_bpb boot"
  by (simp_all add: wf_bpb_def is_fat32_def)

lemma readboot_fsinfo_wf:
  "wf_bpb boot \<Longrightarrow> post (readboot_fsinfo boot s) (\<lambda>((ret, boot'), s'). wf_bpb boot')"
  unfolding readboot_fsinfo_def by (intro post_rules) simp_all

lemma readboot_fat32_wf:
  assumes "readboot_fat32 block boot s = Some ((ret, boot'), s')" and "wf_bpb boot"
  shows "wf_bpb boot'"
proof -
  have "post (readboot_fat32 block boot s) (\<lambda>((ret, boot'), s'). wf_bpb boot')"
    using assms(2) unfolding readboot_fat32_def
    by (intro post_rules) (auto intro!: readboot_fsinfo_wf)
  then show ?thesis using assms(1) by (auto dest: postD)
qed

lemma word_mult_no_overflow:
  assumes "b \<noteq> 0" and "\<not> a > 0xffffffff div b"
  shows "unat (b :: u32) * unat a < 2 ^ 32"
proof -
  have b: "0 < unat b" using assms(1) by (simp add: unat_gt_0)
  have "unat a \<le> 0xffffffff div unat b"
    using assms(2) by (simp add: word_less_nat_alt unat_div_distrib not_less)
  then have "unat b * unat a \<le> unat b * (0xffffffff div unat b)" by simp
  also have "\<dots> \<le> 0xffffffff" by simp
  finally show ?thesis by simp
qed

lemma word_add_two:
  assumes "x \<le> 0xffffff6"
  shows "(x :: u32) + 2 \<ge> 2" "x + 2 - 2 = x" "unat (x + 2) = unat x + 2"
proof -
  show *: "unat (x + 2) = unat x + 2"
    using assms by (simp add: word_le_nat_alt unat_word_ariths)
  show "x + 2 \<ge> 2" by (simp add: word_le_nat_alt *)
  show "x + 2 - 2 = x" by simp
qed

lemma readboot_clustmask_cases:
  assumes "readboot_clustmask boot = Some m"
  shows "is_fat32 boot \<and> m = CLUST32_MASK \<and> 0xfff6 \<le> NumClusters boot \<and> NumClusters boot \<le> 0xffffff6
           \<and> CLUST_FIRST \<le> bpbRootClust boot \<and> bpbRootClust boot < NumClusters boot
      \<or> \<not> is_fat32 boot \<and> m = CLUST16_MASK \<and> 0xff6 \<le> NumClusters boot \<and> NumClusters boot < 0xfff6
      \<or> \<not> is_fat32 boot \<and> m = CLUST12_MASK \<and> NumClusters boot < 0xff6"
  using assms by (auto simp: readboot_clustmask_def not_less not_le split: if_splits)

text \<open>The boot block once the number of data clusters is known, before the mask is chosen.\<close>

definition laid_out :: "bootblock \<Rightarrow> bootblock" where
  "laid_out boot = boot\<lparr>FirstCluster := first_cluster boot,
     NumClusters := (NumSectors boot - first_cluster boot) div bpbSecPerClust boot\<rparr>"

lemma laid_out_simps [simp]:
  "wf_bpb (laid_out boot) = wf_bpb boot" "FATsecs (laid_out boot) = FATsecs boot"
  "bpbFATs (laid_out boot) = bpbFATs boot" "is_fat32 (laid_out boot) = is_fat32 boot"
  "bpbRootClust (laid_out boot) = bpbRootClust boot" "flags (laid_out boot) = flags boot"
  "bpbBytesPerSec (laid_out boot) = bpbBytesPerSec boot"
  "bpbSecPerClust (laid_out boot) = bpbSecPerClust boot"
  "NumSectors (laid_out boot) = NumSectors boot"
  "bpbResSectors (laid_out boot) = bpbResSectors boot"
  "bpbRootDirEnts (laid_out boot) = bpbRootDirEnts boot"
  by (simp_all add: laid_out_def wf_bpb_def is_fat32_def)

lemma readboot_geometry_True:
  assumes "readboot_geometry boot = (True, boot')"
  obtains m where "FATsecs boot \<noteq> 0" "FATsecs boot \<le> 0xffffffff div bpbFATs boot"
    "first_cluster boot + bpbSecPerClust boot \<le> NumSectors boot"
    "readboot_clustmask (laid_out boot) = Some m"
    "NumClusters (laid_out boot) \<le> fat_entries ((laid_out boot)\<lparr>ClustMask := m\<rparr>)"
    "boot' = (laid_out boot)\<lparr>ClustMask := m,
       NumFatEntries := fat_entries ((laid_out boot)\<lparr>ClustMask := m\<rparr>),
       NumClusters := NumClusters (laid_out boot) + 2,
       ClusterSize := bpbBytesPerSec boot * bpbSecPerClust boot, NumFiles := 1, NumFree := 0\<rparr>"
  using assms unfolding readboot_geometry_def laid_out_def Let_def
  by (simp split: if_splits option.splits add: not_less)

lemma readboot_geometry_wf:
  assumes ok: "readboot_geometry boot = (True, boot')" and wf: "wf_bpb boot"
  shows "wf_boot boot'"
  using ok
proof (rule readboot_geometry_True)
  fix m
  let ?b = "laid_out boot"
  assume lim: "FATsecs boot \<noteq> 0" "FATsecs boot \<le> 0xffffffff div bpbFATs boot"
    and m: "readboot_clustmask ?b = Some m"
    and ne: "NumClusters ?b \<le> fat_entries (?b\<lparr>ClustMask := m\<rparr>)"
    and boot': "boot' = ?b\<lparr>ClustMask := m, NumFatEntries := fat_entries (?b\<lparr>ClustMask := m\<rparr>),
       NumClusters := NumClusters ?b + 2,
       ClusterSize := bpbBytesPerSec boot * bpbSecPerClust boot, NumFiles := 1, NumFree := 0\<rparr>"
  have nov: "unat (bpbFATs boot) * unat (FATsecs boot) < 2 ^ 32"
    using word_mult_no_overflow lim wf by (auto simp: wf_bpb_def)
  have le6: "NumClusters ?b \<le> 0xffffff6"
    using readboot_clustmask_cases [OF m] by (auto simp: word_le_nat_alt word_less_nat_alt)
  have sz: "unat (NumClusters ?b + 2) = unat (NumClusters ?b) + 2" using word_add_two [OF le6] by simp
  have "wf_bpb boot'" "FATsecs boot' = FATsecs boot" "bpbFATs boot' = bpbFATs boot"
    "is_fat32 boot' = is_fat32 ?b" "bpbRootClust boot' = bpbRootClust ?b"
    "ClusterSize boot' = bpbBytesPerSec boot' * bpbSecPerClust boot'"
    "ClustMask boot' = m" "NumClusters boot' = NumClusters ?b + 2"
    "NumFatEntries boot' = fat_entries (?b\<lparr>ClustMask := m\<rparr>)"
    using wf by (simp_all add: boot' wf_bpb_def is_fat32_def)
  then show ?thesis
    using readboot_clustmask_cases [OF m] lim(1) nov ne sz
    unfolding wf_boot_def by (simp add: word_le_nat_alt word_less_nat_alt) 
qed

lemma readboot_post:
  "post (readboot s) (\<lambda>((ret, boot), s'). ret \<noteq> FSFATAL \<longrightarrow> wf_boot boot)"
  unfolding readboot_def
  by (intro post_rules)
    (auto, metis readboot_bpb_wf readboot_fat32_wf readboot_geometry_wf)


text \<open>Sectors before the first data cluster, without wrap-around.\<close>

definition table_sectors :: "bootblock \<Rightarrow> nat" where
  "table_sectors boot = (unat (bpbRootDirEnts boot) * 32 + unat (bpbBytesPerSec boot) - 1)
     div unat (bpbBytesPerSec boot) + unat (bpbResSectors boot)
     + unat (bpbFATs boot) * unat (FATsecs boot)"

lemma unat_first_cluster:
  assumes wf: "wf_bpb boot"
    and fit: "unat (bpbFATs boot) * unat (FATsecs boot) + unat (bpbResSectors boot) + 4096 < 2 ^ 32"
  shows "unat (first_cluster boot) = (unat (bpbRootDirEnts boot) * 32 + unat (bpbBytesPerSec boot) - 1)
           div unat (bpbBytesPerSec boot) + unat (bpbResSectors boot)
           + unat (bpbFATs boot) * unat (FATsecs boot)"
proof -
  let ?r = "unat (bpbRootDirEnts boot)" and ?b = "unat (bpbBytesPerSec boot)"
  have r: "?r < 65536" using wf by (simp add: wf_bpb_def word_less_nat_alt)
  have b: "?b = 512 \<or> ?b = 1024 \<or> ?b = 2048 \<or> ?b = 4096" using wf by (auto simp: wf_bpb_def)
  have e: "unat (bpbRootDirEnts boot * 32 + bpbBytesPerSec boot - 1) = ?r * 32 + ?b - 1"
  proof -
    have 1: "unat (bpbRootDirEnts boot * 32 + bpbBytesPerSec boot) = ?r * 32 + ?b"
      using r b by (auto simp: unat_word_ariths)
    then have "bpbRootDirEnts boot * 32 + bpbBytesPerSec boot \<noteq> 0"
      using b by (metis add_is_0 numeral_eq_Suc Suc_neq_Zero unsigned_0)
    with 1 show ?thesis by (simp add: unat_minus_one)
  qed
  have d: "(?r * 32 + ?b - 1) div ?b \<le> 4096" using r b by auto
  have "unat (bpbFATs boot * FATsecs boot) = unat (bpbFATs boot) * unat (FATsecs boot)"
    using fit by (simp add: unat_word_ariths)
  moreover have "unat ((bpbRootDirEnts boot * 32 + bpbBytesPerSec boot - 1) div bpbBytesPerSec boot)
     = (?r * 32 + ?b - 1) div ?b"
    by (simp add: unat_div_distrib e)
  ultimately show ?thesis
    using d fit by (simp add: first_cluster_def unat_word_ariths)
qed

lemma data_region_fits:
  assumes ok: "readboot_geometry boot = (True, boot')" and wf: "wf_bpb boot"
    and fit: "unat (bpbFATs boot) * unat (FATsecs boot) + unat (bpbResSectors boot) + 4224 < 2 ^ 32"
  shows "unat (FirstCluster boot') = table_sectors boot'"
    and "unat (FirstCluster boot') + (unat (NumClusters boot') - 2) * unat (bpbSecPerClust boot')
         \<le> unat (NumSectors boot')"
  using ok
proof (atomize(full), elim readboot_geometry_True)
  fix m
  let ?b = "laid_out boot"
  assume le: "first_cluster boot + bpbSecPerClust boot \<le> NumSectors boot"
    and m: "readboot_clustmask ?b = Some m"
    and boot': "boot' = ?b\<lparr>ClustMask := m, NumFatEntries := fat_entries (?b\<lparr>ClustMask := m\<rparr>),
       NumClusters := NumClusters ?b + 2,
       ClusterSize := bpbBytesPerSec boot * bpbSecPerClust boot, NumFiles := 1, NumFree := 0\<rparr>"
  have fc: "unat (first_cluster boot) = table_sectors boot"
    using unat_first_cluster [OF wf] fit by (simp add: table_sectors_def)
  have spc: "unat (bpbSecPerClust boot) \<le> 128" "0 < unat (bpbSecPerClust boot)" using wf by (auto simp: wf_bpb_def)
  have root: "(unat (bpbRootDirEnts boot) * 32 + unat (bpbBytesPerSec boot) - 1)
     div unat (bpbBytesPerSec boot) \<le> 4096" using wf by (auto simp: wf_bpb_def word_less_nat_alt)
  have "unat (first_cluster boot + bpbSecPerClust boot) = unat (first_cluster boot) + unat (bpbSecPerClust boot)"
    using fit spc root by (simp add: fc table_sectors_def unat_word_ariths)
  then have le2: "unat (first_cluster boot) \<le> unat (NumSectors boot)"
    using le by (simp add: word_le_nat_alt)
  have n: "unat (NumClusters ?b) = (unat (NumSectors boot) - unat (first_cluster boot)) div unat (bpbSecPerClust boot)"
    using le2 by (simp add: laid_out_def unat_div_distrib unat_sub word_le_nat_alt)
  have le6: "NumClusters ?b \<le> 0xffffff6"
    using readboot_clustmask_cases [OF m] by (auto simp: word_le_nat_alt word_less_nat_alt)
  have "unat (NumClusters ?b) * unat (bpbSecPerClust boot) \<le> unat (NumSectors boot) - unat (first_cluster boot)"
    by (simp add: n)
  then show "unat (FirstCluster boot') = table_sectors boot' \<and>
    unat (FirstCluster boot') + (unat (NumClusters boot') - 2) * unat (bpbSecPerClust boot')
         \<le> unat (NumSectors boot')"
    using le2 fc word_add_two [OF le6] by (simp add: boot' laid_out_def table_sectors_def)
qed

lemma readboot_fields:
  "post (readboot s) (\<lambda>((ret, boot), s'). ret \<noteq> FSFATAL \<longrightarrow>
     (\<exists>b. readboot_geometry b = (True, boot) \<and> wf_bpb b))"
  unfolding readboot_def
  by (intro post_rules) (auto, metis readboot_bpb_wf readboot_fat32_wf)

lemma readboot_geometry_keeps:
  "readboot_geometry b = (True, boot) \<Longrightarrow>
   bpbFATs boot = bpbFATs b \<and> FATsecs boot = FATsecs b \<and> bpbResSectors boot = bpbResSectors b"
  by (erule readboot_geometry_True) simp

section \<open>Little-endian fields\<close>

lemma byte_sum4_or:
  "(ucast (a :: byte) :: u32) + push_bit 8 (ucast (b :: byte)) + push_bit 16 (ucast (c :: byte)) + push_bit 24 (ucast (d :: byte))
   = push_bit 24 (ucast d) OR push_bit 16 (ucast c) OR push_bit 8 (ucast b) OR ucast a"
proof -
  have bound: "\<not> bit (x :: byte) n" if "8 \<le> n" for x n
    using that bit_imp_le_length [of x n] by auto
  have 1: "(ucast a :: u32) + push_bit 8 (ucast b) = ucast a OR push_bit 8 (ucast b)"
    by (rule disjunctive_add_eq_or) (rule bit_word_eqI, auto simp: bit_simps bound)
  have 2: "(ucast a OR push_bit 8 (ucast b) :: u32) + push_bit 16 (ucast c) = ucast a OR push_bit 8 (ucast b) OR push_bit 16 (ucast c)"
    by (subst disjunctive_add_eq_or) (rule bit_word_eqI, auto simp: bit_simps bound ac_simps)
  have 3: "(ucast a OR push_bit 8 (ucast b) OR push_bit 16 (ucast c) :: u32) + push_bit 24 (ucast d)
    = (ucast a OR push_bit 8 (ucast b) OR push_bit 16 (ucast c)) OR push_bit 24 (ucast d)"
    by (rule disjunctive_add_eq_or) (rule bit_word_eqI, auto simp: bit_simps bound)
  show ?thesis by (simp only: 1 2 3) (simp add: ac_simps)
qed

lemma u32_split_bytes':
  "push_bit 24 (ucast (ucast (drop_bit 24 u) :: byte)) OR push_bit 16 (ucast (ucast (drop_bit 16 u) :: byte)) OR
   push_bit 8 (ucast (ucast (drop_bit 8 u) :: byte)) OR ucast (ucast u :: byte) = (u :: u32)" (is "?l = u")
proof (rule bit_word_eqI)
  fix n :: nat
  assume "n < LENGTH(32)"
  then consider "n < 8" | "8 \<le> n" "n < 16" | "16 \<le> n" "n < 24" | "24 \<le> n" "n < 32"
    by fastforce
  then show "bit ?l n = bit u n"
    by cases (auto simp: bit_simps)
qed

lemma b4_le32_bytes: "b4 (put_bytes i (le32_bytes u) f) i = u"
proof -
  have "b4 (put_bytes i (le32_bytes u) f) i =
    ucast (ucast u :: byte) + push_bit 8 (ucast (ucast (drop_bit 8 u) :: byte))
    + push_bit 16 (ucast (ucast (drop_bit 16 u) :: byte)) + push_bit 24 (ucast (ucast (drop_bit 24 u) :: byte))"
    by (simp add: b4_def put_bytes_def le32_bytes_def numeral_2_eq_2 numeral_3_eq_3)
  then show ?thesis by (simp only: byte_sum4_or u32_split_bytes')
qed

lemma b4_put_other:
  "j + 3 < i \<or> i + length cs \<le> j \<Longrightarrow> b4 (put_bytes i cs f) j = b4 f j"
  by (auto simp: b4_def put_bytes_def)

section \<open>Properties\<close>

text \<open>
  C17: every boot block that \<^verbatim>\<open>readboot()\<close> accepts is well formed: the sector size is
  512, 1024, 2048 or 4096, the cluster size a power of two of at most 128 sectors, the reserved
  area, the number of FATs and the FAT size are not zero, the product of the last two fits in
  32 bits, the FAT type agrees with the number of clusters, the root directory of a FAT32 volume
  starts in range, and the FAT has an entry for at least as many clusters as there are data
  clusters.
\<close>

theorem readboot_wf:
  assumes "readboot s = Some ((ret, boot), s')" and "ret \<noteq> FSFATAL"
  shows "wf_boot boot"
  using postD [OF readboot_post assms(1)] assms(2) by simp

text \<open>A small FAT12 image: the boot block fields that vary, everything else zero.\<close>

definition sample_block :: "byte \<Rightarrow> byte \<Rightarrow> byte \<Rightarrow> byte \<Rightarrow> nat \<Rightarrow> byte" where
  "sample_block fats rootents seclo sechi = (\<lambda>_. 0)(12 := 2, 13 := 1, 14 := 1, 16 := fats,
     17 := rootents, 19 := seclo, 20 := sechi, 21 := 0xf0, 22 := 1, 510 := 0x55, 511 := 0xaa)"

lemmas readboot_eval =
  readboot_def sample_env_def dread_def pop_fault_def Let_def sample_block_def readboot_bpb_def
  b2_def b4_def powerof2_def is_fat32_def zero_boot_def readboot_fat32_def readboot_geometry_def
  first_cluster_def readboot_clustmask_def fat_entries_def blit_def

theorem readboot_wf_witness:
  "\<exists>boot s'. readboot (sample_env \<lparr>blen = 4096, bdat = sample_block 1 16 50 0\<rparr>)
       = Some ((FSOK, boot), s') \<and> NumClusters boot = 49 \<and> wf_boot boot"
proof -
  have "\<exists>boot s'. readboot (sample_env \<lparr>blen = 4096, bdat = sample_block 1 16 50 0\<rparr>)
       = Some ((FSOK, boot), s') \<and> NumClusters boot = 49"
    by (simp add: readboot_eval)
  then show ?thesis using readboot_wf by fastforce
qed

text \<open>
  C18: provided the sector count of the tables does not overflow 32 bits, the data region of
  an accepted volume lies within the volume: the first data sector is exactly the number of
  sectors taken by the reserved area, the FATs and the root directory, and all data clusters end
  at or before the last sector.
\<close>

theorem readboot_data_region:
  assumes "readboot s = Some ((ret, boot), s')" and "ret \<noteq> FSFATAL"
    and fit: "unat (bpbFATs boot) * unat (FATsecs boot) + unat (bpbResSectors boot) + 4224 < 2 ^ 32"
  shows "unat (FirstCluster boot) = table_sectors boot \<and>
    unat (FirstCluster boot) + (unat (NumClusters boot) - 2) * unat (bpbSecPerClust boot)
      \<le> unat (NumSectors boot)"
proof -
  obtain b where b: "readboot_geometry b = (True, boot)" "wf_bpb b"
    using postD [OF readboot_fields assms(1)] assms(2) by auto
  have "unat (bpbFATs b) * unat (FATsecs b) + unat (bpbResSectors b) + 4224 < 2 ^ 32"
    using fit readboot_geometry_keeps [OF b(1)] by simp
  then show ?thesis using data_region_fits [OF b] by blast
qed

theorem readboot_data_region_witness:
  "\<exists>boot s'. readboot (sample_env \<lparr>blen = 4096, bdat = sample_block 1 16 50 0\<rparr>)
       = Some ((FSOK, boot), s') \<and> unat (FirstCluster boot) = table_sectors boot"
proof -
  have "\<exists>boot s'. readboot (sample_env \<lparr>blen = 4096, bdat = sample_block 1 16 50 0\<rparr>)
       = Some ((FSOK, boot), s') \<and> bpbFATs boot = 1 \<and> FATsecs boot = 1 \<and> bpbResSectors boot = 1"
    by (simp add: readboot_eval)
  then show ?thesis using readboot_data_region by fastforce
qed

text \<open>
  The check that the FAT is large enough is made before the two reserved entries are
  added to the cluster count. A volume of 341 data clusters with a one-sector FAT12 table of 341
  entries is accepted, although its clusters are numbered up to 342 and their entries do not
  fit.
\<close>

lemma readboot_accepts_short_fat:
  "\<exists>boot s'. readboot (sample_env \<lparr>blen = 4096, bdat = sample_block 1 16 88 1\<rparr>)
       = Some ((FSOK, boot), s')
     \<and> NumFatEntries boot = 341 \<and> NumClusters boot = 343 \<and> FATsecs boot * bpbBytesPerSec boot = 512"
  by (simp add: readboot_eval)

text \<open>
  C19: the free-cluster count and the next-free hint that \<^verbatim>\<open>writefsinfo()\<close> stores are
  what a later \<^verbatim>\<open>readboot()\<close> of the same volume decodes from the FSInfo block.
\<close>

theorem fsinfo_roundtrip:
  assumes w: "writefsinfo boot s = Some (0, s1)"
    and sig: "\<not> fsinfo_bad (\<lambda>k. bdat (dev s) (k + fsinfo_off boot))"
    and "io_faults s1 = []" and "fsinfo_off boot1 = fsinfo_off boot"
  shows "\<exists>s2. readboot_fsinfo boot1 s1 =
    Some ((FSOK, boot1\<lparr>FSFree := FSFree boot, FSNext := FSNext boot\<rparr>), s2)"
proof -
  let ?o = "fsinfo_off boot"
  let ?b = "\<lparr>blen = 8192, bdat = junk s\<rparr>"
  from w obtain fi t where rd: "seek_read ?o 8192 0 ?b s = Some ((True, fi), t)"
    and wr: "seek_write ?o 8192 0 (fi\<lparr>bdat := put_bytes 0x1ec (le32_bytes (FSNext boot))
          (put_bytes 0x1e8 (le32_bytes (FSFree boot)) (bdat fi))\<rparr>) t = Some (True, s1)"
    by (auto simp: writefsinfo_def Option.bind_eq_Some_conv split: if_splits)
  note r = seek_read_True [OF rd] and w = seek_write_True [OF wr]
  define g where "g = put_bytes 0x1ec (le32_bytes (FSNext boot))
     (put_bytes 0x1e8 (le32_bytes (FSFree boot)) (\<lambda>k. if k < 8192 then bdat (dev s) (k + ?o) else junk s k))"
  have fi: "bdat fi = (\<lambda>k. if k < 8192 then bdat (dev s) (k + ?o) else junk s k)"
    using r(2) by (simp add: blit_def fun_eq_iff)
  have d1: "dev s1 = (dev s)\<lparr>bdat := blit g 0 8192 (bdat (dev s)) ?o\<rparr>"
    using w(2) r(3) fi by (simp add: g_def)
  have "seek_read ?o 8192 0 \<lparr>blen = 8192, bdat = junk s1\<rparr> s1 =
     Some ((True, \<lparr>blen = 8192, bdat = blit (bdat (dev s1)) ?o 8192 (junk s1) 0\<rparr>),
       s1\<lparr>io_faults := [], pos := ?o + 8192\<rparr>)"
    using r(1) d1 assms(3) by (subst seek_read_nofault) simp_all
  moreover have h: "blit (bdat (dev s1)) ?o 8192 (junk s1) 0 = blit g 0 8192 (junk s1) 0"
    by (simp add: d1 blit_def fun_eq_iff)
  moreover have "\<not> fsinfo_bad (blit g 0 8192 (junk s1) 0)"
    using sig by (simp add: fsinfo_bad_def g_def mem_eq_def blit_def put_bytes_def le32_bytes_def)
  moreover have "b4 (blit g 0 8192 (junk s1) 0) 0x1e8 = FSFree boot"
  proof -
    have "b4 (blit g 0 8192 (junk s1) 0) 0x1e8 = b4 g 0x1e8" by (simp add: b4_def blit_def)
    also have "\<dots> = FSFree boot" by (simp add: g_def b4_put_other b4_le32_bytes)
    finally show ?thesis .
  qed
  moreover have "b4 (blit g 0 8192 (junk s1) 0) 0x1ec = FSNext boot"
  proof -
    have "b4 (blit g 0 8192 (junk s1) 0) 0x1ec = b4 g 0x1ec" by (simp add: b4_def blit_def)
    also have "\<dots> = FSNext boot" by (simp add: g_def b4_le32_bytes)
    finally show ?thesis .
  qed
  ultimately show ?thesis
    by (simp add: readboot_fsinfo_def assms(4))
qed

definition sample_fsinfo :: "nat \<Rightarrow> byte" where
  "sample_fsinfo = (\<lambda>_. 0)(512 := 0x52, 513 := 0x52, 514 := 0x61, 515 := 0x41, 996 := 0x72, 997 := 0x72,
     998 := 0x41, 999 := 0x61, 1022 := 0x55, 1023 := 0xaa, 1534 := 0x55, 1535 := 0xaa)"

theorem fsinfo_roundtrip_witness:
  "\<exists>s1 s2. writefsinfo (zero_boot\<lparr>bpbFSInfo := 1, bpbBytesPerSec := 512, FSFree := 7, FSNext := 9\<rparr>)
       (sample_env \<lparr>blen = 8704, bdat = sample_fsinfo\<rparr>) = Some (0, s1) \<and>
     readboot_fsinfo (zero_boot\<lparr>bpbFSInfo := 1, bpbBytesPerSec := 512\<rparr>) s1 =
       Some ((FSOK, zero_boot\<lparr>bpbFSInfo := 1, bpbBytesPerSec := 512, FSFree := 7, FSNext := 9\<rparr>), s2)"
proof -
  let ?b = "zero_boot\<lparr>bpbFSInfo := 1, bpbBytesPerSec := 512, FSFree := 7, FSNext := 9\<rparr>"
  let ?s = "sample_env \<lparr>blen = 8704, bdat = sample_fsinfo\<rparr>"
  have off: "fsinfo_off ?b = 512" "fsinfo_off (zero_boot\<lparr>bpbFSInfo := 1, bpbBytesPerSec := 512\<rparr>) = 512"
    by (simp_all add: fsinfo_off_def zero_boot_def)
  have "\<exists>s1. writefsinfo ?b ?s = Some (0, s1) \<and> io_faults s1 = []"
    by (simp add: writefsinfo_def off seek_read_nofault seek_write_nofault sample_env_def)
  then obtain s1 where s1: "writefsinfo ?b ?s = Some (0, s1)" "io_faults s1 = []" by blast
  have "\<not> fsinfo_bad (\<lambda>k. bdat (dev ?s) (k + fsinfo_off ?b))"
    unfolding off by (simp add: fsinfo_bad_def mem_eq_def sample_fsinfo_def sample_env_def)
  from fsinfo_roundtrip [OF s1(1) this s1(2), of "zero_boot\<lparr>bpbFSInfo := 1, bpbBytesPerSec := 512\<rparr>"]
  show ?thesis using s1(1) unfolding off by (auto simp: zero_boot_def)
qed

end
