(* ===== verification/Fsck_Bitmap.thy ===== *)
theory Fsck_Bitmap
  imports Fsck_Boot
begin

text \<open>
  The head bitmap of fat.c (\<^verbatim>\<open>long_bitmap_t\<close> and \<^verbatim>\<open>bitmap_*\<close>): one bit per cluster, packed
  into 64-bit \<^verbatim>\<open>unsigned long\<close>s (\<^verbatim>\<open>LONG_BIT\<close> is 64), and a count of the set bits. A word
  outside the map, like a map that was never allocated, has no value. The abstraction of a map
  is the set \<open>heads\<close> of its set bits; the locale \<open>head_map\<close> is what the scanning code relies on.
\<close>

record long_bitmap =
  bmap :: "u64 list"
  bcount :: u64

abbreviation (input) LONG_BIT :: u32 where "LONG_BIT \<equiv> 64"

definition bm_word :: "long_bitmap \<Rightarrow> cl_t \<Rightarrow> u64 option" where
  "bm_word lb i = (if unat i < length (bmap lb) then Some (bmap lb ! unat i) else None)"

definition bitmap_clear :: "long_bitmap \<Rightarrow> cl_t \<Rightarrow> long_bitmap option" where
  "bitmap_clear lb cl =
     (let i = cl div LONG_BIT;
          clearmask = NOT (push_bit (unat (cl mod LONG_BIT)) (1 :: u64))
      in do {
        w \<leftarrow> bm_word lb i;
        if w AND NOT clearmask \<noteq> 0
        then Some (lb\<lparr>bmap := (bmap lb)[unat i := w AND clearmask], bcount := bcount lb - 1\<rparr>)
        else None })"

definition bitmap_get :: "long_bitmap \<Rightarrow> cl_t \<Rightarrow> bool option" where
  "bitmap_get lb cl =
     (let i = cl div LONG_BIT;
          usedbit = push_bit (unat (cl mod LONG_BIT)) (1 :: u64)
      in do { w \<leftarrow> bm_word lb i; Some (w AND usedbit = usedbit) })"

definition bitmap_none_in_range :: "long_bitmap \<Rightarrow> cl_t \<Rightarrow> bool option" where
  "bitmap_none_in_range lb cl = do { w \<leftarrow> bm_word lb (cl div LONG_BIT); Some (w = 0) }"

definition bitmap_count :: "long_bitmap \<Rightarrow> u64" where
  "bitmap_count lb = bcount lb"

text \<open>\<^verbatim>\<open>roundup2\<close> of fsutil.h; the size of the map in words is its size in bytes over eight.\<close>

definition roundup2 :: "u64 \<Rightarrow> u64 \<Rightarrow> u64" where
  "roundup2 x y = (x + (y - 1)) AND NOT (y - 1)"

definition bitmap_ctor ::
  "u64 \<Rightarrow> bool \<Rightarrow> 'a env_scheme \<Rightarrow> (cint \<times> long_bitmap) \<times> 'a env_scheme" where
  "bitmap_ctor bits allone s =
     (let bitmap_size = unat (roundup2 bits 64 div (64 div 8))
      in case malloc bitmap_size s of
           (None, s) \<Rightarrow> ((FSFATAL, \<lparr>bmap = [], bcount = 0\<rparr>), s)
         | (Some _, s) \<Rightarrow>
             ((FSOK, if allone then \<lparr>bmap = replicate (bitmap_size div 8) (-1), bcount = bits\<rparr>
                     else \<lparr>bmap = replicate (bitmap_size div 8) 0, bcount = 0\<rparr>), s))"

definition bitmap_dtor :: "long_bitmap \<Rightarrow> long_bitmap" where
  "bitmap_dtor lb = lb\<lparr>bmap := []\<rparr>"

section \<open>The set of heads\<close>

definition bm_cap :: "long_bitmap \<Rightarrow> nat" where
  "bm_cap lb = 64 * length (bmap lb)"

definition heads :: "long_bitmap \<Rightarrow> nat set" where
  "heads lb = {c. c < bm_cap lb \<and> bit (bmap lb ! (c div 64)) (c mod 64)}"

text \<open>The count is right for a map over \<open>n\<close> clusters.\<close>

definition bm_inv :: "nat \<Rightarrow> long_bitmap \<Rightarrow> bool" where
  "bm_inv n lb \<longleftrightarrow> n \<le> bm_cap lb \<and> n < 2 ^ 32 \<and> unat (bcount lb) = card (heads lb \<inter> {..<n})"

lemma unat_cl_parts [simp]:
  "unat ((cl :: cl_t) div 64) = unat cl div 64" "unat (cl mod 64) = unat cl mod 64"
  by (simp_all add: unat_div_distrib unat_mod_distrib)

lemma bm_word_eq:
  "unat cl < bm_cap lb \<Longrightarrow> bm_word lb (cl div 64) = Some (bmap lb ! (unat cl div 64))"
  by (simp add: bm_word_def bm_cap_def less_mult_imp_div_less mult.commute)

lemma and_single: "k < 64 \<Longrightarrow> (w :: u64) AND 2 ^ k = 2 ^ k \<longleftrightarrow> bit w k"
proof
  assume "k < 64" and eq: "w AND 2 ^ k = 2 ^ k"
  then have "bit (w AND 2 ^ k) k" by (simp add: bit_simps)
  then show "bit w k" by (simp add: bit_simps)
next
  assume "k < 64" "bit w k"
  then show "w AND 2 ^ k = 2 ^ k" by (intro bit_word_eqI) (auto simp: bit_simps)
qed

lemma and_single_zero: "(w :: u64) AND 2 ^ k \<noteq> 0 \<longleftrightarrow> bit w k"
  by (simp add: and_exp_eq_0_iff_not_bit)

lemma bitmap_get_heads:
  "unat cl < bm_cap lb \<Longrightarrow> bitmap_get lb cl = Some (unat cl \<in> heads lb)"
  by (simp add: bitmap_get_def Let_def bm_word_eq heads_def and_single)

lemma bitmap_clear_notin:
  "unat cl < bm_cap lb \<Longrightarrow> unat cl \<notin> heads lb \<Longrightarrow> bitmap_clear lb cl = None"
  by (simp add: bitmap_clear_def Let_def bm_word_eq heads_def and_single_zero)

lemma div_mod_neq: "(c :: nat) \<noteq> d \<Longrightarrow> c div k = d div k \<Longrightarrow> c mod k \<noteq> d mod k"
  using div_mult_mod_eq [of c k] div_mult_mod_eq [of d k] by auto

lemma bitmap_clear_heads:
  assumes "unat cl \<in> heads lb"
  obtains lb' where "bitmap_clear lb cl = Some lb'" "heads lb' = heads lb - {unat cl}"
    "bm_cap lb' = bm_cap lb" "bcount lb' = bcount lb - 1"
proof -
  let ?c = "unat cl"
  from assms have cap: "?c < bm_cap lb" and set: "bit (bmap lb ! (?c div 64)) (?c mod 64)"
    by (auto simp: heads_def)
  have len: "?c div 64 < length (bmap lb)"
    using cap by (simp add: bm_cap_def less_mult_imp_div_less mult.commute)
  define lb' where "lb' = lb\<lparr>bmap := (bmap lb)[?c div 64 := bmap lb ! (?c div 64)
      AND NOT (push_bit (?c mod 64) 1)], bcount := bcount lb - 1\<rparr>"
  have "bitmap_clear lb cl = Some lb'"
    using set by (simp add: bitmap_clear_def Let_def bm_word_eq cap lb'_def and_single_zero)
  moreover have "heads lb' = heads lb - {?c}"
  proof (rule set_eqI)
    fix d
    show "d \<in> heads lb' \<longleftrightarrow> d \<in> heads lb - {?c}"
    proof (cases "d div 64 = ?c div 64")
      case True
      then have "d = ?c \<longleftrightarrow> d mod 64 = ?c mod 64" using div_mod_neq by blast
      with True len show ?thesis
        by (auto simp: heads_def lb'_def bm_cap_def bit_simps)
    next
      case False
      then show ?thesis by (auto simp: heads_def lb'_def bm_cap_def)
    qed
  qed
  ultimately show ?thesis using that by (simp add: lb'_def bm_cap_def)
qed

section \<open>The interface the FAT code uses\<close>

text \<open>
  A partial set of cluster numbers below a capacity: membership is total below the capacity,
  and an element can be cleared exactly when it is in the set. The client is the idiom of the
  scan, \<^verbatim>\<open>if (fat_is_cl_head(fat, cl)) fat_clear_cl_head(fat, cl)\<close>.
\<close>

locale head_map =
  fixes get :: "'b \<Rightarrow> cl_t \<Rightarrow> bool option"
    and clear :: "'b \<Rightarrow> cl_t \<Rightarrow> 'b option"
    and cap :: "'b \<Rightarrow> nat"
    and members :: "'b \<Rightarrow> nat set"
  assumes get_member: "unat cl < cap b \<Longrightarrow> get b cl = Some (unat cl \<in> members b)"
    and clear_member: "unat cl \<in> members b \<Longrightarrow>
      \<exists>b'. clear b cl = Some b' \<and> members b' = members b - {unat cl} \<and> cap b' = cap b"
    and clear_nonmember: "unat cl < cap b \<Longrightarrow> unat cl \<notin> members b \<Longrightarrow> clear b cl = None"
begin

lemma clear_if_member:
  assumes "unat cl < cap b"
  shows "\<exists>b'. do { h \<leftarrow> get b cl; if h then clear b cl else Some b } = Some b'
    \<and> members b' = members b - {unat cl} \<and> cap b' = cap b"
proof (cases "unat cl \<in> members b")
  case True
  from clear_member [OF this] True show ?thesis by (simp add: get_member [OF assms])
next
  case False
  then show ?thesis by (simp add: get_member [OF assms])
qed

lemma clear_then_get:
  assumes "unat cl \<in> members b" "unat d < cap b"
  shows "do { b' \<leftarrow> clear b cl; get b' d } = Some (d \<noteq> cl \<and> unat d \<in> members b)"
proof -
  obtain b' where "clear b cl = Some b'" "members b' = members b - {unat cl}" "cap b' = cap b"
    using clear_member [OF assms(1)] by blast
  with assms(2) show ?thesis by (simp add: get_member word_unat_eq_iff [of d cl] conj_commute)
qed

lemma clear_twice_fails:
  assumes "unat cl \<in> members b" "unat cl < cap b"
  shows "do { b' \<leftarrow> clear b cl; clear b' cl } = None"
proof -
  obtain b' where "clear b cl = Some b'" "members b' = members b - {unat cl}" "cap b' = cap b"
    using clear_member [OF assms(1)] by blast
  with assms(2) show ?thesis by (simp add: clear_nonmember)
qed

end

interpretation bm: head_map bitmap_get bitmap_clear bm_cap heads
proof unfold_locales
  show "unat cl < bm_cap b \<Longrightarrow> bitmap_get b cl = Some (unat cl \<in> heads b)" for cl b
    by (rule bitmap_get_heads)
  show "\<exists>b'. bitmap_clear b cl = Some b' \<and> heads b' = heads b - {unat cl} \<and> bm_cap b' = bm_cap b"
    if "unat cl \<in> heads b" for cl b
    using that by (rule bitmap_clear_heads) blast
  show "unat cl < bm_cap b \<Longrightarrow> unat cl \<notin> heads b \<Longrightarrow> bitmap_clear b cl = None" for cl b
    by (rule bitmap_clear_notin)
qed

section \<open>Construction, counting and range tests\<close>

lemma unat_roundup2_64:
  assumes "unat x < 2 ^ 32"
  shows "unat (roundup2 x 64) = 64 * ((unat x + 63) div 64)"
proof -
  have m: "(64 - 1 :: u64) = mask 6" by (simp add: mask_eq_exp_minus_1)
  have "roundup2 x 64 = push_bit 6 (drop_bit 6 (x + mask 6))"
    unfolding roundup2_def m by (rule bit_word_eqI) (auto simp: bit_simps)
  then have "roundup2 x 64 = push_bit 6 (drop_bit 6 (x + 63))"
    by (simp add: mask_eq_exp_minus_1)
  moreover have "unat (x + 63) = unat x + 63"
    using assms by (simp add: unat_word_ariths)
  ultimately show ?thesis
    using assms by (simp add: push_bit_eq_mult drop_bit_eq_div unat_word_ariths unat_div_distrib
        mult.commute)
qed

lemma bitmap_ctor_heads:
  assumes "bitmap_ctor bits True s = ((FSOK, lb), s')" and "unat bits < 2 ^ 32"
  shows "heads lb = {..<bm_cap lb}" and "bm_inv (unat bits) lb"
    and "bm_cap lb = 64 * ((unat bits + 63) div 64)"
proof -
  let ?k = "(unat bits + 63) div 64"
  have sz: "unat (roundup2 bits 64 div 8) div 8 = ?k"
    using unat_roundup2_64 [OF assms(2)] by (simp add: unat_div_distrib)
  have lb: "lb = \<lparr>bmap = replicate ?k (-1), bcount = bits\<rparr>"
    using assms(1) sz
    by (auto simp: bitmap_ctor_def malloc_def Let_def split: prod.splits if_splits)
  show cap: "bm_cap lb = 64 * ?k" by (simp add: lb bm_cap_def)
  show h: "heads lb = {..<bm_cap lb}"
    by (auto simp: heads_def lb bm_cap_def less_mult_imp_div_less mult.commute)
  have le: "unat bits \<le> bm_cap lb" unfolding cap by linarith
  then have "{..<unat bits} \<subseteq> heads lb" unfolding h by (simp only: lessThan_subset_iff)
  then have "heads lb \<inter> {..<unat bits} = {..<unat bits}" by (rule Int_absorb1)
  moreover have "bcount lb = bits" by (simp add: lb)
  ultimately show "bm_inv (unat bits) lb"
    using assms(2) le unfolding bm_inv_def by simp
qed

lemma bm_inv_clear:
  assumes inv: "bm_inv n lb" and mem: "unat cl \<in> heads lb" and lt: "unat cl < n"
    and clear: "bitmap_clear lb cl = Some lb'"
  shows "bm_inv n lb'"
proof -
  obtain l where "bitmap_clear lb cl = Some l" and h: "heads l = heads lb - {unat cl}"
    and c: "bm_cap l = bm_cap lb" and b: "bcount l = bcount lb - 1"
    using bitmap_clear_heads [OF mem] .
  with clear have l: "l = lb'" by simp
  let ?A = "heads lb \<inter> {..<n}"
  have x: "unat cl \<in> ?A" using mem lt by simp
  then have pos: "0 < card ?A" by (metis card_gt_0_iff empty_iff finite_Int finite_lessThan)
  have "heads l \<inter> {..<n} = ?A - {unat cl}" using h by auto
  then have "card (heads l \<inter> {..<n}) = card ?A - 1" using x by simp
  moreover have "bcount lb \<noteq> 0" using inv pos by (auto simp: bm_inv_def)
  then have "unat (bcount l) = unat (bcount lb) - 1" by (simp add: b unat_minus_one)
  ultimately show ?thesis using inv c by (simp add: bm_inv_def l)
qed

text \<open>
  C20: the head bitmap is a set with a cardinality. Over a map that was constructed for
  \<open>n\<close> clusters, clearing a set bit removes exactly that cluster and keeps the count equal to the
  number of remaining heads, clearing a clear bit aborts, and reading a bit below the capacity
  never fails.
\<close>

theorem bitmap_clear_correct:
  assumes "bm_inv n lb" and "unat cl < n"
  shows "bitmap_get lb cl = Some (unat cl \<in> heads lb) \<and>
    (unat cl \<notin> heads lb \<longrightarrow> bitmap_clear lb cl = None) \<and>
    (unat cl \<in> heads lb \<longrightarrow> (\<exists>lb'. bitmap_clear lb cl = Some lb' \<and>
       heads lb' = heads lb - {unat cl} \<and> bm_inv n lb' \<and>
       unat (bitmap_count lb') = card (heads lb' \<inter> {..<n})))"
proof -
  have cap: "unat cl < bm_cap lb" using assms by (simp add: bm_inv_def)
  have "\<exists>lb'. bitmap_clear lb cl = Some lb' \<and> heads lb' = heads lb - {unat cl} \<and> bm_inv n lb'"
    if "unat cl \<in> heads lb"
    using bm.clear_member [OF that] bm_inv_clear [OF assms(1) that assms(2)] by blast
  then show ?thesis
    using bitmap_get_heads [OF cap] bitmap_clear_notin [OF cap]
    by (auto simp: bitmap_count_def bm_inv_def)
qed

theorem bitmap_clear_correct_witness:
  "\<exists>lb s'. bitmap_ctor 49 True (sample_env \<lparr>blen = 0, bdat = \<lambda>_. 0\<rparr>) = ((FSOK, lb), s') \<and>
     bitmap_get lb 7 = Some (7 \<in> heads lb) \<and> 7 \<in> heads lb"
proof -
  have "\<exists>lb s'. bitmap_ctor 49 True (sample_env \<lparr>blen = 0, bdat = \<lambda>_. 0\<rparr>) = ((FSOK, lb), s')"
    by (simp add: bitmap_ctor_def Let_def malloc_def sample_env_def pop_fault_def)
  then obtain lb s' where c: "bitmap_ctor 49 True (sample_env \<lparr>blen = 0, bdat = \<lambda>_. 0\<rparr>) = ((FSOK, lb), s')"
    by blast
  note h = bitmap_ctor_heads [OF c]
  have "bm_inv 49 lb" "7 \<in> heads lb" using h by simp_all
  with bitmap_clear_correct [of 49 lb 7] c show ?thesis by auto
qed

lemma bitmap_none_in_range_heads:
  assumes "bitmap_none_in_range lb cl = Some True" and "c div 64 = unat cl div 64"
  shows "c \<notin> heads lb"
  using assms by (auto simp: bitmap_none_in_range_def bm_word_def heads_def Option.bind_eq_Some_conv
      split: if_splits)

lemma bm_inv_count_zero:
  assumes "bm_inv n lb" and "bcount lb = 0"
  shows "heads lb \<inter> {..<n} = {}"
  using assms by (simp add: bm_inv_def)

end
