(* ===== verification/Fsck_Fat.thy ===== *)
theory Fsck_Fat
  imports Fsck_Bitmap
begin

text \<open>
  The FAT descriptor of fat.c and its accessors: the 12-, 16- and 32-bit encodings over a table
  in memory, the LRU cache for large FAT32 tables, and the checked entry points
  \<open>fat_get_cl_next\<close> and \<open>fat_set_cl_next\<close>.

  The state \<open>fsck\<close> extends the environment by the boot block and the descriptor. The function
  pointers \<^verbatim>\<open>get\<close> and \<^verbatim>\<open>set\<close> of the descriptor become the field \<open>accessor\<close>. A table that
  is mapped with \<^verbatim>\<open>mmap(MAP_SHARED)\<close> is the device itself from \<open>mmap_off\<close> on; otherwise it
  is the heap block \<open>fatbuf\<close>. The \<^verbatim>\<open>TAILQ\<close> of cache entries is a list, most recently used
  first; \<open>chunk\<close> is the offset in \<open>fatbuf\<close> that the C field points to. An entry leaves the list
  while it is being replaced and comes back only when the I/O succeeds, as in the code.
\<close>

record fat32_cache_entry =
  chunk :: nat
  addr :: nat
  dirty :: bool

datatype accessors = No_accessor | Fat12 | Fat16 | Fat32 | Fat32_cached

record fat_descriptor =
  fatbuf :: buf
  accessor :: accessors
  headbitmap :: long_bitmap
  is_mmapped :: bool
  mmap_off :: nat
  use_cache :: bool
  fatsize :: nat
  fat32_cache_head :: "fat32_cache_entry list"
  fat32_offset :: nat
  fat32_lastaddr :: nat

record fsck = env +
  boot :: bootblock
  fat :: fat_descriptor

definition fat32_cache_chunk_size :: nat where "fat32_cache_chunk_size = 131072"
definition fat32_cache_size :: nat where "fat32_cache_size = 4194304"
definition fat32_cache_entries :: nat where "fat32_cache_entries = 32"

text \<open>Bytes of the table in memory.\<close>

definition fat_ld :: "'a fsck_scheme \<Rightarrow> nat \<Rightarrow> byte option" where
  "fat_ld s i =
    (if is_mmapped (fat s) then
       (if i < fatsize (fat s) \<and> mmap_off (fat s) + i < blen (dev s)
        then Some (bdat (dev s) (mmap_off (fat s) + i)) else None)
     else ld (fatbuf (fat s)) i)"

definition fat_st :: "nat \<Rightarrow> byte \<Rightarrow> 'a fsck_scheme \<Rightarrow> 'a fsck_scheme option" where
  "fat_st i v s =
    (if is_mmapped (fat s) then
       (if i < fatsize (fat s) \<and> mmap_off (fat s) + i < blen (dev s) \<and> \<not> rdonly s
        then Some (s\<lparr>dev := (dev s)\<lparr>bdat := (bdat (dev s))(mmap_off (fat s) + i := v)\<rparr>\<rparr>)
        else None)
     else map_option (\<lambda>b. s\<lparr>fat := (fat s)\<lparr>fatbuf := b\<rparr>\<rparr>) (st i v (fatbuf (fat s))))"

section \<open>Head bitmap of the descriptor\<close>

definition fat_clear_cl_head :: "cl_t \<Rightarrow> 'a fsck_scheme \<Rightarrow> 'a fsck_scheme option" where
  "fat_clear_cl_head cl s = do {
     lb \<leftarrow> bitmap_clear (headbitmap (fat s)) cl;
     Some (s\<lparr>fat := (fat s)\<lparr>headbitmap := lb\<rparr>\<rparr>) }"

definition fat_is_cl_head :: "cl_t \<Rightarrow> 'a fsck_scheme \<Rightarrow> bool option" where
  "fat_is_cl_head cl s = bitmap_get (headbitmap (fat s)) cl"

definition fat_is_cl_head_in_range :: "cl_t \<Rightarrow> 'a fsck_scheme \<Rightarrow> bool option" where
  "fat_is_cl_head_in_range cl s =
     map_option Not (bitmap_none_in_range (headbitmap (fat s)) cl)"

definition fat_get_head_count :: "'a fsck_scheme \<Rightarrow> u64" where
  "fat_get_head_count s = bitmap_count (headbitmap (fat s))"

section \<open>FAT12\<close>

definition fat_get_fat12_ptr :: "cl_t \<Rightarrow> nat" where
  "fat_get_fat12_ptr cl = unat (cl + drop_bit 1 cl)"

definition fat_get_fat12_next :: "cl_t \<Rightarrow> 'a fsck_scheme \<Rightarrow> cl_t option" where
  "fat_get_fat12_next cl s = do {
     v \<leftarrow> le16dec (fat_ld s) (fat_get_fat12_ptr cl);
     let retval = ucast v :: cl_t;
         retval = (if cl AND 1 = 1 then drop_bit 4 retval else retval);
         retval = retval AND CLUST12_MASK
     in Some (if retval \<ge> (CLUST_BAD AND CLUST12_MASK) then retval OR NOT CLUST12_MASK else retval) }"

definition fat_set_fat12_next :: "cl_t \<Rightarrow> cl_t \<Rightarrow> 'a fsck_scheme \<Rightarrow> (cint \<times> 'a fsck_scheme) option" where
  "fat_set_fat12_next cl nextcl s =
    (let nextcl = nextcl AND CLUST12_MASK;
         p = fat_get_fat12_ptr cl
     in do {
       nextcl \<leftarrow> (if cl AND 1 = 0
                  then do { p1 \<leftarrow> fat_ld s (p + 1); Some (nextcl OR push_bit 8 (ucast (p1 AND 0xf0))) }
                  else do { p0 \<leftarrow> fat_ld s p; Some (push_bit 4 nextcl OR ucast (p0 AND 0x0f)) });
       s \<leftarrow> le16enc fat_st p (ucast nextcl) s;
       Some (0, s) })"

section \<open>FAT16\<close>

definition fat_get_fat16_ptr :: "cl_t \<Rightarrow> nat" where
  "fat_get_fat16_ptr cl = unat (push_bit 1 cl)"

definition fat_get_fat16_next :: "cl_t \<Rightarrow> 'a fsck_scheme \<Rightarrow> cl_t option" where
  "fat_get_fat16_next cl s = do {
     v \<leftarrow> le16dec (fat_ld s) (fat_get_fat16_ptr cl);
     let retval = ucast v AND CLUST16_MASK
     in Some (if retval \<ge> (CLUST_BAD AND CLUST16_MASK) then retval OR NOT CLUST16_MASK else retval) }"

definition fat_set_fat16_next :: "cl_t \<Rightarrow> cl_t \<Rightarrow> 'a fsck_scheme \<Rightarrow> (cint \<times> 'a fsck_scheme) option" where
  "fat_set_fat16_next cl nextcl s =
    (let nextcl = nextcl AND CLUST16_MASK
     in do { s \<leftarrow> le16enc fat_st (fat_get_fat16_ptr cl) (ucast nextcl) s; Some (0, s) })"

section \<open>FAT32\<close>

definition fat_get_fat32_ptr :: "cl_t \<Rightarrow> nat" where
  "fat_get_fat32_ptr cl = unat (push_bit 2 cl)"

definition fat_get_fat32_next :: "cl_t \<Rightarrow> 'a fsck_scheme \<Rightarrow> cl_t option" where
  "fat_get_fat32_next cl s = do {
     v \<leftarrow> le32dec (fat_ld s) (fat_get_fat32_ptr cl);
     let retval = v AND CLUST32_MASK
     in Some (if retval \<ge> (CLUST_BAD AND CLUST32_MASK) then retval OR NOT CLUST32_MASK else retval) }"

definition fat_set_fat32_next :: "cl_t \<Rightarrow> cl_t \<Rightarrow> 'a fsck_scheme \<Rightarrow> (cint \<times> 'a fsck_scheme) option" where
  "fat_set_fat32_next cl nextcl s =
    (let nextcl = nextcl AND CLUST32_MASK
     in do { s \<leftarrow> le32enc fat_st (fat_get_fat32_ptr cl) nextcl s; Some (0, s) })"

section \<open>The FAT32 cache\<close>

definition fat_get_iosize :: "fat_descriptor \<Rightarrow> nat \<Rightarrow> nat" where
  "fat_get_iosize f address =
    (if address = fat32_lastaddr f then fatsize f AND (fat32_cache_chunk_size - 1)
     else fat32_cache_chunk_size)"

definition fat_flush_fat32_cache_entry ::
  "fat32_cache_entry \<Rightarrow> 'a fsck_scheme \<Rightarrow> ((cint \<times> fat32_cache_entry) \<times> 'a fsck_scheme) option" where
  "fat_flush_fat32_cache_entry entry s =
    (if \<not> dirty entry then Some ((FSOK, entry), s)
     else do {
       (ok, s) \<leftarrow> seek_write (fat32_offset (fat s) + addr entry) (fat_get_iosize (fat s) (addr entry))
                    (chunk entry) (fatbuf (fat s)) s;
       if \<not> ok then Some ((FSFATAL, entry), s)
       else Some ((FSOK, entry\<lparr>dirty := False\<rparr>), s) })"

text \<open>\<^verbatim>\<open>addr & ~(fat32_cache_chunk_size - 1)\<close> on the 64-bit offset.\<close>

definition chunk_base :: "nat \<Rightarrow> nat" where
  "chunk_base a = unat ((of_nat a :: u64) AND NOT (of_nat (fat32_cache_chunk_size - 1)))"

definition set_cache :: "fat32_cache_entry list \<Rightarrow> 'a fsck_scheme \<Rightarrow> 'a fsck_scheme" where
  "set_cache es s = s\<lparr>fat := (fat s)\<lparr>fat32_cache_head := es\<rparr>\<rparr>"

text \<open>
  \<open>fat_get_fat32_cache_entry\<close> returns the entry (\<open>None\<close> is the null pointer). The lookup takes
  the first entry whose address matches; \<^verbatim>\<open>TAILQ_LAST\<close> of an empty list is a null pointer that
  the code goes on to dereference.
\<close>

definition fat_get_fat32_cache_entry ::
  "nat \<Rightarrow> bool \<Rightarrow> 'a fsck_scheme \<Rightarrow> (fat32_cache_entry option \<times> 'a fsck_scheme) option" where
  "fat_get_fat32_cache_entry a writing s =
    (let a = chunk_base a; es = fat32_cache_head (fat s)
     in case List.extract (\<lambda>e. addr e = a) es of
       Some (front, e, back) \<Rightarrow>
         (let e = (if writing then e\<lparr>dirty := True\<rparr> else e)
          in Some (Some e, set_cache (e # front @ back) s))
     | None \<Rightarrow>
         if es = [] then None
         else do {
           let s = set_cache (butlast es) s;
           ((ret, entry), s) \<leftarrow> fat_flush_fat32_cache_entry (last es) s;
           if ret \<noteq> FSOK then Some (None, s)
           else do {
             let entry = entry\<lparr>addr := a\<rparr>;
             ((ok, b), s) \<leftarrow> seek_read (fat32_offset (fat s) + a) (fat_get_iosize (fat s) a)
                               (chunk entry) (fatbuf (fat s)) s;
             let s = s\<lparr>fat := (fat s)\<lparr>fatbuf := b\<rparr>\<rparr>;
             if \<not> ok then Some (None, s)
             else (let entry = (if writing then entry\<lparr>dirty := True\<rparr> else entry)
                   in Some (Some entry, set_cache (entry # fat32_cache_head (fat s)) s)) } })"

text \<open>\<open>fat_get_fat32_cached_ptr\<close> is the offset in \<open>fatbuf\<close>, or \<open>None\<close> for the null pointer.\<close>

definition fat_get_fat32_cached_ptr ::
  "cl_t \<Rightarrow> bool \<Rightarrow> 'a fsck_scheme \<Rightarrow> (nat option \<times> 'a fsck_scheme) option" where
  "fat_get_fat32_cached_ptr cl writing s =
    (let a = unat (push_bit 2 cl)
     in do {
       (e, s) \<leftarrow> fat_get_fat32_cache_entry a writing s;
       Some (map_option (\<lambda>e. chunk e + (a AND (fat32_cache_chunk_size - 1))) e, s) })"

definition fat_get_fat32_cached_next ::
  "cl_t \<Rightarrow> 'a fsck_scheme \<Rightarrow> (cl_t \<times> 'a fsck_scheme) option" where
  "fat_get_fat32_cached_next cl s = do {
     (p, s) \<leftarrow> fat_get_fat32_cached_ptr cl False s;
     case p of
       None \<Rightarrow> Some (CLUST_DEAD, s)
     | Some p \<Rightarrow> do {
         v \<leftarrow> le32dec (ld (fatbuf (fat s))) p;
         let retval = v AND CLUST32_MASK
         in Some (if retval \<ge> (CLUST_BAD AND CLUST32_MASK) then retval OR NOT CLUST32_MASK else retval, s) } }"

definition fat_set_fat32_cached_next ::
  "cl_t \<Rightarrow> cl_t \<Rightarrow> 'a fsck_scheme \<Rightarrow> (cint \<times> 'a fsck_scheme) option" where
  "fat_set_fat32_cached_next cl nextcl s =
    (let nextcl = nextcl AND CLUST32_MASK
     in do {
       (p, s) \<leftarrow> fat_get_fat32_cached_ptr cl True s;
       case p of
         None \<Rightarrow> Some (FSFATAL, s)
       | Some p \<Rightarrow> do {
           b \<leftarrow> le32enc st p nextcl (fatbuf (fat s));
           Some (FSOK, s\<lparr>fat := (fat s)\<lparr>fatbuf := b\<rparr>\<rparr>) } })"

section \<open>Checked access\<close>

definition valid_cl :: "'a fsck_scheme \<Rightarrow> cl_t \<Rightarrow> bool" where
  "valid_cl s cl \<longleftrightarrow> cl \<ge> CLUST_FIRST \<and> cl < NumClusters (boot s)"

definition fat_is_valid_cl :: "'a fsck_scheme \<Rightarrow> cl_t \<Rightarrow> bool" where
  "fat_is_valid_cl s cl = valid_cl s cl"

definition fat_get :: "cl_t \<Rightarrow> 'a fsck_scheme \<Rightarrow> (cl_t \<times> 'a fsck_scheme) option" where
  "fat_get cl s =
    (case accessor (fat s) of
       No_accessor \<Rightarrow> None
     | Fat12 \<Rightarrow> do { v \<leftarrow> fat_get_fat12_next cl s; Some (v, s) }
     | Fat16 \<Rightarrow> do { v \<leftarrow> fat_get_fat16_next cl s; Some (v, s) }
     | Fat32 \<Rightarrow> do { v \<leftarrow> fat_get_fat32_next cl s; Some (v, s) }
     | Fat32_cached \<Rightarrow> fat_get_fat32_cached_next cl s)"

definition fat_set :: "cl_t \<Rightarrow> cl_t \<Rightarrow> 'a fsck_scheme \<Rightarrow> (cint \<times> 'a fsck_scheme) option" where
  "fat_set cl nextcl s =
    (case accessor (fat s) of
       No_accessor \<Rightarrow> None
     | Fat12 \<Rightarrow> fat_set_fat12_next cl nextcl s
     | Fat16 \<Rightarrow> fat_set_fat16_next cl nextcl s
     | Fat32 \<Rightarrow> fat_set_fat32_next cl nextcl s
     | Fat32_cached \<Rightarrow> fat_set_fat32_cached_next cl nextcl s)"

definition fat_get_cl_next :: "cl_t \<Rightarrow> 'a fsck_scheme \<Rightarrow> (cl_t \<times> 'a fsck_scheme) option" where
  "fat_get_cl_next cl s = (if \<not> valid_cl s cl then Some (CLUST_DEAD, s) else fat_get cl s)"

definition fat_set_cl_next :: "cl_t \<Rightarrow> cl_t \<Rightarrow> 'a fsck_scheme \<Rightarrow> (cint \<times> 'a fsck_scheme) option" where
  "fat_set_cl_next cl nextcl s =
    (if rdonly s then Some (FSFATAL, s)
     else if \<not> valid_cl s cl then Some (FSFATAL, s)
     else fat_set cl nextcl s)"

end
