(* ===== verification/Fsck_FatLaws.thy ===== *)
theory Fsck_FatLaws
  imports Fsck_Fat
begin

text \<open>
  The laws of the three in-memory encodings. An entry that was set reads back as the value
  truncated to the entry width, with the reserved values widened to 32 bits
  (\<open>norm_entry\<close>); every other entry reads as before. For FAT12 two entries share a byte, so
  the proof is about the nibbles: \<open>pack_even\<close> and \<open>pack_odd\<close> are the 16-bit words the two
  branches of \<^verbatim>\<open>fat_set_fat12_next\<close> store. The locale \<open>fat_accessor\<close> states the contract,
  and each encoding is an interpretation of it.
\<close>

interpretation fat_mem: byte_store fat_ld fat_st
  by unfold_locales (auto simp: fat_ld_def fat_st_def ld_def st_eq_Some split: if_splits)

definition norm_entry :: "cl_t \<Rightarrow> cl_t \<Rightarrow> cl_t" where
  "norm_entry m v = (let r = v AND m in if r \<ge> (CLUST_BAD AND m) then r OR NOT m else r)"

lemma norm_entry_cong: "v AND m = v' AND m \<Longrightarrow> norm_entry m v = norm_entry m v'"
  by (simp add: norm_entry_def)

lemma fff_mask: "(0xfff :: 'a::len word) = mask 12" "(0xf :: 'a::len word) = mask 4"
    "(0xffff :: 'a::len word) = mask 16" "(0xfffffff :: 'a::len word) = mask 28"
  by (simp_all add: mask_eq_exp_minus_1)

lemma f0_mask: "(0xf0 :: 8 word) = push_bit 4 (mask 4)"
  by (simp add: mask_eq_exp_minus_1 push_bit_eq_mult)

definition w16 :: "byte \<Rightarrow> byte \<Rightarrow> u16" where
  "w16 p0 p1 = push_bit 8 (ucast p1) OR ucast p0"

lemma bit_byte_bound: "bit (x :: byte) n \<Longrightarrow> n < 8"
  using bit_imp_le_length [of x n] by simp

lemma bit_w16: "bit (w16 p0 p1) n \<longleftrightarrow> n < 8 \<and> bit p0 n \<or> 8 \<le> n \<and> bit p1 (n - 8)"
  by (auto simp: w16_def bit_simps dest: bit_byte_bound)

definition pack_even :: "cl_t \<Rightarrow> byte \<Rightarrow> u16" where
  "pack_even v p1 = ucast ((v AND 0xfff) OR push_bit 8 (ucast (p1 AND 0xf0)) :: cl_t)"

definition pack_odd :: "cl_t \<Rightarrow> byte \<Rightarrow> u16" where
  "pack_odd v p0 = ucast (push_bit 4 (v AND 0xfff) OR ucast (p0 AND 0x0f) :: cl_t)"

lemma bit_pack_even: "bit (pack_even v p1) n \<longleftrightarrow> n < 12 \<and> bit v n \<or> 12 \<le> n \<and> n < 16 \<and> bit p1 (n - 8)"
  unfolding pack_even_def fff_mask f0_mask
  by (cases "n < 12") (auto simp: bit_simps dest: bit_byte_bound)

lemma bit_pack_odd: "bit (pack_odd v p0) n \<longleftrightarrow> n < 4 \<and> bit p0 n \<or> 4 \<le> n \<and> n < 16 \<and> bit v (n - 4)"
  unfolding pack_odd_def fff_mask
  by (cases "n < 4") (auto simp: bit_simps dest: bit_byte_bound)

definition lo8 :: "u16 \<Rightarrow> byte" where "lo8 u = ucast (u AND 0xff)"
definition hi8 :: "u16 \<Rightarrow> byte" where "hi8 u = ucast (drop_bit 8 u AND 0xff)"

lemma bit_lo8: "bit (lo8 u) n \<longleftrightarrow> n < 8 \<and> bit u n"
  unfolding lo8_def ff_mask by (auto simp: bit_simps)

lemma bit_hi8: "bit (hi8 u) n \<longleftrightarrow> n < 8 \<and> bit u (n + 8)"
  unfolding hi8_def ff_mask by (auto simp: bit_simps add.commute)

lemma even_own: "(ucast (pack_even v p1) :: cl_t) AND 0xfff = v AND 0xfff"
  unfolding fff_mask by (rule bit_word_eqI) (auto simp: bit_simps bit_pack_even)

lemma even_keeps_odd:
  "drop_bit 4 (ucast (w16 (hi8 (pack_even v p1)) q1)) AND 0xfff = drop_bit 4 (ucast (w16 p1 q1)) AND (0xfff :: cl_t)"
  unfolding fff_mask
  by (rule bit_word_eqI) (auto simp: bit_simps bit_w16 bit_hi8 bit_pack_even)

lemma odd_own: "drop_bit 4 (ucast (pack_odd v p0)) AND 0xfff = v AND (0xfff :: cl_t)"
  unfolding fff_mask by (rule bit_word_eqI) (auto simp: bit_simps bit_pack_odd)

lemma odd_keeps_even:
  "ucast (w16 e0 (lo8 (pack_odd v p0))) AND 0xfff = ucast (w16 e0 p0) AND (0xfff :: cl_t)"
  unfolding fff_mask
  by (rule bit_word_eqI) (auto simp: bit_simps bit_w16 bit_lo8 bit_pack_odd)



lemma cl_parity: "(cl :: cl_t) AND 1 = 1 \<longleftrightarrow> odd (unat cl)" "cl AND 1 = 0 \<longleftrightarrow> even (unat cl)"
proof -
  have "cl AND 1 = of_bool (odd cl)" by (simp add: and_one_eq mod_2_eq_odd)
  moreover have "odd cl \<longleftrightarrow> odd (unat cl)"
    by (metis bit_0 bit_unsigned_iff possible_bit_nat)
  ultimately show "cl AND 1 = 1 \<longleftrightarrow> odd (unat cl)" "cl AND 1 = 0 \<longleftrightarrow> even (unat cl)"
    by simp_all
qed

lemma fat12_ptr: "unat cl < 2 ^ 31 \<Longrightarrow> fat_get_fat12_ptr cl = unat cl + unat cl div 2"
  by (simp add: fat_get_fat12_ptr_def unat_word_ariths drop_bit_Suc unat_div_distrib drop_bit_eq_div)

lemma le16dec_w16: "le16dec rd i = do { p1 \<leftarrow> rd (i + 1); p0 \<leftarrow> rd i; Some (w16 p0 p1) }"
  by (simp add: le16dec_def w16_def)

lemma fat_get_fat12_next_eq:
  "fat_get_fat12_next cl s = do {
     p1 \<leftarrow> fat_ld s (fat_get_fat12_ptr cl + 1);
     p0 \<leftarrow> fat_ld s (fat_get_fat12_ptr cl);
     Some (norm_entry CLUST12_MASK
       (if odd (unat cl) then drop_bit 4 (ucast (w16 p0 p1)) else ucast (w16 p0 p1))) }"
  by (simp add: fat_get_fat12_next_def le16dec_w16 norm_entry_def Let_def cl_parity)

lemma fat_set_fat12_nextE:
  assumes "fat_set_fat12_next cl v s = Some (r, s')"
  obtains p where "r = 0" "even (unat cl)" "fat_ld s (fat_get_fat12_ptr cl + 1) = Some p"
      "le16enc fat_st (fat_get_fat12_ptr cl) (pack_even v p) s = Some s'"
  | p where "r = 0" "odd (unat cl)" "fat_ld s (fat_get_fat12_ptr cl) = Some p"
      "le16enc fat_st (fat_get_fat12_ptr cl) (pack_odd v p) s = Some s'"
  using assms
  by (auto simp: fat_set_fat12_next_def Let_def Option.bind_eq_Some_conv cl_parity
      pack_even_def pack_odd_def split: if_splits)


lemma w16_lo_hi: "w16 (lo8 u) (hi8 u) = u"
  by (rule bit_word_eqI) (auto simp: bit_w16 bit_lo8 bit_hi8)

lemma le16enc_w16:
  assumes "le16enc fat_st i u s = Some s'"
  shows "fat_ld s' i = Some (lo8 u)" "fat_ld s' (i + 1) = Some (hi8 u)" "fat_ld s' (Suc i) = Some (hi8 u)"
  using fat_mem.le16enc_bytes [OF assms] by (simp_all add: lo8_def hi8_def)

lemma fat12_same:
  assumes "fat_set_fat12_next cl v s = Some (r, s')"
  shows "fat_get_fat12_next cl s' = Some (norm_entry CLUST12_MASK v)"
  using assms
proof (cases rule: fat_set_fat12_nextE)
  case (1 p)
  then show ?thesis
    by (simp add: fat_get_fat12_next_eq le16enc_w16 [OF 1(4)] w16_lo_hi norm_entry_cong [OF even_own])
next
  case (2 p)
  then show ?thesis
    by (simp add: fat_get_fat12_next_eq le16enc_w16 [OF 2(4)] w16_lo_hi norm_entry_cong [OF odd_own])
qed

lemma fat12_ptr_cases:
  fixes n m :: nat
  assumes "n \<noteq> m"
  obtains "even n" "m = n + 1" "m + m div 2 = n + n div 2 + 1"
  | "odd n" "n = m + 1" "m + m div 2 + 1 = n + n div 2"
  | "m + m div 2 + 1 < n + n div 2 \<or> n + n div 2 + 1 < m + m div 2"
proof -
  consider "even n" "m = n + 1" | "odd n" "n = m + 1" | "m + 1 < n" | "n + 1 < m" | "even n" "n = m + 1" | "odd n" "m = n + 1"
    using assms by linarith
  then show ?thesis
  proof cases
    case 1
    moreover have "(n + 1) div 2 = n div 2" using 1 by (auto elim: evenE)
    ultimately show ?thesis using that(1) by simp
  next
    case 2
    moreover have "(m + 1) div 2 = m div 2" using 2 by (auto elim!: evenE)
    ultimately show ?thesis using that(2) by simp
  next
    case 3
    then have "m div 2 \<le> n div 2" by (simp add: div_le_mono)
    then show ?thesis using 3 that(3) by linarith
  next
    case 4
    then have "n div 2 \<le> m div 2" by (simp add: div_le_mono)
    then show ?thesis using 4 that(3) by linarith
  next
    case 5
    then have "n div 2 = m div 2 + 1" by (auto elim!: oddE)
    then show ?thesis using 5 that(3) by linarith
  next
    case 6
    then have "m div 2 = n div 2 + 1" by (auto elim!: oddE)
    then show ?thesis using 6 that(3) by linarith
  qed
qed

lemma fat12_other:
  assumes set: "fat_set_fat12_next cl v s = Some (r, s')"
    and "cl' \<noteq> cl" and "unat cl < 2 ^ 31" "unat cl' < 2 ^ 31"
  shows "fat_get_fat12_next cl' s' = fat_get_fat12_next cl' s"
proof -
  let ?p = "fat_get_fat12_ptr cl" and ?q = "fat_get_fat12_ptr cl'"
  have p: "?p = unat cl + unat cl div 2" and q: "?q = unat cl' + unat cl' div 2"
    using assms by (simp_all add: fat12_ptr)
  have ne: "unat cl \<noteq> unat cl'" using assms(2) by (simp add: word_unat_eq_iff)
  from set obtain u where enc: "le16enc fat_st ?p u s = Some s'"
    by (rule fat_set_fat12_nextE)
  note frame = fat_mem.le16enc_other [OF enc]
  show ?thesis
    using ne
  proof (rule fat12_ptr_cases)
    assume c: "even (unat cl)" "unat cl' = unat cl + 1" "unat cl' + unat cl' div 2 = unat cl + unat cl div 2 + 1"
    with set obtain x where x: "fat_ld s (?p + 1) = Some x" "le16enc fat_st ?p (pack_even v x) s = Some s'"
      by (auto elim: fat_set_fat12_nextE)
    have "?q = ?p + 1" using c p q by simp
    moreover have "fat_ld s' (?p + 2) = fat_ld s (?p + 2)" using frame by simp
    ultimately show ?thesis
      using c x(1) le16enc_w16 [OF x(2)]
      by (cases "fat_ld s (Suc (Suc ?p))") (simp_all add: fat_get_fat12_next_eq norm_entry_cong [OF even_keeps_odd])
  next
    assume c: "odd (unat cl)" "unat cl = unat cl' + 1" "unat cl' + unat cl' div 2 + 1 = unat cl + unat cl div 2"
    with set obtain x where x: "fat_ld s ?p = Some x" "le16enc fat_st ?p (pack_odd v x) s = Some s'"
      by (auto elim: fat_set_fat12_nextE)
    have "?q + 1 = ?p" using c p q by simp
    moreover from this have "fat_ld s' ?q = fat_ld s ?q" using frame by simp
    ultimately show ?thesis
      using c x(1) le16enc_w16 [OF x(2)]
      by (cases "fat_ld s ?q") (simp_all add: fat_get_fat12_next_eq norm_entry_cong [OF odd_keeps_even])
  next
    assume "unat cl' + unat cl' div 2 + 1 < unat cl + unat cl div 2 \<or> unat cl + unat cl div 2 + 1 < unat cl' + unat cl' div 2"
    then show ?thesis using frame p q by (auto simp: fat_get_fat12_next_eq)
  qed
qed

lemma fat16_same:
  assumes "fat_set_fat16_next cl v s = Some (r, s')"
  shows "fat_get_fat16_next cl s' = Some (norm_entry CLUST16_MASK v)"
proof -
  have e: "le16enc fat_st (fat_get_fat16_ptr cl) (ucast (v AND CLUST16_MASK)) s = Some s'"
    using assms by (auto simp: fat_set_fat16_next_def Let_def Option.bind_eq_Some_conv)
  have "(ucast (ucast (v AND 0xffff) :: u16) :: cl_t) AND 0xffff = v AND 0xffff"
    unfolding fff_mask by (rule bit_word_eqI) (auto simp: bit_simps)
  then show ?thesis
    by (simp add: fat_get_fat16_next_def fat_mem.le16dec_le16enc [OF e] norm_entry_def Let_def)
qed

lemma fat16_other:
  assumes "fat_set_fat16_next cl v s = Some (r, s')"
    and "cl' \<noteq> cl" and "unat cl < 2 ^ 31" "unat cl' < 2 ^ 31"
  shows "fat_get_fat16_next cl' s' = fat_get_fat16_next cl' s"
proof -
  have e: "le16enc fat_st (fat_get_fat16_ptr cl) (ucast (v AND CLUST16_MASK)) s = Some s'"
    using assms by (auto simp: fat_set_fat16_next_def Let_def Option.bind_eq_Some_conv)
  have p: "fat_get_fat16_ptr cl = 2 * unat cl" "fat_get_fat16_ptr cl' = 2 * unat cl'"
    using assms(3,4) by (simp_all add: fat_get_fat16_ptr_def push_bit_eq_mult unat_word_ariths)
  have "unat cl \<noteq> unat cl'" using assms(2) by (simp add: word_unat_eq_iff)
  then have "2 * unat cl' + 1 < 2 * unat cl \<or> 2 * unat cl + 1 < 2 * unat cl'" by linarith
  then show ?thesis
    using fat_mem.le16dec_le16enc_disjoint [OF e] p by (simp add: fat_get_fat16_next_def)
qed

lemma fat32_same:
  assumes "fat_set_fat32_next cl v s = Some (r, s')"
  shows "fat_get_fat32_next cl s' = Some (norm_entry CLUST32_MASK v)"
proof -
  have e: "le32enc fat_st (fat_get_fat32_ptr cl) (v AND CLUST32_MASK) s = Some s'"
    using assms by (auto simp: fat_set_fat32_next_def Let_def Option.bind_eq_Some_conv)
  show ?thesis
    by (simp add: fat_get_fat32_next_def fat_mem.le32dec_le32enc [OF e] norm_entry_def Let_def and.assoc)
qed

lemma fat32_other:
  assumes "fat_set_fat32_next cl v s = Some (r, s')"
    and "cl' \<noteq> cl" and "unat cl < 2 ^ 30" "unat cl' < 2 ^ 30"
  shows "fat_get_fat32_next cl' s' = fat_get_fat32_next cl' s"
proof -
  have e: "le32enc fat_st (fat_get_fat32_ptr cl) (v AND CLUST32_MASK) s = Some s'"
    using assms by (auto simp: fat_set_fat32_next_def Let_def Option.bind_eq_Some_conv)
  have p: "fat_get_fat32_ptr cl = 4 * unat cl" "fat_get_fat32_ptr cl' = 4 * unat cl'"
    using assms(3,4) by (simp_all add: fat_get_fat32_ptr_def push_bit_eq_mult unat_word_ariths)
  have "unat cl \<noteq> unat cl'" using assms(2) by (simp add: word_unat_eq_iff)
  then have "4 * unat cl' + 3 < 4 * unat cl \<or> 4 * unat cl + 3 < 4 * unat cl'" by linarith
  then show ?thesis
    using fat_mem.le32dec_le32enc_disjoint [OF e] p by (simp add: fat_get_fat32_next_def)
qed

section \<open>The contract of an encoding\<close>

locale fat_accessor =
  fixes get :: "cl_t \<Rightarrow> 's \<Rightarrow> cl_t option"
    and set :: "cl_t \<Rightarrow> cl_t \<Rightarrow> 's \<Rightarrow> (cint \<times> 's) option"
    and cmask :: cl_t
    and indexable :: "cl_t \<Rightarrow> bool"
  assumes get_set_same: "set cl v s = Some (r, s') \<Longrightarrow> get cl s' = Some (norm_entry cmask v)"
    and get_set_other: "set cl v s = Some (r, s') \<Longrightarrow> cl' \<noteq> cl \<Longrightarrow> indexable cl \<Longrightarrow> indexable cl' \<Longrightarrow>
      get cl' s' = get cl' s"
begin

lemma get_after_set:
  "set cl v s = Some (r, s') \<Longrightarrow> indexable cl \<Longrightarrow> indexable cl' \<Longrightarrow>
   get cl' s' = (if cl' = cl then Some (norm_entry cmask v) else get cl' s)"
  using get_set_same [of cl v s r s'] get_set_other [of cl v s r s' cl'] by simp

lemma last_set_wins:
  assumes "set cl v s = Some (r, s')" "set cl w s' = Some (q, t)" "indexable cl" "indexable cl'"
  shows "get cl' t = (if cl' = cl then Some (norm_entry cmask w) else get cl' s)"
  using get_after_set [OF assms(2,3,4)] get_after_set [OF assms(1,3,4)] by simp

lemma sets_commute:
  assumes "set a v s = Some (r1, s1)" "set b w s1 = Some (r2, s2)"
    and "set b w s = Some (q1, t1)" "set a v t1 = Some (q2, t2)"
    and "a \<noteq> b" "indexable a" "indexable b" "indexable c"
  shows "get c s2 = get c t2"
  using get_after_set [OF assms(1) \<open>indexable a\<close> \<open>indexable c\<close>]
    get_after_set [OF assms(2) \<open>indexable b\<close> \<open>indexable c\<close>]
    get_after_set [OF assms(3) \<open>indexable b\<close> \<open>indexable c\<close>]
    get_after_set [OF assms(4) \<open>indexable a\<close> \<open>indexable c\<close>] \<open>a \<noteq> b\<close>
  by auto

end

interpretation fat12: fat_accessor fat_get_fat12_next fat_set_fat12_next CLUST12_MASK
    "\<lambda>cl. unat cl < 2 ^ 31"
  by unfold_locales (rule fat12_same, assumption, rule fat12_other, assumption+)

interpretation fat16: fat_accessor fat_get_fat16_next fat_set_fat16_next CLUST16_MASK
    "\<lambda>cl. unat cl < 2 ^ 31"
  by unfold_locales (rule fat16_same, assumption, rule fat16_other, assumption+)

interpretation fat32: fat_accessor fat_get_fat32_next fat_set_fat32_next CLUST32_MASK
    "\<lambda>cl. unat cl < 2 ^ 30"
  by unfold_locales (rule fat32_same, assumption, rule fat32_other, assumption+)

end
