(* ===== verification/Fsck_Cache.thy ===== *)
theory Fsck_Cache
  imports Fsck_FatLaws
begin

text \<open>
  The FAT32 cache refines the table it caches. The table's contents, \<open>cached_byte\<close>, are the
  bytes of a cached chunk where there is one and the bytes of the device elsewhere; under the
  invariant \<open>cache_inv\<close> a lookup, whether it hits or evicts and refills, leaves the contents
  unchanged, a read returns them, and a write changes exactly one entry. The invariant includes
  what \<^verbatim>\<open>fat_get_iosize\<close> needs to transfer whole chunks: that \<^verbatim>\<open>fat32_lastaddr\<close> is not the
  address of a chunk of the table.
\<close>

abbreviation (input) csz :: nat where "csz \<equiv> fat32_cache_chunk_size"

lemma cs_pos [simp]: "0 < csz" by (simp add: fat32_cache_chunk_size_def)

lemma and_chunk_mask: "a AND (csz - 1) = a mod csz"
proof -
  have "csz - 1 = mask 17" "csz = 2 ^ 17" by (simp_all add: fat32_cache_chunk_size_def mask_eq_exp_minus_1)
  then show ?thesis by (simp add: take_bit_eq_mask [symmetric] take_bit_eq_mod)
qed

lemma chunk_base_eq: "a < 2 ^ 64 \<Longrightarrow> chunk_base a = a - a mod csz"
proof -
  assume a: "a < 2 ^ 64"
  have "(of_nat (csz - 1) :: u64) = mask 17"
    by (simp add: fat32_cache_chunk_size_def mask_eq_exp_minus_1)
  moreover have "(of_nat a :: u64) AND NOT (mask 17) = push_bit 17 (drop_bit 17 (of_nat a))"
    by (rule bit_word_eqI) (auto simp: bit_simps)
  ultimately have "chunk_base a = unat (push_bit 17 (drop_bit 17 (of_nat a :: u64)))"
    by (simp add: chunk_base_def)
  also have "unat (of_nat a :: u64) = a" using a by (simp add: unat_of_nat)
  then have "unat (push_bit 17 (drop_bit 17 (of_nat a :: u64))) = (a div 2 ^ 17) * 2 ^ 17"
    using a by (simp add: push_bit_eq_mult drop_bit_eq_div unat_word_ariths unat_div_distrib)
  also have "(a div 2 ^ 17) * 2 ^ 17 = a - a mod csz"
    by (simp add: fat32_cache_chunk_size_def minus_mod_eq_div_mult)
  finally show ?thesis .
qed

definition cache_len :: "'a fsck_scheme \<Rightarrow> nat" where
  "cache_len s = (fatsize (fat s) + csz - 1) div csz * csz"

definition entry_ok :: "'a fsck_scheme \<Rightarrow> fat32_cache_entry \<Rightarrow> bool" where
  "entry_ok s e \<longleftrightarrow> addr e mod csz = 0 \<and> chunk e mod csz = 0 \<and>
     chunk e + csz \<le> blen (fatbuf (fat s)) \<and> addr e + csz \<le> cache_len s \<and>
     (\<not> dirty e \<longrightarrow> (\<forall>i<csz. bdat (fatbuf (fat s)) (chunk e + i)
        = bdat (dev s) (fat32_offset (fat s) + addr e + i)))"

definition cache_inv :: "'a fsck_scheme \<Rightarrow> bool" where
  "cache_inv s \<longleftrightarrow> io_faults s = [] \<and> fat32_cache_head (fat s) \<noteq> [] \<and>
     distinct (map addr (fat32_cache_head (fat s))) \<and>
     distinct (map chunk (fat32_cache_head (fat s))) \<and>
     (\<forall>e \<in> set (fat32_cache_head (fat s)). entry_ok s e) \<and>
     fat32_offset (fat s) + cache_len s \<le> blen (dev s) \<and> cache_len s \<le> 2 ^ 32 \<and>
     (\<forall>a. a mod csz = 0 \<and> a + csz \<le> cache_len s \<longrightarrow> a \<noteq> fat32_lastaddr (fat s))"

text \<open>What the cached table holds at byte \<open>x\<close>: the cached chunk if there is one, else the device.\<close>

definition cached_byte :: "'a fsck_scheme \<Rightarrow> nat \<Rightarrow> byte option" where
  "cached_byte s x =
    (case List.find (\<lambda>e. addr e = x - x mod csz) (fat32_cache_head (fat s)) of
       Some e \<Rightarrow> Some (bdat (fatbuf (fat s)) (chunk e + x mod csz))
     | None \<Rightarrow> Some (bdat (dev s) (fat32_offset (fat s) + x)))"

lemma find_distinct:
  "distinct (map addr es) \<Longrightarrow> e \<in> set es \<Longrightarrow> List.find (\<lambda>e'. addr e' = addr e) es = Some e"
  by (induction es) auto

lemma find_none: "a \<notin> addr ` set es \<Longrightarrow> List.find (\<lambda>e. addr e = a) es = None"
  by (auto simp: find_None_iff)

lemma cached_byte_hit:
  "cache_inv s \<Longrightarrow> e \<in> set (fat32_cache_head (fat s)) \<Longrightarrow> addr e = x - x mod csz \<Longrightarrow>
   cached_byte s x = Some (bdat (fatbuf (fat s)) (chunk e + x mod csz))"
  using find_distinct [of "fat32_cache_head (fat s)" e] by (simp add: cached_byte_def cache_inv_def)

lemma cached_byte_miss:
  "x - x mod csz \<notin> addr ` set (fat32_cache_head (fat s)) \<Longrightarrow>
   cached_byte s x = Some (bdat (dev s) (fat32_offset (fat s) + x))"
  by (simp add: cached_byte_def find_none)

lemma set_cache_simps [simp]:
  "fat32_cache_head (fat (set_cache es s)) = es" "fatbuf (fat (set_cache es s)) = fatbuf (fat s)"
  "dev (set_cache es s) = dev s" "fat32_offset (fat (set_cache es s)) = fat32_offset (fat s)"
  "fatsize (fat (set_cache es s)) = fatsize (fat s)" "fat32_lastaddr (fat (set_cache es s)) = fat32_lastaddr (fat s)"
  "io_faults (set_cache es s) = io_faults s" "cache_len (set_cache es s) = cache_len s"
  "boot (set_cache es s) = boot s" "headbitmap (fat (set_cache es s)) = headbitmap (fat s)"
  "rdonly (set_cache es s) = rdonly s" "accessor (fat (set_cache es s)) = accessor (fat s)"
  "entry_ok (set_cache es s) e = entry_ok s e"
  by (simp_all add: set_cache_def cache_len_def entry_ok_def)

text \<open>A hit: the entry moves to the front, and nothing else changes.\<close>

lemma cache_hit:
  assumes inv: "cache_inv s" and es: "fat32_cache_head (fat s) = front @ e # back"
    and e': "e' = (if w then e\<lparr>dirty := True\<rparr> else e)"
  shows "cache_inv (set_cache (e' # front @ back) s)"
    and "cached_byte (set_cache (e' # front @ back) s) = cached_byte s"
proof -
  let ?t = "set_cache (e' # front @ back) s"
  have same: "addr e' = addr e" "chunk e' = chunk e" by (simp_all add: e')
  have ok: "entry_ok s e'" using inv es by (auto simp: cache_inv_def entry_ok_def e')
  show inv': "cache_inv ?t"
    using inv ok es same by (auto simp: cache_inv_def)
  show "cached_byte ?t = cached_byte s"
  proof
    fix x
    consider (hit) d where "d \<in> set (front @ e # back)" "addr d = x - x mod csz"
      | (miss) "x - x mod csz \<notin> addr ` set (front @ e # back)" by (metis image_iff)
    then show "cached_byte ?t x = cached_byte s x"
    proof cases
      case hit
      define d' where "d' = (if d = e then e' else d)"
      have "d' \<in> set (fat32_cache_head (fat ?t))" "addr d' = x - x mod csz" "chunk d' = chunk d"
        using hit same by (auto simp: d'_def)
      then show ?thesis
        using cached_byte_hit [OF inv'] cached_byte_hit [OF inv] hit es by simp
    next
      case miss
      then show ?thesis using same es by (auto simp: cached_byte_miss image_iff)
    qed
  qed
qed



text \<open>
  A miss: the victim is written back if it is dirty, its chunk is refilled from the device, and
  the table reads the same as before.
\<close>

lemma iosize_full:
  "cache_inv s \<Longrightarrow> a mod csz = 0 \<Longrightarrow> a + csz \<le> cache_len s \<Longrightarrow> fat_get_iosize (fat s) a = csz"
  by (simp add: fat_get_iosize_def cache_inv_def)

lemma iosize_set_cache [simp]: "fat_get_iosize (fat (set_cache es s)) a = fat_get_iosize (fat s) a"
  by (simp add: fat_get_iosize_def)

definition flushed :: "fat32_cache_entry \<Rightarrow> 'a fsck_scheme \<Rightarrow> 'a fsck_scheme" where
  "flushed v s = (if dirty v then s\<lparr>io_faults := [], writes := writes s @ [(fat32_offset (fat s) + addr v, csz)],
     dev := (dev s)\<lparr>bdat := blit (bdat (fatbuf (fat s))) (chunk v) csz (bdat (dev s)) (fat32_offset (fat s) + addr v)\<rparr>,
     pos := fat32_offset (fat s) + addr v + csz\<rparr> else s)"

lemma flush_ok:
  assumes inv: "cache_inv s" and v: "entry_ok s v"
  shows "fat_flush_fat32_cache_entry v (set_cache es s) =
    Some ((FSOK, v\<lparr>dirty := False\<rparr>), flushed v (set_cache es s))"
proof (cases "dirty v")
  case True
  have io: "fat_get_iosize (fat (set_cache es s)) (addr v) = csz"
    using iosize_full [OF inv] v by (simp add: entry_ok_def)
  have "seek_write (fat32_offset (fat s) + addr v) csz (chunk v) (fatbuf (fat s)) (set_cache es s) =
    Some (True, flushed v (set_cache es s))"
    using inv v True by (subst seek_write_nofault) (simp_all add: cache_inv_def entry_ok_def flushed_def)
  then show ?thesis using True io by (simp add: fat_flush_fat32_cache_entry_def)
next
  case False
  then show ?thesis by (cases v) (simp add: fat_flush_fat32_cache_entry_def flushed_def)
qed

lemma flushed_simps [simp]:
  "fat (flushed v s) = fat s" "boot (flushed v s) = boot s" "rdonly (flushed v s) = rdonly s"
  "blen (dev (flushed v s)) = blen (dev s)" "cache_len (flushed v s) = cache_len s"
  "io_faults s = [] \<Longrightarrow> io_faults (flushed v s) = []"
  by (simp_all add: flushed_def cache_len_def)

definition refilled :: "nat \<Rightarrow> bool \<Rightarrow> fat32_cache_entry \<Rightarrow> 'a fsck_scheme \<Rightarrow> 'a fsck_scheme" where
  "refilled a w v s =
    s\<lparr>io_faults := [], pos := fat32_offset (fat s) + a + csz,
      fat := (fat s)\<lparr>fatbuf := (fatbuf (fat s))\<lparr>bdat := blit (bdat (dev s)) (fat32_offset (fat s) + a) csz
                (bdat (fatbuf (fat s))) (chunk v)\<rparr>,
              fat32_cache_head := v\<lparr>addr := a, dirty := w\<rparr> # fat32_cache_head (fat s)\<rparr>\<rparr>"

lemma cache_miss_step:
  assumes inv: "cache_inv s" and a: "a mod csz = 0" "a + csz \<le> cache_len s"
    and none: "\<forall>e \<in> set (fat32_cache_head (fat s)). addr e \<noteq> a"
    and b: "chunk_base x = a"
  shows "fat_get_fat32_cache_entry x w s =
    (let v = last (fat32_cache_head (fat s));
         t = flushed v (set_cache (butlast (fat32_cache_head (fat s))) s)
     in Some (Some (v\<lparr>addr := a, dirty := w\<rparr>), refilled a w v t))"
proof -
  let ?es = "fat32_cache_head (fat s)"
  let ?v = "last ?es" and ?s1 = "set_cache (butlast ?es) s"
  let ?t = "flushed ?v ?s1"
  have ne: "?es \<noteq> []" using inv by (simp add: cache_inv_def)
  then have v: "entry_ok s ?v" using inv by (simp add: cache_inv_def)
  have io: "fat_get_iosize (fat ?t) a = csz"
    using iosize_full [OF inv a] by simp
  have rd: "seek_read (fat32_offset (fat ?t) + a) csz (chunk ?v) (fatbuf (fat ?t)) ?t =
    Some ((True, (fatbuf (fat ?t))\<lparr>bdat := blit (bdat (dev ?t)) (fat32_offset (fat ?t) + a) csz (bdat (fatbuf (fat ?t))) (chunk ?v)\<rparr>),
      ?t\<lparr>io_faults := [], pos := fat32_offset (fat ?t) + a + csz\<rparr>)"
    using inv a v by (subst seek_read_nofault) (simp_all add: cache_inv_def entry_ok_def)
  have ex: "List.extract (\<lambda>e. addr e = a) ?es = None" using none by (simp add: extract_None_iff)
  show ?thesis
    using ne io rd
    by (simp add: fat_get_fat32_cache_entry_def Let_def b ex flush_ok [OF inv v])
      (simp add: refilled_def set_cache_def)
qed


lemma mod_chunk_disjoint:
  assumes "c mod csz = 0" "d mod csz = 0" "c \<noteq> d"
  shows "c + csz \<le> d \<or> d + csz \<le> c"
proof -
  obtain i j where c: "c = csz * i" and d: "d = csz * j"
    using assms(1,2) by (metis mod_0_imp_dvd dvdE)
  with assms(3) have "i < j \<or> j < i" by auto
  then show ?thesis
  proof
    assume "i < j"
    then have "csz * (i + 1) \<le> csz * j" by (intro mult_le_mono2) simp
    then show ?thesis by (simp add: c d)
  next
    assume "j < i"
    then have "csz * (j + 1) \<le> csz * i" by (intro mult_le_mono2) simp
    then show ?thesis by (simp add: c d)
  qed
qed

lemma blit_disjoint:
  "c + n \<le> d \<or> d + n \<le> c \<Longrightarrow> i < n \<Longrightarrow> blit src k n dst c (d + i) = dst (d + i)"
  by (rule blit_out) auto

lemma cache_miss:
  fixes s :: "'a fsck_scheme"
  assumes inv: "cache_inv s" and a: "a mod csz = 0" "a + csz \<le> cache_len s"
    and none: "\<forall>e \<in> set (fat32_cache_head (fat s)). addr e \<noteq> a"
    and v: "v = last (fat32_cache_head (fat s))"
    and u: "u = refilled a w v (flushed v (set_cache (butlast (fat32_cache_head (fat s))) s))"
  shows "cache_inv u" and "cached_byte u = cached_byte s"
proof -
  let ?es = "fat32_cache_head (fat s)" and ?o = "fat32_offset (fat s)"
  let ?fb = "bdat (fatbuf (fat s))" and ?dv = "bdat (dev s)"
  have es: "?es = butlast ?es @ [v]" using inv by (simp add: cache_inv_def v)
  have okv: "entry_ok s v" using inv es by (metis cache_inv_def in_set_conv_decomp)
  have hd: "fat32_cache_head (fat u) = v\<lparr>addr := a, dirty := w\<rparr> # butlast ?es"
    by (simp add: u refilled_def)
  define dv' where "dv' = (if dirty v then blit ?fb (chunk v) csz ?dv (?o + addr v) else ?dv)"
  have dev: "bdat (dev u) = dv'" "blen (dev u) = blen (dev s)"
    by (simp_all add: u refilled_def flushed_def dv'_def)
  define fb' where "fb' = blit dv' (?o + a) csz ?fb (chunk v)"
  have fb: "bdat (fatbuf (fat u)) = fb'" "blen (fatbuf (fat u)) = blen (fatbuf (fat s))"
    by (simp_all add: u refilled_def flushed_def dv'_def fb'_def)
  have oth: "fat32_offset (fat u) = ?o" "cache_len u = cache_len s" "fat32_lastaddr (fat u) = fat32_lastaddr (fat s)"
    "io_faults u = []"
    by (simp_all add: u refilled_def cache_len_def)
  have dist: "addr e \<noteq> addr v" "chunk e \<noteq> chunk v" if "e \<in> set (butlast ?es)" for e
    using inv that es by (auto simp: cache_inv_def) (metis (no_types, lifting) disjoint_iff distinct_append
      image_eqI list.set_intros(1) list.set_map map_append list.simps(9))+
  have dvv: "dv' (?o + addr v + i) = ?fb (chunk v + i)" if "i < csz" for i
    using okv that by (auto simp: dv'_def entry_ok_def ac_simps)
  have dvo: "dv' (?o + b + i) = ?dv (?o + b + i)" if "b mod csz = 0" "b \<noteq> addr v" "i < csz" for b i
  proof -
    have "addr v mod csz = 0" using okv by (simp add: entry_ok_def)
    from mod_chunk_disjoint [OF this that(1)] that
    have "?o + addr v + csz \<le> ?o + b \<or> ?o + b + csz \<le> ?o + addr v" by auto
    then show ?thesis using that(3) by (simp add: dv'_def blit_disjoint)
  qed
  have fbn: "fb' (chunk v + i) = dv' (?o + a + i)" if "i < csz" for i
    using that by (simp add: fb'_def ac_simps)
  have fbo: "fb' (chunk e + i) = ?fb (chunk e + i)" if "e \<in> set (butlast ?es)" "i < csz" for e i
  proof -
    have "entry_ok s e" using inv that(1) by (simp add: cache_inv_def in_set_butlastD)
    then have "chunk v mod csz = 0" "chunk e mod csz = 0" using okv by (simp_all add: entry_ok_def)
    from mod_chunk_disjoint [OF this] dist [OF that(1)]
    have "chunk v + csz \<le> chunk e \<or> chunk e + csz \<le> chunk v" by auto
    then show ?thesis using that(2) by (simp add: fb'_def blit_disjoint)
  qed
  have va: "addr v \<noteq> a" using none es by (metis in_set_conv_decomp)
  have oke: "entry_ok u e" if e: "e \<in> set (butlast ?es)" for e
  proof -
    have "entry_ok s e" using inv e by (simp add: cache_inv_def in_set_butlastD)
    then show ?thesis
      using dvo [of "addr e"] fbo [OF e] dist [OF e] by (simp add: entry_ok_def fb dev oth)
  qed
  have okn: "entry_ok u (v\<lparr>addr := a, dirty := w\<rparr>)"
    using okv a fbn by (simp add: entry_ok_def fb dev oth)
  have "distinct (map addr (butlast ?es))" "distinct (map chunk (butlast ?es))"
    using inv es by (metis cache_inv_def distinct_append map_append)+
  moreover have "a \<notin> addr ` set (butlast ?es)" using none by (auto dest: in_set_butlastD)
  moreover have "chunk v \<notin> chunk ` set (butlast ?es)" using dist(2) by (metis imageE)
  ultimately show inv': "cache_inv u"
    using inv oke okn by (simp add: cache_inv_def hd oth dev)
  show "cached_byte u = cached_byte s"
  proof
    fix x
    let ?b = "x - x mod csz"
    have b0: "?b mod csz = 0" by (simp add: minus_mod_eq_mult_div)
    have bx: "?b + x mod csz = x" by simp
    have lt: "x mod csz < csz" by simp
    consider (new) "?b = a" | (old) "?b = addr v" | (hit) e where "e \<in> set (butlast ?es)" "addr e = ?b"
      | (miss) "?b \<noteq> a" "?b \<noteq> addr v" "?b \<notin> addr ` set (butlast ?es)" by (metis image_iff)
    then show "cached_byte u x = cached_byte s x"
    proof cases
      case new
      have "cached_byte u x = Some (fb' (chunk v + x mod csz))"
        using cached_byte_hit [OF inv', of "v\<lparr>addr := a, dirty := w\<rparr>" x] new by (simp add: hd fb)
      also have "\<dots> = Some (?dv (?o + x))"
        using fbn [OF lt] dvo [OF a(1) _ lt] va new bx by (simp add: add.assoc)
      also have "\<dots> = cached_byte s x" using none new by (subst cached_byte_miss) auto
      finally show ?thesis .
    next
      case old
      have "cached_byte u x = Some (dv' (?o + x))"
      proof -
        have "addr v \<notin> addr ` set (butlast ?es)" using dist(1) by (metis imageE)
        then show ?thesis using old va by (subst cached_byte_miss) (auto simp: hd dev oth)
      qed
      also have "\<dots> = Some (?fb (chunk v + x mod csz))"
        using dvv [OF lt] old bx by (simp add: add.assoc)
      also have "\<dots> = cached_byte s x"
        using cached_byte_hit [OF inv, of v x] old es by (metis in_set_conv_decomp)
      finally show ?thesis .
    next
      case hit
      then show ?thesis
        using cached_byte_hit [OF inv', of e x] cached_byte_hit [OF inv, of e x] fbo [OF hit(1) lt]
        by (simp add: hd fb in_set_butlastD)
    next
      case miss
      have "cached_byte u x = Some (dv' (?o + x))"
        using miss by (subst cached_byte_miss) (auto simp: hd dev oth)
      also have "\<dots> = Some (?dv (?o + x))"
        using dvo [OF b0 miss(2) lt] bx by (simp add: add.assoc)
      also have "\<dots> = cached_byte s x"
        using miss es by (subst cached_byte_miss) (auto simp: image_iff, metis Un_iff list.set(1) list.set(2) set_append singletonD)
      finally show ?thesis .
    qed
  qed
qed

section \<open>Reading and writing entries through the cache\<close>

definition tbl_frame :: "'a fsck_scheme \<Rightarrow> 'a fsck_scheme \<Rightarrow> bool" where
  "tbl_frame s t \<longleftrightarrow> boot t = boot s \<and> headbitmap (fat t) = headbitmap (fat s) \<and>
     accessor (fat t) = accessor (fat s) \<and> fatsize (fat t) = fatsize (fat s) \<and>
     is_mmapped (fat t) = is_mmapped (fat s) \<and> mmap_off (fat t) = mmap_off (fat s) \<and>
     use_cache (fat t) = use_cache (fat s) \<and> blen (fatbuf (fat t)) = blen (fatbuf (fat s)) \<and>
     opts t = opts s \<and> input t = input s \<and> alloc_faults t = alloc_faults s \<and>
     mmap_faults t = mmap_faults s \<and> junk t = junk s \<and>
     blen (dev t) = blen (dev s) \<and> fsck.more t = fsck.more s"

lemma tbl_frame_refl [simp]: "tbl_frame s s" by (simp add: tbl_frame_def)

lemma tbl_frame_trans [trans]: "tbl_frame s t \<Longrightarrow> tbl_frame t u \<Longrightarrow> tbl_frame s u"
  by (simp add: tbl_frame_def)

lemma tbl_frame_set_cache: "tbl_frame s (set_cache es s)"
  by (simp add: tbl_frame_def set_cache_def opts_def)

lemma tbl_frame_flushed: "tbl_frame s (flushed v s)"
  by (simp add: tbl_frame_def flushed_def opts_def)

lemma tbl_frame_refilled: "tbl_frame s (refilled a w v s)"
  by (simp add: tbl_frame_def refilled_def opts_def)

lemma cache_len_multiple: "cache_len s mod csz = 0" "fatsize (fat s) \<le> cache_len s"
proof -
  show "cache_len s mod csz = 0" by (simp add: cache_len_def)
  have "fatsize (fat s) \<le> (fatsize (fat s) + csz - 1) div csz * csz"
    using div_mult_mod_eq [of "fatsize (fat s) + csz - 1" csz] mod_less_divisor [OF cs_pos, of "fatsize (fat s) + csz - 1"] cs_pos by linarith
  then show "fatsize (fat s) \<le> cache_len s" by (simp add: cache_len_def)
qed

lemma base_in_range:
  assumes "x < cache_len s"
  shows "x - x mod csz + csz \<le> cache_len s" "(x - x mod csz) mod csz = 0"
proof -
  show b: "(x - x mod csz) mod csz = 0" by (simp add: minus_mod_eq_mult_div)
  have "x - x mod csz \<noteq> cache_len s" using assms by linarith
  from mod_chunk_disjoint [OF b cache_len_multiple(1) this] assms
  show "x - x mod csz + csz \<le> cache_len s" by linarith
qed

lemma cache_entry_ok:
  assumes inv: "cache_inv s" and x: "x < cache_len s"
  shows "\<exists>e t. fat_get_fat32_cache_entry x w s = Some (Some e, t) \<and> cache_inv t \<and>
    cached_byte t = cached_byte s \<and> e \<in> set (fat32_cache_head (fat t)) \<and> addr e = x - x mod csz \<and>
    (w \<longrightarrow> dirty e) \<and> tbl_frame s t"
proof -
  let ?es = "fat32_cache_head (fat s)" and ?a = "x - x mod csz"
  have "x < 2 ^ 64" using x inv by (simp add: cache_inv_def)
  then have b: "chunk_base x = ?a" by (rule chunk_base_eq)
  note r = base_in_range [OF x]
  show ?thesis
  proof (cases "List.extract (\<lambda>e. addr e = ?a) ?es")
    case None
    then have none: "\<forall>e \<in> set ?es. addr e \<noteq> ?a" by (simp add: extract_None_iff)
    define v where "v = last ?es"
    define u where "u = refilled ?a w v (flushed v (set_cache (butlast ?es) s))"
    have "fat_get_fat32_cache_entry x w s = Some (Some (v\<lparr>addr := ?a, dirty := w\<rparr>), u)"
      using cache_miss_step [OF inv r(2,1) none b] by (simp add: Let_def u_def v_def)
    moreover have "cache_inv u" "cached_byte u = cached_byte s"
      using cache_miss [OF inv r(2,1) none v_def u_def] by auto
    moreover have "v\<lparr>addr := ?a, dirty := w\<rparr> \<in> set (fat32_cache_head (fat u))"
      by (simp add: u_def refilled_def)
    moreover have "tbl_frame s u"
      unfolding u_def
      using tbl_frame_set_cache tbl_frame_flushed tbl_frame_refilled tbl_frame_trans by metis
    ultimately show ?thesis by auto
  next
    case (Some p)
    then obtain front e rest where p: "p = (front, e, rest)" by (cases p) auto
    with Some have es: "?es = front @ e # rest" "addr e = ?a" by (auto simp: extract_Some_iff)
    define e' where "e' = (if w then e\<lparr>dirty := True\<rparr> else e)"
    have "fat_get_fat32_cache_entry x w s = Some (Some e', set_cache (e' # front @ rest) s)"
      using Some p by (simp add: fat_get_fat32_cache_entry_def Let_def b e'_def)
    with cache_hit [OF inv es(1) e'_def] es(2) tbl_frame_set_cache show ?thesis
      by (auto simp: e'_def)
  qed
qed

definition cached_entry :: "'a fsck_scheme \<Rightarrow> cl_t \<Rightarrow> cl_t" where
  "cached_entry s cl = norm_entry CLUST32_MASK (the (le32dec (cached_byte s) (unat (push_bit 2 cl))))"

lemma cached_byte_Some: "\<exists>b. cached_byte s x = Some b"
  by (simp add: cached_byte_def split: option.splits)

lemma aligned_chunk:
  assumes "x mod 4 = 0" "k < 4"
  shows "(x + k) mod csz = x mod csz + k" "x + k - (x + k) mod csz = x - x mod csz" "x mod csz + 4 \<le> csz"
proof -
  have c4: "csz = 4 * 32768" by (simp add: fat32_cache_chunk_size_def)
  have "4 dvd csz" by (simp add: fat32_cache_chunk_size_def)
  then have "(x mod csz) mod 4 = 0" using assms(1) by (simp only: mod_mod_cancel)
  then obtain q where q: "x mod csz = 4 * q" by (metis mod_0_imp_dvd dvdE)
  have "x mod csz < csz" by simp
  with q have "4 * q < csz" by simp
  then have "4 * q < 4 * 32768" unfolding c4 .
  then have "q < 32768" by simp
  then have "4 * q + 4 \<le> csz" unfolding c4 by simp
  with q show le: "x mod csz + 4 \<le> csz" by simp
  with assms(2) have "x mod csz + k < csz" by linarith
  then show m: "(x + k) mod csz = x mod csz + k" by (metis mod_add_left_eq mod_less)
  show "x + k - (x + k) mod csz = x - x mod csz" by (simp add: m)
qed

lemma cached_le32dec:
  assumes inv: "cache_inv t" and e: "e \<in> set (fat32_cache_head (fat t))" "addr e = x - x mod csz"
    and x: "x mod 4 = 0"
  shows "le32dec (ld (fatbuf (fat t))) (chunk e + x mod csz) = le32dec (cached_byte t) x"
proof -
  have ok: "entry_ok t e" using inv e(1) by (simp add: cache_inv_def)
  have b: "ld (fatbuf (fat t)) (chunk e + x mod csz + k) = cached_byte t (x + k)" if "k < 4" for k
    using cached_byte_hit [OF inv e(1), of "x + k"] aligned_chunk [OF x that] e(2) ok that
    by (simp add: ld_def entry_ok_def add.assoc)
  show ?thesis using b [of 0] b [of 1] b [of 2] b [of 3] by (simp add: le32dec_def)
qed

lemma fat32_addr: "unat cl < 2 ^ 30 \<Longrightarrow> unat (push_bit 2 cl) = 4 * unat (cl :: cl_t)"
  by (simp add: push_bit_eq_mult unat_word_ariths)

lemma cached_get_ok:
  assumes inv: "cache_inv s" and cl: "unat cl < 2 ^ 30" "4 * unat cl < cache_len s"
  shows "\<exists>t. fat_get_fat32_cached_next cl s = Some (cached_entry s cl, t) \<and> cache_inv t \<and>
    cached_byte t = cached_byte s \<and> tbl_frame s t"
proof -
  have a: "unat (push_bit 2 cl) = 4 * unat cl" by (rule fat32_addr [OF cl(1)])
  obtain e t where et: "fat_get_fat32_cache_entry (4 * unat cl) False s = Some (Some e, t)"
    "cache_inv t" "cached_byte t = cached_byte s" "e \<in> set (fat32_cache_head (fat t))"
    "addr e = 4 * unat cl - 4 * unat cl mod csz" "tbl_frame s t"
    using cache_entry_ok [OF inv cl(2), of False] by blast
  obtain v where v: "le32dec (cached_byte s) (4 * unat cl) = Some v"
    using cached_byte_Some [of s] by (metis (no_types, lifting) bind.bind_lunit le32dec_def)
  have "fat_get_fat32_cached_ptr cl False s = Some (Some (chunk e + 4 * unat cl mod csz), t)"
    using et(1) and_chunk_mask [of "4 * unat cl"] by (simp add: fat_get_fat32_cached_ptr_def Let_def a)
  moreover have "le32dec (ld (fatbuf (fat t))) (chunk e + 4 * unat cl mod csz) = Some v"
    using cached_le32dec [OF et(2,4,5)] v et(3) by simp
  ultimately have "fat_get_fat32_cached_next cl s = Some (cached_entry s cl, t)"
    by (simp add: fat_get_fat32_cached_next_def Let_def cached_entry_def a v norm_entry_def)
  with et show ?thesis by blast
qed


lemma le32enc_st:
  assumes "i + 4 \<le> blen b"
  shows "\<exists>b'. le32enc st i u b = Some b' \<and> blen b' = blen b"
  using assms by (simp add: le32enc_def st_def)

lemma le32dec_cong:
  assumes "\<And>k. k < 4 \<Longrightarrow> f (i + k) = g (j + k)"
  shows "le32dec f i = le32dec g j"
  using assms [of 0] assms [of 1] assms [of 2] assms [of 3] by (simp add: le32dec_def)

lemma cached_set_ok:
  assumes inv: "cache_inv s" and cl: "unat cl < 2 ^ 30" "4 * unat cl < cache_len s"
  shows "\<exists>t. fat_set_fat32_cached_next cl v s = Some (FSOK, t) \<and> cache_inv t \<and> tbl_frame s t \<and>
    (\<forall>c. unat c < 2 ^ 30 \<longrightarrow> cached_entry t c =
       (if c = cl then norm_entry CLUST32_MASK v else cached_entry s c))"
proof -
  let ?x = "4 * unat cl"
  have a: "unat (push_bit 2 cl) = ?x" by (rule fat32_addr [OF cl(1)])
  obtain e t where et: "fat_get_fat32_cache_entry ?x True s = Some (Some e, t)"
    "cache_inv t" "cached_byte t = cached_byte s" "e \<in> set (fat32_cache_head (fat t))"
    "addr e = ?x - ?x mod csz" "dirty e" "tbl_frame s t"
    using cache_entry_ok [OF inv cl(2), of True] by blast
  have ok: "entry_ok t e" using et(2,4) by (simp add: cache_inv_def)
  let ?p = "chunk e + ?x mod csz" and ?u = "v AND CLUST32_MASK"
  have four: "?x mod 4 = 0" by simp
  have room: "?p + 4 \<le> blen (fatbuf (fat t))"
    using ok aligned_chunk(3) [OF four, of 0] by (simp add: entry_ok_def)
  obtain b where b: "le32enc st ?p ?u (fatbuf (fat t)) = Some b" "blen b = blen (fatbuf (fat t))"
    using le32enc_st [OF room] by blast
  define u where "u = t\<lparr>fat := (fat t)\<lparr>fatbuf := b\<rparr>\<rparr>"
  have ptr: "fat_get_fat32_cached_ptr cl True s = Some (Some ?p, t)"
    using et(1) and_chunk_mask [of ?x] by (simp add: fat_get_fat32_cached_ptr_def Let_def a)
  have run: "fat_set_fat32_cached_next cl v s = Some (FSOK, u)"
    by (simp add: fat_set_fat32_cached_next_def Let_def ptr b(1) u_def)
  have frm: "bdat b j = bdat (fatbuf (fat t)) j" if "j < ?p \<or> ?p + 3 < j" "j < blen b" for j
    using heap_buf.le32enc_other [OF b(1) that(1)] that(2) b(2) by (simp add: ld_def)
  have other: "bdat b (chunk d + i) = bdat (fatbuf (fat t)) (chunk d + i)"
    if d: "d \<in> set (fat32_cache_head (fat t))" "d \<noteq> e" "i < csz" for d i
  proof -
    have okd: "entry_ok t d" using et(2) d(1) by (simp add: cache_inv_def)
    have "chunk d \<noteq> chunk e"
      using et(2,4) d by (auto simp: cache_inv_def distinct_map dest: inj_onD)
    from mod_chunk_disjoint [OF _ _ this] okd ok
    have "chunk d + csz \<le> chunk e \<or> chunk e + csz \<le> chunk d" by (simp add: entry_ok_def)
    then show ?thesis
      using okd d(3) b(2) aligned_chunk(3) [OF four, of 0] by (intro frm) (auto simp: entry_ok_def)
  qed
  have oku: "entry_ok u d" if "d \<in> set (fat32_cache_head (fat t))" for d
    using et(2,6) that other b(2) by (cases "d = e") (auto simp: cache_inv_def entry_ok_def u_def cache_len_def)
  have inv': "cache_inv u"
    using et(2) oku by (auto simp: cache_inv_def u_def cache_len_def)
  have fr: "tbl_frame s u" using et(7) b(2) by (simp add: tbl_frame_def u_def opts_def)
  have own: "le32dec (cached_byte u) ?x = Some ?u"
    using cached_le32dec [OF inv' _ _ four, of e] et(4,5) heap_buf.le32dec_le32enc [OF b(1)]
    by (simp add: u_def)
  have same: "cached_byte u y = cached_byte s y" if y: "y < ?x \<or> ?x + 3 < y" for y
  proof -
    consider (e) "y - y mod csz = addr e" | (d) d where "d \<in> set (fat32_cache_head (fat t))" "d \<noteq> e" "addr d = y - y mod csz"
      | (m) "y - y mod csz \<notin> addr ` set (fat32_cache_head (fat t))" by (metis image_iff)
    then show ?thesis
    proof cases
      case e
      have "y = addr e + y mod csz" using e mod_less_eq_dividend [of y csz] by linarith
      moreover have "?x = addr e + ?x mod csz" using et(5) mod_less_eq_dividend [of ?x csz] by linarith
      ultimately have yx: "y mod csz < ?x mod csz \<or> ?x mod csz + 3 < y mod csz" using y by linarith
      have "bdat b (chunk e + y mod csz) = bdat (fatbuf (fat t)) (chunk e + y mod csz)"
      proof (rule frm)
        show "chunk e + y mod csz < ?p \<or> ?p + 3 < chunk e + y mod csz" using yx by linarith
        have "chunk e + csz \<le> blen b" using ok b(2) by (simp add: entry_ok_def)
        then show "chunk e + y mod csz < blen b" using mod_less_divisor [OF cs_pos, of y] by linarith
      qed
      then show ?thesis
        using cached_byte_hit [OF inv', of e y] cached_byte_hit [OF et(2), of e y] e et(3,4)
        by (simp add: u_def)
    next
      case d
      then show ?thesis
        using cached_byte_hit [OF inv', of d y] cached_byte_hit [OF et(2), of d y] et(3) other [OF d(1,2)]
        by (simp add: u_def)
    next
      case m
      then have "cached_byte u y = cached_byte t y" by (simp add: cached_byte_miss u_def)
      then show ?thesis using et(3) by simp
    qed
  qed
  have "cached_entry u c = (if c = cl then norm_entry CLUST32_MASK v else cached_entry s c)"
    if c: "unat c < 2 ^ 30" for c
  proof (cases "c = cl")
    case True
    then show ?thesis using own by (simp add: cached_entry_def a norm_entry_def and.assoc)
  next
    case False
    then have "unat c \<noteq> unat cl" by (simp add: word_unat_eq_iff)
    then have "4 * unat c + 3 < ?x \<or> ?x + 3 < 4 * unat c" by linarith
    then have "le32dec (cached_byte u) (4 * unat c) = le32dec (cached_byte s) (4 * unat c)"
      by (intro le32dec_cong same) auto
    then show ?thesis using False by (simp add: cached_entry_def fat32_addr [OF c])
  qed
  then show ?thesis using run inv' fr by blast
qed

lemma cached_entry_cong: "cached_byte t = cached_byte s \<Longrightarrow> cached_entry t = cached_entry s"
  by (rule ext) (simp add: cached_entry_def)

end
