(* ===== verification/Fsck_Table.thy ===== *)
theory Fsck_Table
  imports Fsck_Cache
begin

text \<open>
  One abstraction for all four accessor pairs of fat.c. \<open>fat_view s\<close> is the allocation table as
  a function from cluster to entry, whatever the encoding and wherever the bytes are (heap
  block, mapping, or FAT32 cache over the device); \<open>table_inv\<close> says that the entry of every
  valid cluster lies inside the table. \<open>fat_get_law\<close> and \<open>fat_set_law\<close> show that
  \<open>fat_get_cl_next\<close> and \<open>fat_set_cl_next\<close> then always return, read the view, and update
  exactly one entry of it. The locale \<open>cluster_table\<close> is that contract, with what follows from
  it for the chains of clusters that the checker walks.
\<close>

section \<open>The table as a function\<close>

definition cl_mask :: "'a fsck_scheme \<Rightarrow> cl_t" where
  "cl_mask s = (case accessor (fat s) of Fat12 \<Rightarrow> CLUST12_MASK | Fat16 \<Rightarrow> CLUST16_MASK | _ \<Rightarrow> CLUST32_MASK)"

definition fat_view :: "'a fsck_scheme \<Rightarrow> cl_t \<Rightarrow> cl_t" where
  "fat_view s cl = (case accessor (fat s) of
       No_accessor \<Rightarrow> 0
     | Fat12 \<Rightarrow> the (fat_get_fat12_next cl s)
     | Fat16 \<Rightarrow> the (fat_get_fat16_next cl s)
     | Fat32 \<Rightarrow> the (fat_get_fat32_next cl s)
     | Fat32_cached \<Rightarrow> cached_entry s cl)"

definition flat_mem_ok :: "'a fsck_scheme \<Rightarrow> bool" where
  "flat_mem_ok s \<longleftrightarrow> (if is_mmapped (fat s) then mmap_off (fat s) + fatsize (fat s) \<le> blen (dev s)
                       else blen (fatbuf (fat s)) = fatsize (fat s))"

definition table_inv :: "'a fsck_scheme \<Rightarrow> bool" where
  "table_inv s \<longleftrightarrow> NumClusters (boot s) \<le> 0xffffff8 \<and>
     (case accessor (fat s) of
        No_accessor \<Rightarrow> False
      | Fat12 \<Rightarrow> flat_mem_ok s \<and> (\<forall>cl. valid_cl s cl \<longrightarrow> fat_get_fat12_ptr cl + 2 \<le> fatsize (fat s))
      | Fat16 \<Rightarrow> flat_mem_ok s \<and> (\<forall>cl. valid_cl s cl \<longrightarrow> fat_get_fat16_ptr cl + 2 \<le> fatsize (fat s))
      | Fat32 \<Rightarrow> flat_mem_ok s \<and> (\<forall>cl. valid_cl s cl \<longrightarrow> fat_get_fat32_ptr cl + 4 \<le> fatsize (fat s))
      | Fat32_cached \<Rightarrow> cache_inv s \<and> (\<forall>cl. valid_cl s cl \<longrightarrow> 4 * unat cl + 4 \<le> fatsize (fat s)))"

lemma valid_cl_bound: "table_inv s \<Longrightarrow> valid_cl s cl \<Longrightarrow> unat cl < 2 ^ 28"
  by (auto simp: table_inv_def valid_cl_def word_le_nat_alt word_less_nat_alt)

lemma valid_cl_bounds:
  assumes "table_inv s" "valid_cl s cl"
  shows "unat cl < 2 ^ 30" "unat cl < 2 ^ 31"
  using valid_cl_bound [OF assms] by simp_all

lemma valid_cl_frame: "tbl_frame s t \<Longrightarrow> valid_cl t cl = valid_cl s cl"
  by (simp add: tbl_frame_def valid_cl_def)

lemma fat_ld_defined: "flat_mem_ok s \<Longrightarrow> i < fatsize (fat s) \<Longrightarrow> \<exists>b. fat_ld s i = Some b"
  by (auto simp: flat_mem_ok_def fat_ld_def ld_def split: if_splits)

lemma fat_st_defined:
  assumes "flat_mem_ok s" "i < fatsize (fat s)" "\<not> rdonly s"
  shows "\<exists>t. fat_st i v s = Some t \<and> flat_mem_ok t \<and> tbl_frame s t"
  using assms by (auto simp: flat_mem_ok_def fat_st_def st_def tbl_frame_def opts_def split: if_splits)

lemma frame_simps:
  assumes "tbl_frame s t"
  shows "fatsize (fat t) = fatsize (fat s)" "rdonly t = rdonly s" "accessor (fat t) = accessor (fat s)"
    "boot t = boot s" "headbitmap (fat t) = headbitmap (fat s)" "valid_cl t cl = valid_cl s cl"
    "cl_mask t = cl_mask s" "fsck.more t = fsck.more s"
  using assms by (simp_all add: tbl_frame_def opts_def valid_cl_def cl_mask_def)

lemma le16enc_fat_defined:
  assumes "flat_mem_ok s" "i + 2 \<le> fatsize (fat s)" "\<not> rdonly s"
  shows "\<exists>t. le16enc fat_st i u s = Some t \<and> flat_mem_ok t \<and> tbl_frame s t"
proof -
  obtain t where t: "fat_st i (ucast (u AND 0xff)) s = Some t" "flat_mem_ok t" "tbl_frame s t"
    using fat_st_defined [OF assms(1) _ assms(3), of i] assms(2) by fastforce
  obtain w where "fat_st (i + 1) (ucast (drop_bit 8 u AND 0xff)) t = Some w" "flat_mem_ok w" "tbl_frame t w"
    using fat_st_defined [OF t(2), of "i + 1"] assms(2,3) frame_simps [OF t(3)] by fastforce
  then show ?thesis using t tbl_frame_trans by (fastforce simp: le16enc_def)
qed

lemma le32enc_fat_defined:
  assumes "flat_mem_ok s" "i + 4 \<le> fatsize (fat s)" "\<not> rdonly s"
  shows "\<exists>t. le32enc fat_st i u s = Some t \<and> flat_mem_ok t \<and> tbl_frame s t"
proof -
  obtain t1 where t1: "fat_st i (ucast (u AND 0xff)) s = Some t1" "flat_mem_ok t1" "tbl_frame s t1"
    using fat_st_defined [OF assms(1) _ assms(3), of i] assms(2) by fastforce
  obtain t2 where t2: "fat_st (i + 1) (ucast (drop_bit 8 u AND 0xff)) t1 = Some t2" "flat_mem_ok t2" "tbl_frame t1 t2"
    using fat_st_defined [OF t1(2), of "i + 1"] assms(2,3) frame_simps [OF t1(3)] by fastforce
  note f2 = tbl_frame_trans [OF t1(3) t2(3)]
  obtain t3 where t3: "fat_st (i + 2) (ucast (drop_bit 16 u AND 0xff)) t2 = Some t3" "flat_mem_ok t3" "tbl_frame t2 t3"
    using fat_st_defined [OF t2(2), of "i + 2"] assms(2,3) frame_simps [OF f2] by fastforce
  note f3 = tbl_frame_trans [OF f2 t3(3)]
  obtain t4 where t4: "fat_st (i + 3) (ucast (drop_bit 24 u AND 0xff)) t3 = Some t4" "flat_mem_ok t4" "tbl_frame t3 t4"
    using fat_st_defined [OF t3(2), of "i + 3"] assms(2,3) frame_simps [OF f3] by fastforce
  have "le32enc fat_st i u s = Some t4" unfolding le32enc_def t1(1) Option.bind.bind_lunit t2(1) t3(1) t4(1) ..
  then show ?thesis using t4 tbl_frame_trans [OF f3 t4(3)] by blast
qed

lemma le16dec_fat_defined:
  "flat_mem_ok s \<Longrightarrow> i + 2 \<le> fatsize (fat s) \<Longrightarrow> \<exists>v. le16dec (fat_ld s) i = Some v"
  using fat_ld_defined [of s i] fat_ld_defined [of s "i + 1"] by (auto simp: le16dec_def)

lemma le32dec_fat_defined:
  "flat_mem_ok s \<Longrightarrow> i + 4 \<le> fatsize (fat s) \<Longrightarrow> \<exists>v. le32dec (fat_ld s) i = Some v"
  using fat_ld_defined [of s i] fat_ld_defined [of s "i + 1"] fat_ld_defined [of s "i + 2"]
    fat_ld_defined [of s "i + 3"] by (auto simp: le32dec_def)

lemma fat12_set_defined:
  assumes f: "flat_mem_ok s" "fat_get_fat12_ptr cl + 2 \<le> fatsize (fat s)" and rw: "\<not> rdonly s"
  shows "\<exists>w. fat_set_fat12_next cl x s = Some (0, w) \<and> flat_mem_ok w \<and> tbl_frame s w"
proof -
  obtain p0 p1 where p: "fat_ld s (fat_get_fat12_ptr cl) = Some p0" "fat_ld s (fat_get_fat12_ptr cl + 1) = Some p1"
    using fat_ld_defined [OF f(1), of "fat_get_fat12_ptr cl"]
      fat_ld_defined [OF f(1), of "fat_get_fat12_ptr cl + 1"] f(2) by auto
  let ?n = "if cl AND 1 = 0 then (x AND CLUST12_MASK) OR push_bit 8 (ucast (p1 AND 0xf0))
            else push_bit 4 (x AND CLUST12_MASK) OR ucast (p0 AND 0x0f)"
  obtain w where "le16enc fat_st (fat_get_fat12_ptr cl) (ucast ?n) s = Some w" "flat_mem_ok w" "tbl_frame s w"
    using le16enc_fat_defined [OF f rw] by blast
  then show ?thesis using p by (intro exI [of _ w]) (simp add: fat_set_fat12_next_def Let_def split: if_splits)
qed

lemma table_inv_frame:
  assumes "table_inv s" "tbl_frame s t" "accessor (fat s) \<noteq> Fat32_cached" "flat_mem_ok t"
  shows "table_inv t"
  using assms by (auto simp: table_inv_def frame_simps [OF assms(2)] valid_cl_frame [OF assms(2)]
      split: accessors.splits)

lemma table_inv_frame_cached:
  assumes "table_inv s" "tbl_frame s t" "accessor (fat s) = Fat32_cached" "cache_inv t"
  shows "table_inv t"
  using assms by (auto simp: table_inv_def frame_simps [OF assms(2)] valid_cl_frame [OF assms(2)])

lemma fat_get_law:
  assumes inv: "table_inv s" and v: "valid_cl s cl"
  shows "\<exists>t. fat_get_cl_next cl s = Some (fat_view s cl, t) \<and> table_inv t \<and> tbl_frame s t \<and>
    fat_view t = fat_view s"
proof (cases "accessor (fat s)")
  case No_accessor
  with inv show ?thesis by (simp add: table_inv_def)
next
  case Fat12
  with inv v obtain x where "fat_get_fat12_next cl s = Some x"
    using le16dec_fat_defined [of s "fat_get_fat12_ptr cl"]
    by (fastforce simp: table_inv_def fat_get_fat12_next_def Let_def)
  then show ?thesis using Fat12 v inv by (simp add: fat_get_cl_next_def fat_get_def fat_view_def)
next
  case Fat16
  with inv v obtain x where "fat_get_fat16_next cl s = Some x"
    using le16dec_fat_defined [of s "fat_get_fat16_ptr cl"]
    by (fastforce simp: table_inv_def fat_get_fat16_next_def Let_def)
  then show ?thesis using Fat16 v inv by (simp add: fat_get_cl_next_def fat_get_def fat_view_def)
next
  case Fat32
  with inv v obtain x where "fat_get_fat32_next cl s = Some x"
    using le32dec_fat_defined [of s "fat_get_fat32_ptr cl"]
    by (fastforce simp: table_inv_def fat_get_fat32_next_def Let_def)
  then show ?thesis using Fat32 v inv by (simp add: fat_get_cl_next_def fat_get_def fat_view_def)
next
  case Fat32_cached
  with inv v have c: "cache_inv s" "4 * unat cl + 4 \<le> fatsize (fat s)" by (auto simp: table_inv_def)
  then have lt: "4 * unat cl < cache_len s" using cache_len_multiple(2) [of s] by linarith
  obtain t where t: "fat_get_fat32_cached_next cl s = Some (cached_entry s cl, t)" "cache_inv t"
    "cached_byte t = cached_byte s" "tbl_frame s t"
    using cached_get_ok [OF c(1) valid_cl_bounds(1) [OF inv v] lt] by blast
  then have "fat_view t = fat_view s"
    using cached_entry_cong [OF t(3)] Fat32_cached frame_simps(3) [OF t(4)] by (intro ext) (simp add: fat_view_def)
  then show ?thesis
    using t Fat32_cached v table_inv_frame_cached [OF inv t(4) Fat32_cached t(2)]
    by (simp add: fat_get_cl_next_def fat_get_def fat_view_def)
qed

lemma fat_set_law:
  assumes inv: "table_inv s" and v: "valid_cl s cl" and rw: "\<not> rdonly s"
  shows "\<exists>t. fat_set_cl_next cl x s = Some (FSOK, t) \<and> table_inv t \<and> tbl_frame s t \<and>
    (\<forall>c. valid_cl s c \<longrightarrow> fat_view t c = (if c = cl then norm_entry (cl_mask s) x else fat_view s c))"
proof (cases "accessor (fat s)")
  case No_accessor
  with inv show ?thesis by (simp add: table_inv_def)
next
  case Fat12
  then have f: "flat_mem_ok s" "fat_get_fat12_ptr cl + 2 \<le> fatsize (fat s)"
    using inv v by (auto simp: table_inv_def)
  obtain w where set: "fat_set_fat12_next cl x s = Some (0, w)" and fr: "flat_mem_ok w" "tbl_frame s w"
    using fat12_set_defined [OF f rw] by blast
  have "fat_get_fat12_next c w = (if c = cl then Some (norm_entry CLUST12_MASK x) else fat_get_fat12_next c s)"
    if "valid_cl s c" for c
    using fat12.get_after_set [OF set] valid_cl_bounds [OF inv] v that by blast
  then show ?thesis
    using set Fat12 v rw fr table_inv_frame [OF inv fr(2) _ fr(1)] frame_simps [OF fr(2)]
    by (simp add: fat_set_cl_next_def fat_set_def fat_view_def cl_mask_def)
next
  case Fat16
  then have f: "flat_mem_ok s" "fat_get_fat16_ptr cl + 2 \<le> fatsize (fat s)"
    using inv v by (auto simp: table_inv_def)
  obtain w where "le16enc fat_st (fat_get_fat16_ptr cl) (ucast (x AND CLUST16_MASK)) s = Some w"
    and fr: "flat_mem_ok w" "tbl_frame s w"
    using le16enc_fat_defined [OF f rw] by blast
  then have set: "fat_set_fat16_next cl x s = Some (0, w)" by (simp add: fat_set_fat16_next_def)
  have "fat_get_fat16_next c w = (if c = cl then Some (norm_entry CLUST16_MASK x) else fat_get_fat16_next c s)"
    if "valid_cl s c" for c
    using fat16.get_after_set [OF set] valid_cl_bounds [OF inv] v that by blast
  then show ?thesis
    using set Fat16 v rw fr table_inv_frame [OF inv fr(2) _ fr(1)] frame_simps [OF fr(2)]
    by (simp add: fat_set_cl_next_def fat_set_def fat_view_def cl_mask_def)
next
  case Fat32
  then have f: "flat_mem_ok s" "fat_get_fat32_ptr cl + 4 \<le> fatsize (fat s)"
    using inv v by (auto simp: table_inv_def)
  obtain w where "le32enc fat_st (fat_get_fat32_ptr cl) (x AND CLUST32_MASK) s = Some w"
    and fr: "flat_mem_ok w" "tbl_frame s w"
    using le32enc_fat_defined [OF f rw] by blast
  then have set: "fat_set_fat32_next cl x s = Some (0, w)" by (simp add: fat_set_fat32_next_def)
  have "fat_get_fat32_next c w = (if c = cl then Some (norm_entry CLUST32_MASK x) else fat_get_fat32_next c s)"
    if "valid_cl s c" for c
    using fat32.get_after_set [OF set] valid_cl_bounds [OF inv] v that by blast
  then show ?thesis
    using set Fat32 v rw fr table_inv_frame [OF inv fr(2) _ fr(1)] frame_simps [OF fr(2)]
    by (simp add: fat_set_cl_next_def fat_set_def fat_view_def cl_mask_def)
next
  case Fat32_cached
  with inv v have c: "cache_inv s" "4 * unat cl + 4 \<le> fatsize (fat s)" by (auto simp: table_inv_def)
  then have lt: "4 * unat cl < cache_len s" using cache_len_multiple(2) [of s] by linarith
  obtain t where t: "fat_set_fat32_cached_next cl x s = Some (FSOK, t)" "cache_inv t" "tbl_frame s t"
    "\<forall>c. unat c < 2 ^ 30 \<longrightarrow> cached_entry t c = (if c = cl then norm_entry CLUST32_MASK x else cached_entry s c)"
    using cached_set_ok [OF c(1) valid_cl_bounds(1) [OF inv v] lt] by blast
  then show ?thesis
    using Fat32_cached v rw table_inv_frame_cached [OF inv t(3) Fat32_cached t(2)] frame_simps [OF t(3)]
      valid_cl_bounds [OF inv]
    by (simp add: fat_set_cl_next_def fat_set_def fat_view_def cl_mask_def)
qed

section \<open>Chains\<close>

text \<open>
  \<open>chain nxt ok c cs e\<close>: following \<open>nxt\<close> from \<open>c\<close> visits the clusters \<open>cs\<close>, all of them \<open>ok\<close>,
  and then arrives at \<open>e\<close>, which is not.
\<close>

fun chain :: "(cl_t \<Rightarrow> cl_t) \<Rightarrow> (cl_t \<Rightarrow> bool) \<Rightarrow> cl_t \<Rightarrow> cl_t list \<Rightarrow> cl_t \<Rightarrow> bool" where
  "chain nxt ok c [] e \<longleftrightarrow> c = e \<and> \<not> ok e"
| "chain nxt ok c (d # cs) e \<longleftrightarrow> d = c \<and> ok c \<and> chain nxt ok (nxt c) cs e"

lemma chain_all_ok: "chain nxt ok c cs e \<Longrightarrow> d \<in> set cs \<Longrightarrow> ok d"
  by (induction cs arbitrary: c) auto

lemma chain_end: "chain nxt ok c cs e \<Longrightarrow> \<not> ok e"
  by (induction cs arbitrary: c) auto

lemma chain_cong:
  "chain nxt ok c cs e \<Longrightarrow> (\<And>d. d \<in> set cs \<Longrightarrow> nxt' d = nxt d) \<Longrightarrow> (\<And>d. ok' d = ok d) \<Longrightarrow>
   chain nxt' ok' c cs e"
  by (induction cs arbitrary: c) auto

lemma chain_unique: "chain nxt ok c cs e \<Longrightarrow> chain nxt ok c ds f \<Longrightarrow> cs = ds \<and> e = f"
proof (induction cs arbitrary: c ds)
  case Nil
  then show ?case by (cases ds) auto
next
  case (Cons d cs)
  then show ?case by (cases ds) auto
qed

lemma chain_suffix: "chain nxt ok c (as @ b # bs) e \<Longrightarrow> chain nxt ok b (b # bs) e"
  by (induction as arbitrary: c) auto

lemma chain_distinct: "chain nxt ok c cs e \<Longrightarrow> distinct cs"
proof (induction cs arbitrary: c)
  case (Cons d cs)
  have "d \<notin> set cs"
  proof
    assume "d \<in> set cs"
    then obtain as bs where cs: "cs = as @ d # bs" by (auto simp: in_set_conv_decomp)
    have "chain nxt ok c (d # cs) e" by (rule Cons.prems)
    moreover from this have "chain nxt ok d (d # bs) e"
      using chain_suffix [of nxt ok c "d # as" d bs e] unfolding cs append_Cons by blast
    moreover have "d = c" using Cons.prems by simp
    ultimately have "d # cs = d # bs" using chain_unique by blast
    then have "length cs = length bs" by simp
    with cs show False by simp
  qed
  with Cons show ?case by auto
qed simp

lemma chain_truncate:
  assumes "chain nxt ok c (as @ [d] @ bs) e" and "\<not> ok f"
    and "nxt' d = f" and "\<And>x. x \<in> set as \<Longrightarrow> nxt' x = nxt x"
  shows "chain nxt' ok c (as @ [d]) f"
  using assms by (induction as arbitrary: c) auto

text \<open>What the checker relies on when it walks and repairs chains.\<close>

locale cluster_table =
  fixes get :: "cl_t \<Rightarrow> 's \<Rightarrow> (cl_t \<times> 's) option"
    and put :: "cl_t \<Rightarrow> cl_t \<Rightarrow> 's \<Rightarrow> (cint \<times> 's) option"
    and view :: "'s \<Rightarrow> cl_t \<Rightarrow> cl_t"
    and good :: "'s \<Rightarrow> bool"
    and usable :: "'s \<Rightarrow> cl_t \<Rightarrow> bool"
    and writable :: "'s \<Rightarrow> bool"
    and norm :: "'s \<Rightarrow> cl_t \<Rightarrow> cl_t"
    and frame :: "'s \<Rightarrow> 's \<Rightarrow> bool"
  assumes get_view: "good s \<Longrightarrow> usable s c \<Longrightarrow>
      \<exists>t. get c s = Some (view s c, t) \<and> good t \<and> frame s t \<and> view t = view s"
    and put_view: "good s \<Longrightarrow> usable s c \<Longrightarrow> writable s \<Longrightarrow>
      \<exists>t. put c x s = Some (FSOK, t) \<and> good t \<and> frame s t \<and>
        (\<forall>d. usable s d \<longrightarrow> view t d = (if d = c then norm s x else view s d))"
    and frame_usable: "frame s t \<Longrightarrow> usable t = usable s"
    and frame_writable: "frame s t \<Longrightarrow> writable t = writable s"
begin

lemma put_get:
  assumes "good s" "usable s c" "usable s d" "writable s"
  shows "\<exists>t u. put c x s = Some (FSOK, t) \<and> get d t = Some (if d = c then norm s x else view s d, u)"
proof -
  obtain t where t: "put c x s = Some (FSOK, t)" "good t" "frame s t"
    "view t d = (if d = c then norm s x else view s d)"
    using put_view [OF assms(1,2,4)] assms(3) by blast
  then show ?thesis using get_view [of t d] frame_usable [OF t(3)] assms(3) by auto
qed

lemma put_off_chain:
  assumes "good s" "usable s c" "writable s" "chain (view s) (usable s) h cs e" "c \<notin> set cs"
  shows "\<exists>t. put c x s = Some (FSOK, t) \<and> good t \<and> frame s t \<and> chain (view t) (usable t) h cs e"
proof -
  obtain t where t: "put c x s = Some (FSOK, t)" "good t" "frame s t"
    and v: "\<And>d. usable s d \<Longrightarrow> view t d = (if d = c then norm s x else view s d)"
    using put_view [OF assms(1-3), of x] by blast
  have "chain (view t) (usable t) h cs e"
    using assms(4) by (rule chain_cong) (use v chain_all_ok [OF assms(4)] assms(5) frame_usable [OF t(3)] in auto)
  with t show ?thesis by blast
qed

lemma put_truncates:
  assumes "good s" "writable s" "chain (view s) (usable s) h (as @ [c] @ bs) e" "\<not> usable s (norm s x)"
  shows "\<exists>t. put c x s = Some (FSOK, t) \<and> good t \<and> frame s t \<and>
    chain (view t) (usable t) h (as @ [c]) (norm s x)"
proof -
  have c: "usable s c" using chain_all_ok [OF assms(3)] by simp
  obtain t where t: "put c x s = Some (FSOK, t)" "good t" "frame s t"
    and v: "\<And>d. usable s d \<Longrightarrow> view t d = (if d = c then norm s x else view s d)"
    using put_view [OF assms(1) c assms(2), of x] by blast
  have "c \<notin> set as" using chain_distinct [OF assms(3)] by auto
  then have "chain (view t) (usable s) h (as @ [c]) (norm s x)"
    using v [OF c] v [OF chain_all_ok [OF assms(3)]] by (intro chain_truncate [OF assms(3,4)]) auto
  with t frame_usable [OF t(3)] show ?thesis by auto
qed

end

interpretation tbl: cluster_table fat_get_cl_next fat_set_cl_next fat_view table_inv valid_cl
  "\<lambda>s. \<not> rdonly s" "\<lambda>s. norm_entry (cl_mask s)" tbl_frame
proof unfold_locales
  fix s t :: "'a fsck_scheme" and c x :: cl_t
  show "table_inv s \<Longrightarrow> valid_cl s c \<Longrightarrow>
    \<exists>t. fat_get_cl_next c s = Some (fat_view s c, t) \<and> table_inv t \<and> tbl_frame s t \<and> fat_view t = fat_view s"
    by (rule fat_get_law)
  show "table_inv s \<Longrightarrow> valid_cl s c \<Longrightarrow> \<not> rdonly s \<Longrightarrow>
    \<exists>t. fat_set_cl_next c x s = Some (FSOK, t) \<and> table_inv t \<and> tbl_frame s t \<and>
      (\<forall>d. valid_cl s d \<longrightarrow> fat_view t d = (if d = c then norm_entry (cl_mask s) x else fat_view s d))"
    by (rule fat_set_law)
  show "tbl_frame s t \<Longrightarrow> valid_cl t = valid_cl s" by (simp add: fun_eq_iff frame_simps)
  show "tbl_frame s t \<Longrightarrow> (\<not> rdonly t) = (\<not> rdonly s)" by (simp add: frame_simps)
qed

lemma norm_entry_EOF [simp]: "norm_entry (cl_mask s) CLUST_EOF = CLUST_EOF"
  by (cases "accessor (fat s)") (simp_all add: norm_entry_def cl_mask_def Let_def)

lemma norm_entry_FREE [simp]: "norm_entry (cl_mask s) CLUST_FREE = CLUST_FREE"
  by (cases "accessor (fat s)") (simp_all add: norm_entry_def cl_mask_def Let_def)

lemma EOF_not_valid [simp]: "\<not> valid_cl s CLUST_EOF"
proof -
  have "(CLUST_EOF :: cl_t) = - 1" by simp
  then show ?thesis by (simp only: valid_cl_def not_less word_order.extremum simp_thms)
qed

lemma FREE_not_valid [simp]: "\<not> valid_cl s CLUST_FREE"
  by (simp add: valid_cl_def)

end
