(* ===== verification/Fsck_FatOps.thy ===== *)
theory Fsck_FatOps
  imports Fsck_Table
begin

text \<open>
  The operations of fat.c on the whole table: the clean flag (\<open>checkdirty\<close>, \<open>cleardirty\<close>),
  loading and scanning the table (\<open>readfat\<close>), walking and releasing chains (\<open>checkchain\<close>,
  \<open>clearchain\<close>) and writing the copies back (\<open>writefat\<close>). Messages are not modelled; every
  question the code asks is. The chain walks are \<open>partial_function\<close>s, because on a cyclic chain
  the C loops do not end.
\<close>

abbreviation (input) null_buf :: buf where "null_buf \<equiv> \<lparr>blen = 0, bdat = \<lambda>_. 0\<rparr>"

definition zero_fat :: fat_descriptor where
  "zero_fat = \<lparr>fatbuf = null_buf, accessor = No_accessor, headbitmap = \<lparr>bmap = [], bcount = 0\<rparr>,
     is_mmapped = False, mmap_off = 0, use_cache = False, fatsize = 0, fat32_cache_head = [],
     fat32_offset = 0, fat32_lastaddr = 0\<rparr>"

section \<open>The clean flag\<close>

definition fat_start :: "bootblock \<Rightarrow> nat" where
  "fat_start b = unat (bpbResSectors b) * unat (bpbBytesPerSec b)"

definition first_bytes :: "nat \<Rightarrow> buf \<Rightarrow> (nat \<Rightarrow> byte) option" where
  "first_bytes n b = (if n \<le> blen b then Some (bdat b) else None)"

definition checkdirty :: "bootblock \<Rightarrow> 'a env_scheme \<Rightarrow> (cint \<times> 'a env_scheme) option" where
  "checkdirty bt s =
    (if ClustMask bt \<noteq> CLUST16_MASK \<and> ClustMask bt \<noteq> CLUST32_MASK then Some (0, s)
     else case malloc (unat (bpbBytesPerSec bt)) s of
       (None, s) \<Rightarrow> Some (1, s)
     | (Some b, s) \<Rightarrow> do {
         ((ok, b), s) \<leftarrow> seek_read (fat_start bt) (unat (bpbBytesPerSec bt)) 0 b s;
         if \<not> ok then Some (0, s)
         else do {
           buffer \<leftarrow> first_bytes (if ClustMask bt = CLUST16_MASK then 4 else 8) b;
           if ucast (buffer 0) \<noteq> bpbMedia bt \<or> buffer 1 \<noteq> 0xff then Some (0, s)
           else if ClustMask bt = CLUST16_MASK then
             (if buffer 2 AND 0xf8 \<noteq> 0xf8 \<or> buffer 3 AND 0x3f \<noteq> 0x3f then Some (0, s)
              else Some (if buffer 3 AND 0xc0 = 0xc0 then 1 else 0, s))
           else
             (if buffer 2 \<noteq> 0xff \<or> buffer 3 AND 0x0f \<noteq> 0x0f
                 \<or> buffer 4 AND 0xf8 \<noteq> 0xf8 \<or> buffer 5 \<noteq> 0xff
                 \<or> buffer 6 \<noteq> 0xff \<or> buffer 7 AND 0x03 \<noteq> 0x03 then Some (0, s)
              else Some (if buffer 7 AND 0x0c = 0x0c then 1 else 0, s)) } })"

definition or_byte :: "nat \<Rightarrow> byte \<Rightarrow> buf \<Rightarrow> buf option" where
  "or_byte i m b = do { v \<leftarrow> ld b i; st i (v OR m) b }"

definition cleardirty :: "'a fsck_scheme \<Rightarrow> (cint \<times> 'a fsck_scheme) option" where
  "cleardirty s =
    (let bt = boot s; len = unat (bpbBytesPerSec bt)
     in if ClustMask bt \<noteq> CLUST16_MASK \<and> ClustMask bt \<noteq> CLUST32_MASK then Some (0, s)
     else case malloc len s of
       (None, s) \<Rightarrow> Some (1, s)
     | (Some b, s) \<Rightarrow> do {
         ((ok, b), s) \<leftarrow> dpread (fat_start bt) len 0 b s;
         if \<not> ok then Some (FSERROR, s)
         else do {
           b \<leftarrow> (if ClustMask bt = CLUST16_MASK then or_byte 3 0x80 b else or_byte 7 0x08 b);
           (ok, s) \<leftarrow> dpwrite (fat_start bt) len 0 b s;
           Some (if ok then FSOK else FSERROR, s) } })"

section \<open>Loading the table\<close>

text \<open>
  \<^verbatim>\<open>_readfat()\<close>. A successful \<^verbatim>\<open>mmap\<close> makes the table the device from \<open>mmap_off\<close> on; whether
  it succeeds is decided by the schedule \<open>mmap_faults\<close>.
\<close>

definition mmap :: "nat \<Rightarrow> 'a fsck_scheme \<Rightarrow> bool \<times> 'a fsck_scheme" where
  "mmap off s = (case pop_fault (mmap_faults s) of (f, rest) \<Rightarrow>
     if f then (False, s\<lparr>mmap_faults := rest\<rparr>)
     else (True, s\<lparr>mmap_faults := rest, fat := (fat s)\<lparr>is_mmapped := True, mmap_off := off\<rparr>\<rparr>))"

definition init_cache :: "fat32_cache_entry list" where
  "init_cache = map (\<lambda>i. \<lparr>chunk = fat32_cache_chunk_size * i, addr = fat32_cache_chunk_size * i,
      dirty = False\<rparr>) [0..<fat32_cache_entries]"

definition readfat_buffer :: "nat \<Rightarrow> nat \<Rightarrow> 'a fsck_scheme \<Rightarrow> (bool \<times> 'a fsck_scheme) option" where
  "readfat_buffer off readsize s =
    (case malloc readsize s of
       (None, s) \<Rightarrow> Some (False, s)
     | (Some b, s) \<Rightarrow> do {
         ((ok, b), s) \<leftarrow> seek_read off readsize 0 b s;
         if \<not> ok then Some (False, s\<lparr>fat := (fat s)\<lparr>fatbuf := null_buf\<rparr>\<rparr>)
         else let s = s\<lparr>fat := (fat s)\<lparr>fatbuf := b\<rparr>\<rparr>
              in if use_cache (fat s) then
                   (case malloc (fat32_cache_entries * 40) s of
                      (None, s) \<Rightarrow> Some (False, s\<lparr>fat := (fat s)\<lparr>fatbuf := null_buf\<rparr>\<rparr>)
                    | (Some _, s) \<Rightarrow> Some (True, set_cache init_cache s))
                 else Some (True, s) })"

definition readfat_table :: "'a fsck_scheme \<Rightarrow> (bool \<times> 'a fsck_scheme) option" where
  "readfat_table s =
    (let b = boot s; off = fat_start b;
         s = s\<lparr>fat := (fat s)\<lparr>fatsize := unat (FATsecs b * bpbBytesPerSec b),
                is_mmapped := False, use_cache := False\<rparr>\<rparr>
     in case (if allow_mmap s then mmap off s else (False, s)) of (mapped, s) \<Rightarrow>
       if mapped then Some (True, s)
       else if ClustMask b = CLUST32_MASK \<and> fatsize (fat s) \<ge> fat32_cache_size then
         readfat_buffer off fat32_cache_size
           (s\<lparr>fat := (fat s)\<lparr>use_cache := True,
               fat32_offset := unat (bpbResSectors b * bpbBytesPerSec b),
               fat32_lastaddr := unat ((of_nat (fatsize (fat s)) :: u64)
                                   AND NOT (of_nat fat32_cache_chunk_size))\<rparr>\<rparr>)
       else readfat_buffer off (fatsize (fat s)) s)"

text \<open>
  \<open>releasefat\<close> unmaps or frees the table and the bitmap; afterwards the descriptor has no table.
\<close>

definition releasefat :: "'a fsck_scheme \<Rightarrow> 'a fsck_scheme" where
  "releasefat s = s\<lparr>fat := (fat s)\<lparr>fatbuf := null_buf, is_mmapped := False,
     fat32_cache_head := (if \<not> is_mmapped (fat s) \<and> use_cache (fat s) then []
                          else fat32_cache_head (fat s)),
     headbitmap := bitmap_dtor (headbitmap (fat s))\<rparr>\<rparr>"

section \<open>The first two entries\<close>

definition sig_len :: "bootblock \<Rightarrow> nat" where
  "sig_len b = (if ClustMask b = CLUST32_MASK then 8 else if ClustMask b = CLUST16_MASK then 4 else 3)"

definition fat_bytes :: "nat \<Rightarrow> 'a fsck_scheme \<Rightarrow> (nat \<Rightarrow> byte) option" where
  "fat_bytes n s = (if \<forall>i\<in>{..<n}. fat_ld s i \<noteq> None then Some (\<lambda>i. the (fat_ld s i)) else None)"

definition sig_odd :: "bootblock \<Rightarrow> (nat \<Rightarrow> byte) \<Rightarrow> bool" where
  "sig_odd b buffer \<longleftrightarrow>
     ucast (buffer 0) \<noteq> bpbMedia b \<or> buffer 1 \<noteq> 0xff \<or> buffer 2 \<noteq> 0xff
     \<or> ClustMask b = CLUST16_MASK \<and> buffer 3 \<noteq> 0xff
     \<or> ClustMask b = CLUST32_MASK \<and> (buffer 3 AND 0x0f \<noteq> 0x0f
          \<or> buffer 4 \<noteq> 0xff \<or> buffer 5 \<noteq> 0xff
          \<or> buffer 6 \<noteq> 0xff \<or> buffer 7 AND 0x0f \<noteq> 0x0f)"

definition sig_dirty :: "bootblock \<Rightarrow> (nat \<Rightarrow> byte) \<Rightarrow> bool" where
  "sig_dirty b buffer \<longleftrightarrow>
     ucast (buffer 0) = bpbMedia b \<and> buffer 1 = 0xff \<and> buffer 2 = 0xff
     \<and> (ClustMask b = CLUST16_MASK \<and> buffer 3 = 0x7f
        \<or> ClustMask b = CLUST32_MASK
          \<and> buffer 3 = 0x0f \<and> buffer 4 = 0xff \<and> buffer 5 = 0xff \<and> buffer 6 = 0xff
          \<and> buffer 7 = 0x07)"

definition sig_bytes :: "bootblock \<Rightarrow> byte list" where
  "sig_bytes b = [ucast (bpbMedia b), 0xff, 0xff] @
     (if ClustMask b = CLUST16_MASK then [0xff]
      else if ClustMask b = CLUST32_MASK then [0x0f, 0xff, 0xff, 0xff, 0x0f] else [])"

primrec fat_put :: "nat \<Rightarrow> byte list \<Rightarrow> 'a fsck_scheme \<Rightarrow> 'a fsck_scheme option" where
  "fat_put i [] s = Some s"
| "fat_put i (v # vs) s = do { s \<leftarrow> fat_st i v s; fat_put (Suc i) vs s }"

definition readfat_signature :: "'a fsck_scheme \<Rightarrow> (cint \<times> 'a fsck_scheme) option" where
  "readfat_signature s = do {
     buffer \<leftarrow> fat_bytes (sig_len (boot s)) s;
     if \<not> sig_odd (boot s) buffer then Some (FSOK, s)
     else if sig_dirty (boot s) buffer then Some (FSDIRTY, s)
     else case ask True s of (yes, s) \<Rightarrow>
       if yes then do { s \<leftarrow> fat_put 0 (sig_bytes (boot s)) s; Some (FSFATMOD, s) }
       else Some (FSOK, s) }"

section \<open>The scan\<close>

definition clear_if_head :: "cl_t \<Rightarrow> 'a fsck_scheme \<Rightarrow> 'a fsck_scheme option" where
  "clear_if_head cl s = do {
     h \<leftarrow> fat_is_cl_head cl s;
     if h then fat_clear_cl_head cl s else Some s }"

definition scan_truncate :: "cl_t \<Rightarrow> cint \<Rightarrow> 'a fsck_scheme \<Rightarrow> (cint \<times> 'a fsck_scheme) option" where
  "scan_truncate cl ret s =
    (case ask False s of (yes, s) \<Rightarrow>
       if yes then do {
         (r, s) \<leftarrow> fat_set_cl_next cl CLUST_EOF s;
         Some (ret OR r OR FSFATMOD, s) }
       else Some (ret, s))"

definition scan_entry :: "cl_t \<Rightarrow> cl_t \<Rightarrow> cint \<Rightarrow> 'a fsck_scheme \<Rightarrow> (cint \<times> 'a fsck_scheme) option" where
  "scan_entry cl nextcl ret s =
    (if nextcl = CLUST_FREE then do {
       let s = (if FSNext (boot s) = 0 then s\<lparr>boot := (boot s)\<lparr>FSNext := cl\<rparr>\<rparr> else s);
       s \<leftarrow> clear_if_head cl s;
       Some (ret, s\<lparr>boot := (boot s)\<lparr>NumFree := NumFree (boot s) + 1\<rparr>\<rparr>) }
     else if nextcl = CLUST_BAD then do {
       s \<leftarrow> clear_if_head cl s;
       Some (ret, s\<lparr>boot := (boot s)\<lparr>NumBad := NumBad (boot s) + 1\<rparr>\<rparr>) }
     else if \<not> valid_cl s nextcl \<and> nextcl < CLUST_RSRVD then scan_truncate cl ret s
     else if valid_cl s nextcl then do {
       h \<leftarrow> fat_is_cl_head nextcl s;
       if h then do { s \<leftarrow> fat_clear_cl_head nextcl s; Some (ret, s) }
       else scan_truncate cl ret s }
     else Some (ret, s))"

definition scan_step :: "cl_t \<Rightarrow> cint \<Rightarrow> 'a fsck_scheme \<Rightarrow> (cint \<times> 'a fsck_scheme) option" where
  "scan_step cl ret s = do {
     (nextcl, s) \<leftarrow> fat_get_cl_next cl s;
     scan_entry cl nextcl ret s }"

primrec readfat_scan :: "cl_t list \<Rightarrow> cint \<Rightarrow> 'a fsck_scheme \<Rightarrow> (cint \<times> 'a fsck_scheme) option" where
  "readfat_scan [] ret s = Some (ret, s)"
| "readfat_scan (cl # cls) ret s = do {
     (ret, s) \<leftarrow> scan_step cl ret s;
     readfat_scan cls ret s }"

text \<open>\<^verbatim>\<open>for (cl = CLUST_FIRST; cl < boot->NumClusters; cl++)\<close>\<close>

definition clusters :: "bootblock \<Rightarrow> cl_t list" where
  "clusters b = map of_nat [2..<unat (NumClusters b)]"

definition readfat_accessor :: "bootblock \<Rightarrow> fat_descriptor \<Rightarrow> accessors option" where
  "readfat_accessor b f =
    (if ClustMask b = CLUST12_MASK then Some Fat12
     else if ClustMask b = CLUST16_MASK then Some Fat16
     else if ClustMask b = CLUST32_MASK then
       Some (if is_mmapped f \<or> \<not> use_cache f then Fat32 else Fat32_cached)
     else None)"

text \<open>Of the descriptor that \<^verbatim>\<open>calloc\<close> returns only whether there is one matters, not its size.\<close>

definition readfat :: "'a fsck_scheme \<Rightarrow> (cint \<times> 'a fsck_scheme) option" where
  "readfat s =
    (let s = s\<lparr>boot := (boot s)\<lparr>NumFree := 0, NumBad := 0\<rparr>\<rparr>
     in case malloc 1 s of
       (None, s) \<Rightarrow> Some (FSFATAL, s)
     | (Some _, s) \<Rightarrow> do {
         (ok, s) \<leftarrow> readfat_table (s\<lparr>fat := zero_fat\<rparr>);
         if \<not> ok then Some (FSFATAL, s)
         else case readfat_accessor (boot s) (fat s) of
           None \<Rightarrow> Some (FSFATAL, releasefat s)
         | Some a \<Rightarrow>
             (let s = s\<lparr>fat := (fat s)\<lparr>accessor := a\<rparr>\<rparr>
              in case bitmap_ctor (ucast (NumClusters (boot s))) True s of ((r, lb), s) \<Rightarrow>
                 let s = s\<lparr>fat := (fat s)\<lparr>headbitmap := lb\<rparr>\<rparr>
                 in if r \<noteq> FSOK then Some (FSFATAL, releasefat s)
                 else do {
                   (ret, s) \<leftarrow> readfat_signature s;
                   (ret, s) \<leftarrow> readfat_scan (clusters (boot s)) ret s;
                   if has ret FSFATAL then Some (ret, releasefat s) else Some (ret, s) }) })"

section \<open>Chains\<close>

definition rsrvdcltype :: "cl_t \<Rightarrow> string" where
  "rsrvdcltype cl =
    (if cl = CLUST_FREE then ''free''
     else if cl < CLUST_BAD then ''reserved''
     else if cl > CLUST_BAD then ''as EOF''
     else ''bad'')"

text \<open>The \<^verbatim>\<open>for\<close> loop of \<open>checkchain\<close>: previous, current and next cluster, and the count.\<close>

partial_function (option) chain_walk ::
  "cl_t \<Rightarrow> cl_t \<Rightarrow> cl_t \<Rightarrow> u64 \<Rightarrow> 'a fsck_scheme \<Rightarrow> ((cl_t \<times> cl_t \<times> cl_t \<times> u64) \<times> 'a fsck_scheme) option"
where
  "chain_walk prev_cl current_cl next_cl chainsize s =
    (if valid_cl s next_cl then do {
       (nn, s) \<leftarrow> fat_get_cl_next next_cl s;
       chain_walk current_cl next_cl nn (chainsize + 1) s }
     else Some ((prev_cl, current_cl, next_cl, chainsize), s))"

definition checkchain_fix ::
  "cl_t \<Rightarrow> cl_t \<Rightarrow> cl_t \<Rightarrow> u64 \<Rightarrow> 'a fsck_scheme \<Rightarrow> ((cint \<times> u64) \<times> 'a fsck_scheme) option" where
  "checkchain_fix prev_cl current_cl next_cl chainsize s =
    (if next_cl \<ge> CLUST_EOFS then Some ((FSOK, chainsize + 1), s)
     else
       (let (current_cl, chainsize) =
              (if next_cl = CLUST_FREE \<or> next_cl \<ge> CLUST_RSRVD then (prev_cl, chainsize)
               else (current_cl, chainsize + 1));
            next_cl = (if chainsize > 0 then CLUST_EOF else CLUST_FREE)
        in case ask False s of (yes, s) \<Rightarrow>
             if yes then do {
               (r, s) \<leftarrow> fat_set_cl_next current_cl next_cl s;
               Some ((r OR FSFATMOD, chainsize), s) }
             else Some ((FSERROR, chainsize), s)))"

definition checkchain :: "cl_t \<Rightarrow> 'a fsck_scheme \<Rightarrow> ((cint \<times> u64) \<times> 'a fsck_scheme) option" where
  "checkchain head s =
    (if \<not> valid_cl s head then None
     else do {
       h \<leftarrow> fat_is_cl_head head s;
       if \<not> h then None
       else do {
         s \<leftarrow> fat_clear_cl_head head s;
         (next_cl, s) \<leftarrow> fat_get_cl_next head s;
         ((prev_cl, current_cl, next_cl, chainsize), s) \<leftarrow> chain_walk head head next_cl 0 s;
         checkchain_fix prev_cl current_cl next_cl chainsize s } })"

partial_function (option) clearchain :: "cl_t \<Rightarrow> 'a fsck_scheme \<Rightarrow> (unit \<times> 'a fsck_scheme) option"
where
  "clearchain current_cl s =
    (if valid_cl s current_cl then do {
       (next_cl, s) \<leftarrow> fat_get_cl_next current_cl s;
       (_, s) \<leftarrow> fat_set_cl_next current_cl CLUST_FREE s;
       clearchain next_cl (s\<lparr>boot := (boot s)\<lparr>NumFree := NumFree (boot s) + 1\<rparr>\<rparr>) }
     else Some ((), s))"

section \<open>Writing the copies\<close>

definition fat_copy_off :: "bootblock \<Rightarrow> u32 \<Rightarrow> nat" where
  "fat_copy_off b n = unat (bpbResSectors b + n * FATsecs b) * unat (bpbBytesPerSec b)"

primrec copyfat_loop ::
  "nat \<Rightarrow> nat \<Rightarrow> nat \<Rightarrow> nat \<Rightarrow> cint \<Rightarrow> 'a fsck_scheme \<Rightarrow> (cint \<times> 'a fsck_scheme) option" where
  "copyfat_loop 0 tailsize src_off dst_off ret s = Some (ret, s)"
| "copyfat_loop (Suc k) tailsize src_off dst_off ret s =
    (let rwsize = (if k = 0 then tailsize else fat32_cache_size);
         src' = src_off + fat32_cache_size; dst' = dst_off + fat32_cache_size
     in do {
       ((ok, b), s) \<leftarrow> seek_read src_off rwsize 0 (fatbuf (fat s)) s;
       let s = s\<lparr>fat := (fat s)\<lparr>fatbuf := b\<rparr>\<rparr>;
       if \<not> ok \<and> ret = FSOK then copyfat_loop k tailsize src' dst' FSFATAL s
       else do {
         (ok, s) \<leftarrow> seek_write dst_off rwsize 0 (fatbuf (fat s)) s;
         copyfat_loop k tailsize src' dst' (if \<not> ok \<and> ret = FSOK then FSERROR else ret) s } })"

definition copyfat :: "u32 \<Rightarrow> 'a fsck_scheme \<Rightarrow> (cint \<times> 'a fsck_scheme) option" where
  "copyfat n s =
    (let blobs = (fatsize (fat s) + (fat32_cache_size - 1)) div fat32_cache_size;
         tailsize = fatsize (fat s) mod fat32_cache_size;
         tailsize = (if tailsize = 0 then fat32_cache_size else tailsize)
     in copyfat_loop blobs tailsize (fat32_offset (fat s)) (fat_copy_off (boot s) n) FSOK s)"

primrec writefat_flush ::
  "fat32_cache_entry list \<Rightarrow> cint \<Rightarrow> 'a fsck_scheme \<Rightarrow>
     ((cint \<times> fat32_cache_entry list) \<times> 'a fsck_scheme) option" where
  "writefat_flush [] ret s = Some ((ret, []), s)"
| "writefat_flush (e # es) ret s = do {
     ((r, e), s) \<leftarrow> fat_flush_fat32_cache_entry e s;
     ((ret, es), s) \<leftarrow> writefat_flush es (if r \<noteq> FSOK \<and> ret = FSOK then FSFATAL else ret) s;
     Some ((ret, e # es), s) }"

primrec writefat_copies :: "u32 list \<Rightarrow> cint \<Rightarrow> 'a fsck_scheme \<Rightarrow> (cint \<times> 'a fsck_scheme) option" where
  "writefat_copies [] ret s = Some (ret, s)"
| "writefat_copies (i # is) ret s = do {
     (r, s) \<leftarrow> copyfat i s;
     writefat_copies is (if r \<noteq> FSOK then FSERROR else ret) s }"

text \<open>The buffer behind \<^verbatim>\<open>fat->fatbuf\<close> that \<^verbatim>\<open>write\<close> reads from.\<close>

definition fat_image :: "'a fsck_scheme \<Rightarrow> buf option" where
  "fat_image s =
    (if is_mmapped (fat s) then
       (if mmap_off (fat s) + fatsize (fat s) \<le> blen (dev s)
        then Some \<lparr>blen = fatsize (fat s), bdat = \<lambda>i. bdat (dev s) (mmap_off (fat s) + i)\<rparr>
        else None)
     else Some (fatbuf (fat s)))"

primrec writefat_plain :: "u32 list \<Rightarrow> cint \<Rightarrow> 'a fsck_scheme \<Rightarrow> (cint \<times> 'a fsck_scheme) option" where
  "writefat_plain [] ret s = Some (ret, s)"
| "writefat_plain (i # is) ret s = do {
     b \<leftarrow> fat_image s;
     (ok, s) \<leftarrow> seek_write (fat_copy_off (boot s) i) (fatsize (fat s)) 0 b s;
     writefat_plain is (if \<not> ok \<and> ret = FSOK then (if i = 0 then FSFATAL else FSERROR) else ret) s }"

definition writefat :: "'a fsck_scheme \<Rightarrow> (cint \<times> 'a fsck_scheme) option" where
  "writefat s =
    (if use_cache (fat s) then do {
       ((ret, es), s) \<leftarrow> writefat_flush (fat32_cache_head (fat s)) FSOK s;
       let s = set_cache es s;
       if ret \<noteq> FSOK then Some (ret, s)
       else writefat_copies (map of_nat [1..<unat (bpbFATs (boot s))]) ret s }
     else writefat_plain
       (map of_nat [(if is_mmapped (fat s) then 1 else 0)..<unat (bpbFATs (boot s))]) FSOK s)"

end
