(* ===== verification/Fsck_Chain.thy ===== *)
theory Fsck_Chain
  imports Fsck_FatOps
begin

text \<open>
  Walking cluster chains. A chain that starts at a cluster nobody points to, in a table where no
  two clusters share a successor, ends (\<open>head_chain_exists\<close>). On a chain that ends,
  \<open>checkchain\<close> returns, counts it and repairs its end, and \<open>clearchain\<close> releases exactly its
  clusters; on a chain that runs into a cycle \<open>checkchain\<close> does not return.
\<close>


section \<open>When a chain ends\<close>

lemma chain_iterates:
  "(\<And>k. k < n \<Longrightarrow> ok ((f ^^ k) c)) \<Longrightarrow> \<not> ok ((f ^^ n) c) \<Longrightarrow>
   chain f ok c (map (\<lambda>k. (f ^^ k) c) [0..<n]) ((f ^^ n) c)"
proof (induction n arbitrary: c)
  case (Suc n)
  have "chain f ok (f c) (map (\<lambda>k. (f ^^ k) (f c)) [0..<n]) ((f ^^ n) (f c))"
  proof (rule Suc.IH)
    show "ok ((f ^^ k) (f c))" if "k < n" for k
      using Suc.prems(1) [of "Suc k"] that by (simp add: funpow_swap1)
    show "\<not> ok ((f ^^ n) (f c))" using Suc.prems(2) by (simp add: funpow_swap1)
  qed
  moreover have "map (\<lambda>k. (f ^^ k) c) [0..<Suc n] = c # map (\<lambda>k. (f ^^ k) (f c)) [0..<n]"
    by (simp add: upt_conv_Cons map_Suc_upt [symmetric] funpow_swap1 del: upt_Suc)
  ultimately show ?case using Suc.prems(1) [of 0] by (simp add: funpow_swap1)
qed simp

lemma injective_iterates:
  assumes inj: "\<And>x y. ok x \<Longrightarrow> ok y \<Longrightarrow> f x = f y \<Longrightarrow> ok (f x) \<Longrightarrow> x = y"
    and nopred: "\<And>x. ok x \<Longrightarrow> f x \<noteq> h" and all: "\<And>k. ok ((f ^^ k) h)"
  shows "(f ^^ i) h = (f ^^ (i + Suc d)) h \<Longrightarrow> False"
proof (induction i)
  case 0
  have "ok ((f ^^ d) h)" by (rule all)
  with nopred 0 show False by fastforce
next
  case (Suc i)
  have "f ((f ^^ i) h) = f ((f ^^ (i + Suc d)) h)" using Suc.prems by simp
  moreover have "ok (f ((f ^^ i) h))" using all [of "Suc i"] by simp
  ultimately have "(f ^^ i) h = (f ^^ (i + Suc d)) h" using inj all by metis
  then show False by (rule Suc.IH)
qed

lemma head_chain_exists:
  fixes f :: "cl_t \<Rightarrow> cl_t"
  assumes inj: "\<And>x y. ok x \<Longrightarrow> ok y \<Longrightarrow> f x = f y \<Longrightarrow> ok (f x) \<Longrightarrow> x = y"
    and nopred: "\<And>x. ok x \<Longrightarrow> f x \<noteq> h" and h: "ok h"
  shows "\<exists>ds e. chain f ok h (h # ds) e"
proof -
  have "\<exists>k. \<not> ok ((f ^^ k) h)"
  proof (rule ccontr)
    assume "\<nexists>k. \<not> ok ((f ^^ k) h)"
    then have all: "\<And>k. ok ((f ^^ k) h)" by blast
    have "\<not> inj (\<lambda>k. (f ^^ k) h)"
      using finite_imageD [of "\<lambda>k. (f ^^ k) h" UNIV] finite_subset [OF subset_UNIV, of "range (\<lambda>k. (f ^^ k) h)"]
      by auto
    then obtain i j where ij: "i \<noteq> j" "(f ^^ i) h = (f ^^ j) h" by (auto simp: inj_def)
    define a d where "a = min i j" and "d = max i j - min i j - 1"
    have "(f ^^ a) h = (f ^^ (a + Suc d)) h"
      using ij by (cases "i < j") (simp_all add: a_def d_def min_def max_def)
    then show False by (rule injective_iterates [where ok = ok, rotated 3]) (use inj nopred all in blast)+
  qed
  define n where "n = (LEAST k. \<not> ok ((f ^^ k) h))"
  have n: "\<not> ok ((f ^^ n) h)" unfolding n_def by (rule LeastI_ex) fact
  have all: "ok ((f ^^ k) h)" if "k < n" for k using not_less_Least [OF that [unfolded n_def]] by simp
  have c: "chain f ok h (map (\<lambda>k. (f ^^ k) h) [0..<n]) ((f ^^ n) h)"
    by (rule chain_iterates) (fact all, fact n)
  from h n have "0 < n" by (cases n) auto
  with c show ?thesis by (cases "map (\<lambda>k. (f ^^ k) h) [0..<n]") auto
qed

section \<open>The walk\<close>

lemma chain_walk_total:
  assumes "table_inv s" "chain (fat_view s) (valid_cl s) nx cs e"
  shows "\<exists>t. chain_walk prev cur nx n s =
      Some ((last (prev # butlast (cur # cs)), last (cur # cs), e, n + of_nat (length cs)), t) \<and>
    table_inv t \<and> tbl_frame s t \<and> fat_view t = fat_view s"
  using assms
proof (induction cs arbitrary: s prev cur nx n)
  case Nil
  then show ?case by (subst chain_walk.simps) auto
next
  case (Cons d cs)
  then have d: "d = nx" "valid_cl s nx" by auto
  obtain t where t: "fat_get_cl_next nx s = Some (fat_view s nx, t)" "table_inv t" "tbl_frame s t"
    "fat_view t = fat_view s"
    using fat_get_law [OF Cons.prems(1) d(2)] by blast
  have "chain (fat_view t) (valid_cl t) (fat_view s nx) cs e"
    using Cons.prems(2) tbl.frame_usable [OF t(3)] t(4) by simp
  from Cons.IH [OF t(2) this, of cur nx "n + 1"] obtain u where
    "chain_walk cur nx (fat_view s nx) (n + 1) t =
      Some ((last (cur # butlast (nx # cs)), last (nx # cs), e, n + 1 + of_nat (length cs)), u)"
    "table_inv u" "tbl_frame t u" "fat_view u = fat_view t" by blast
  then show ?case
    using t d tbl_frame_trans by (subst chain_walk.simps) (auto simp: add.assoc)
qed

lemma chain_walk_cycle:
  assumes "chain_walk p c x n s = Some y"
  shows "\<not> (table_inv s \<and> x \<in> C \<and> (\<forall>d\<in>C. valid_cl s d \<and> fat_view s d \<in> C))"
  using assms
proof (induction rule: chain_walk.raw_induct [rotated, consumes 1, case_names step])
  case (step f p c x n s y)
  show ?case
  proof
    assume a: "table_inv s \<and> x \<in> C \<and> (\<forall>d\<in>C. valid_cl s d \<and> fat_view s d \<in> C)"
    then obtain t where t: "fat_get_cl_next x s = Some (fat_view s x, t)" "table_inv t" "tbl_frame s t"
      "fat_view t = fat_view s"
      using fat_get_law by blast
    with a step.hyps have "f c x (fat_view s x) (n + 1) t = Some y" by auto
    from step.IH [OF this] a t tbl.frame_usable [OF t(3)] show False by auto
  qed
qed

section \<open>checkchain()\<close>

text \<open>\<open>same_table s t\<close>: nothing that determines the table differs, only the heads, counters or options.\<close>

definition same_table :: "'a fsck_scheme \<Rightarrow> 'b fsck_scheme \<Rightarrow> bool" where
  "same_table s t \<longleftrightarrow> dev t = dev s \<and> io_faults t = io_faults s \<and>
     NumClusters (boot t) = NumClusters (boot s) \<and> fatbuf (fat t) = fatbuf (fat s) \<and>
     accessor (fat t) = accessor (fat s) \<and> is_mmapped (fat t) = is_mmapped (fat s) \<and>
     mmap_off (fat t) = mmap_off (fat s) \<and> fatsize (fat t) = fatsize (fat s) \<and>
     fat32_cache_head (fat t) = fat32_cache_head (fat s) \<and>
     fat32_offset (fat t) = fat32_offset (fat s) \<and> fat32_lastaddr (fat t) = fat32_lastaddr (fat s)"

lemma same_table_simps:
  assumes "same_table s t"
  shows "valid_cl t = valid_cl s" "fat_view t = fat_view s" "table_inv t = table_inv s"
    "cl_mask t = cl_mask s"
proof -
  note st = assms [unfolded same_table_def]
  have ld: "fat_ld t = fat_ld s" using st by (simp add: fat_ld_def fun_eq_iff)
  have cb: "cached_byte t = cached_byte s" by (simp add: st cached_byte_def fun_eq_iff split: option.split)
  show v: "valid_cl t = valid_cl s" using st by (simp add: valid_cl_def fun_eq_iff)
  show "cl_mask t = cl_mask s" using st by (simp add: cl_mask_def)
  show "fat_view t = fat_view s"
    by (simp add: fun_eq_iff fat_view_def st ld cb fat_get_fat12_next_def fat_get_fat16_next_def
        fat_get_fat32_next_def cached_entry_def split: accessors.split)
  have "cache_len t = cache_len s" by (simp add: cache_len_def st)
  then have "entry_ok t = entry_ok s" "cache_inv t = cache_inv s" "flat_mem_ok t = flat_mem_ok s"
    by (simp_all add: fun_eq_iff entry_ok_def cache_inv_def flat_mem_ok_def st)
  then show "table_inv t = table_inv s" by (simp add: table_inv_def st v split: accessors.split)
qed

lemma same_table_upd [simp]:
  "same_table s (s\<lparr>fat := (fat s)\<lparr>headbitmap := lb\<rparr>\<rparr>)"
  "NumClusters b = NumClusters (boot s) \<Longrightarrow> same_table s (s\<lparr>boot := b\<rparr>)"
  "same_table s (snd (ask d s))"
  by (simp_all add: same_table_def ask_def Let_def split: prod.splits)

abbreviation fat_heads :: "'a fsck_scheme \<Rightarrow> nat set" where
  "fat_heads s \<equiv> heads (headbitmap (fat s))"

definition answers_yes :: "'a env_scheme \<Rightarrow> bool" where
  "answers_yes s \<longleftrightarrow> alwaysyes s \<and> \<not> alwaysno s \<and> \<not> rdonly s"

lemma ask_yes: "answers_yes s \<Longrightarrow> ask d s = (True, s)"
  by (simp add: answers_yes_def ask_def)

lemma answers_yes_frame: "tbl_frame s t \<Longrightarrow> answers_yes t = answers_yes s"
  by (auto simp: answers_yes_def tbl_frame_def opts_def)

text \<open>The prefix of \<open>checkchain\<close>: the head is claimed and the chain is walked to its end.\<close>

definition claimed :: "cl_t \<Rightarrow> 'a fsck_scheme \<Rightarrow> 'a fsck_scheme \<Rightarrow> bool" where
  "claimed h s t \<longleftrightarrow> table_inv t \<and> fat_view t = fat_view s \<and> valid_cl t = valid_cl s \<and>
     fat_heads t = fat_heads s - {unat h} \<and> boot t = boot s \<and> cl_mask t = cl_mask s \<and>
     opts t = opts s \<and> bm_cap (headbitmap (fat t)) = bm_cap (headbitmap (fat s)) \<and>
     fsck.more t = fsck.more s"

lemma claimed_opts:
  assumes "claimed h s t"
  shows "answers_yes t = answers_yes s" "rdonly t = rdonly s"
  using assms by (auto simp: claimed_def answers_yes_def opts_def)

lemma checkchain_walk:
  assumes inv: "table_inv s" and h: "valid_cl s h" "unat h \<in> fat_heads s"
    and ch: "chain (fat_view s) (valid_cl s) h (h # ds) e"
  shows "\<exists>t. checkchain h s = checkchain_fix (last (h # butlast (h # ds))) (last (h # ds)) e
      (of_nat (length ds)) t \<and> claimed h s t"
proof -
  obtain lb where lb: "bitmap_clear (headbitmap (fat s)) h = Some lb" "heads lb = fat_heads s - {unat h}"
    "bm_cap lb = bm_cap (headbitmap (fat s))"
    using bitmap_clear_heads [OF h(2)] by metis
  have get: "bitmap_get (headbitmap (fat s)) h = Some True"
    using h(2) by (subst bitmap_get_heads) (auto simp: heads_def)
  define u where "u = s\<lparr>fat := (fat s)\<lparr>headbitmap := lb\<rparr>\<rparr>"
  have su: "same_table s u" by (simp add: u_def)
  note us = same_table_simps [OF su]
  obtain v where v: "fat_get_cl_next h u = Some (fat_view s h, v)" "table_inv v" "tbl_frame u v"
    "fat_view v = fat_view u"
    using fat_get_law [of u h] us inv h(1) by auto
  have "chain (fat_view v) (valid_cl v) (fat_view s h) ds e"
    using ch tbl.frame_usable [OF v(3)] v(4) us by simp
  from chain_walk_total [OF v(2) this, of h h 0] obtain t where
    t: "chain_walk h h (fat_view s h) 0 v =
      Some ((last (h # butlast (h # ds)), last (h # ds), e, of_nat (length ds)), t)"
    "table_inv t" "tbl_frame v t" "fat_view t = fat_view v" by auto
  have "tbl_frame u t" using v(3) t(3) by (rule tbl_frame_trans)
  note f = frame_simps [OF this] this [unfolded tbl_frame_def]
  have "claimed h s t"
    using f t(2,4) v(4) us lb by (auto simp: claimed_def u_def fun_eq_iff opts_def)
  moreover have "checkchain h s = checkchain_fix (last (h # butlast (h # ds))) (last (h # ds)) e
      (of_nat (length ds)) t"
    using h(1) get lb(1) v(1) t(1)
    by (simp add: checkchain_def fat_is_cl_head_def fat_clear_cl_head_def u_def [symmetric])
  ultimately show ?thesis by blast
qed

lemma chain_length:
  assumes "chain f ok c cs e"
  shows "length cs \<le> 2 ^ 32"
proof -
  have "card (set cs) \<le> card (UNIV :: cl_t set)" by (rule card_mono) simp_all
  then show ?thesis using chain_distinct [OF assms] by (simp add: distinct_card card_word)
qed

lemma chain_length_pos:
  assumes "chain f ok c (xs @ ys) e"
  shows "(0 :: u64) < of_nat (length xs) \<longleftrightarrow> xs \<noteq> []"
proof -
  have "length xs < 2 ^ 64" using chain_length [OF assms] by simp
  then have "unat (of_nat (length xs) :: u64) = length xs" by (simp add: unsigned_of_nat take_bit_nat_eq_self)
  then show ?thesis by (simp add: word_less_nat_alt)
qed

text \<open>What the repair keeps of a chain \<open>cs\<close> that ends in \<open>e\<close> without an end mark.\<close>

definition kept :: "cl_t list \<Rightarrow> cl_t \<Rightarrow> cl_t list" where
  "kept cs e = (if e = CLUST_FREE \<or> e \<ge> CLUST_RSRVD then butlast cs else cs)"

lemma checkchain_fix_asks:
  assumes "\<not> e \<ge> CLUST_EOFS" and "answers_yes s"
  shows "checkchain_fix p c e n s = do {
      (r, t) \<leftarrow> fat_set_cl_next (if e = CLUST_FREE \<or> e \<ge> CLUST_RSRVD then p else c)
        (if (0 :: u64) < (if e = CLUST_FREE \<or> e \<ge> CLUST_RSRVD then n else n + 1)
         then CLUST_EOF else CLUST_FREE) s;
      Some ((r OR FSFATMOD, if e = CLUST_FREE \<or> e \<ge> CLUST_RSRVD then n else n + 1), t) }"
  using assms(1) by (simp add: checkchain_fix_def Let_def ask_yes [OF assms(2)])

lemma checkchain_fix_yes:
  assumes inv: "table_inv s" and yes: "answers_yes s" and e: "\<not> e \<ge> CLUST_EOFS"
    and ch: "chain (fat_view s) (valid_cl s) h (h # ds) e"
  shows "\<exists>t. checkchain_fix (last (h # butlast (h # ds))) (last (h # ds)) e (of_nat (length ds)) s =
      Some ((FSFATMOD, of_nat (length (kept (h # ds) e))), t) \<and> table_inv t \<and> tbl_frame s t \<and>
    (if kept (h # ds) e = [] then fat_view t h = CLUST_FREE
     else chain (fat_view t) (valid_cl t) h (kept (h # ds) e) CLUST_EOF) \<and>
    (\<forall>d. valid_cl s d \<and> d \<notin> set (h # ds) \<longrightarrow> fat_view t d = fat_view s d)"
proof -
  let ?ks = "kept (h # ds) e"
  have rw: "\<not> rdonly s" using yes by (simp add: answers_yes_def)
  let ?c = "if ?ks = [] then h else last ?ks"
  let ?x = "if ?ks = [] then CLUST_FREE else CLUST_EOF"
  have c: "?c \<in> set (h # ds)"
    by (auto simp: kept_def split: if_splits dest: in_set_butlastD last_in_set)
  have vc: "valid_cl s ?c" using chain_all_ok [OF ch c] .
  have nx: "norm_entry (cl_mask s) ?x = ?x" by simp
  obtain t where t: "fat_set_cl_next ?c ?x s = Some (FSOK, t)" "table_inv t" "tbl_frame s t"
    and v: "\<And>d. valid_cl s d \<Longrightarrow> fat_view t d = (if d = ?c then ?x else fat_view s d)"
    using fat_set_law [OF inv vc rw, of ?x] unfolding nx by blast
  obtain zs where zs: "h # ds = ?ks @ zs"
    by (metis append_butlast_last_id kept_def list.distinct(1) append_Nil2)
  have pos: "(0 :: u64) < of_nat (length ?ks) \<longleftrightarrow> ?ks \<noteq> []"
    using chain_length_pos [of "fat_view s" "valid_cl s" h ?ks zs e] ch zs by simp
  have len: "(if e = CLUST_FREE \<or> e \<ge> CLUST_RSRVD then of_nat (length ds) else of_nat (length ds) + 1)
      = (of_nat (length ?ks) :: u64)"
    by (simp add: kept_def)
  have cur: "(if e = CLUST_FREE \<or> e \<ge> CLUST_RSRVD then last (h # butlast (h # ds)) else last (h # ds)) = ?c"
    by (simp add: kept_def)
  have "checkchain_fix (last (h # butlast (h # ds))) (last (h # ds)) e (of_nat (length ds)) s =
      Some ((FSFATMOD, of_nat (length ?ks)), t)"
    unfolding checkchain_fix_asks [OF e yes] cur len pos using t(1) by (cases "?ks = []") simp_all
  moreover have "chain (fat_view t) (valid_cl t) h ?ks CLUST_EOF" if "?ks \<noteq> []"
  proof -
    define as where "as = butlast ?ks"
    have as: "as @ [last ?ks] = ?ks" using that by (simp add: as_def)
    have "h # ds = as @ [last ?ks] @ zs" by (metis as zs append_assoc)
    then have ch': "chain (fat_view s) (valid_cl s) h (as @ [last ?ks] @ zs) e" using ch by argo
    have notin: "last ?ks \<notin> set as" using chain_distinct [OF ch'] by auto
    have "valid_cl s x" if "x \<in> set as \<or> x = last ?ks" for x using that chain_all_ok [OF ch'] by auto
    then have "chain (fat_view t) (valid_cl s) h (as @ [last ?ks]) CLUST_EOF"
      using that notin v by (intro chain_truncate [OF ch']) auto
    then show ?thesis unfolding as using tbl.frame_usable [OF t(3)] by simp
  qed
  moreover have "fat_view t h = CLUST_FREE" if "?ks = []" using that v [of h] vc by simp
  moreover have "fat_view t d = fat_view s d" if "valid_cl s d" "d \<notin> set (h # ds)" for d
    using v [OF that(1)] that(2) c by auto
  ultimately show ?thesis using t(2,3) by (intro exI [of _ t]) auto
qed

lemma checkchain_returns:
  assumes "table_inv s" and "unat h \<in> fat_heads s" and "answers_yes s"
    and "chain (fat_view s) (valid_cl s) h (h # ds) e"
  shows "\<exists>r n t. checkchain h s = Some ((r, n), t) \<and> r \<in> {FSOK, FSFATMOD}"
proof -
  have "valid_cl s h" using assms(4) by simp
  from checkchain_walk [OF assms(1) this assms(2,4)] obtain u where
    u: "checkchain h s = checkchain_fix (last (h # butlast (h # ds))) (last (h # ds)) e (of_nat (length ds)) u"
    "claimed h s u" by blast
  have v: "table_inv u" "answers_yes u" "chain (fat_view u) (valid_cl u) h (h # ds) e"
    using u(2) claimed_opts [OF u(2)] assms by (simp_all add: claimed_def)
  show ?thesis
  proof (cases "e \<ge> CLUST_EOFS")
    case True
    then show ?thesis unfolding u(1) checkchain_fix_def by simp
  next
    case False
    from checkchain_fix_yes [OF v(1,2) False v(3)] show ?thesis unfolding u(1) by blast
  qed
qed

section \<open>A sample table\<close>

text \<open>
  A FAT16 table of four clusters for concrete runs: 2 continues with 3, which ends the chain; 4 is
  free; 5 points to itself.
\<close>

definition sample_tab :: "nat \<Rightarrow> byte" where
  "sample_tab = (\<lambda>_. 0)(4 := 3, 6 := 0xff, 7 := 0xff, 10 := 5)"

definition sample_fsck :: "u64 \<Rightarrow> fsck" where
  "sample_fsck hb = env.extend (sample_env null_buf\<lparr>alwaysyes := True\<rparr>)
     (fsck.fields (zero_boot\<lparr>NumClusters := 6, ClustMask := CLUST16_MASK\<rparr>)
       (zero_fat\<lparr>fatbuf := \<lparr>blen = 512, bdat = sample_tab\<rparr>, accessor := Fat16, fatsize := 512,
          headbitmap := \<lparr>bmap = [hb], bcount = 6\<rparr>\<rparr>))"

lemmas sample_simps = sample_fsck_def sample_env_def zero_boot_def zero_fat_def env.defs fsck.defs

lemma sample_valid: "valid_cl (sample_fsck hb) c \<longleftrightarrow> c \<in> {2, 3, 4, 5}"
proof -
  have "valid_cl (sample_fsck hb) c \<longleftrightarrow> 2 \<le> unat c \<and> unat c < 6"
    by (simp add: valid_cl_def sample_simps word_le_nat_alt word_less_nat_alt)
  also have "\<dots> \<longleftrightarrow> unat c \<in> {2, 3, 4, 5}" by auto
  also have "\<dots> \<longleftrightarrow> c \<in> {2, 3, 4, 5}" by (auto simp: word_unat_eq_iff)
  finally show ?thesis .
qed

lemma sample_inv: "table_inv (sample_fsck hb)"
proof -
  have "fat_get_fat16_ptr c + 2 \<le> 512" if "valid_cl (sample_fsck hb) c" for c
    using that unfolding sample_valid by (auto simp: fat_get_fat16_ptr_def)
  then show ?thesis by (simp add: table_inv_def sample_simps flat_mem_ok_def valid_cl_def)
qed

lemma sample_view:
  "fat_view (sample_fsck hb) 2 = 3" "fat_view (sample_fsck hb) 3 = CLUST_EOF"
  "fat_view (sample_fsck hb) 4 = 0" "fat_view (sample_fsck hb) 5 = 5"
  by (simp_all add: fat_view_def sample_simps fat_get_fat16_next_def le16dec_def fat_ld_def ld_def
      fat_get_fat16_ptr_def sample_tab_def)

lemma sample_heads: "fat_heads (sample_fsck (-1)) = {..<64}"
  by (auto simp: heads_def bm_cap_def sample_simps)

lemma sample_mask: "cl_mask (sample_fsck hb) = CLUST16_MASK"
  by (simp add: cl_mask_def sample_simps)

lemma sample_opts: "answers_yes (sample_fsck hb)" "\<not> rdonly (sample_fsck hb)"
  by (simp_all add: answers_yes_def sample_simps)

section \<open>Writing entries\<close>

text \<open>
  C5: set and get. When the table invariant holds (for a cached table: no I/O fails, its size is not an
  odd multiple of the chunk size, its last chunk is on the device) and the volume is writable,
  \<^verbatim>\<open>fat_set_cl_next()\<close> succeeds on every valid cluster, the entry then reads back as the value written,
  reduced to the width of the table and with the reserved range sign-extended, and every other entry
  reads back as before, although FAT12 packs two entries into three bytes and the cache moves chunks
  between memory and disk.
\<close>

theorem fat_set_then_get:
  assumes "table_inv s" and "valid_cl s c" and "valid_cl s d" and "\<not> rdonly s"
  shows "\<exists>t u. fat_set_cl_next c x s = Some (FSOK, t) \<and>
    fat_get_cl_next d t = Some (if d = c then norm_entry (cl_mask s) x else fat_view s d, u)"
  by (rule tbl.put_get [OF assms])

theorem fat_set_then_get_witness:
  "\<exists>t u. fat_set_cl_next 3 0x12345 (sample_fsck 0) = Some (FSOK, t) \<and> fat_get_cl_next 3 t = Some (0x2345, u)"
  using fat_set_then_get [where s = "sample_fsck 0" and c = 3 and d = 3 and x = "0x12345"]
  by (auto simp: sample_inv sample_valid sample_opts sample_mask norm_entry_def)

section \<open>What checkchain() does\<close>

text \<open>
  C12: \<^verbatim>\<open>checkchain()\<close> on a head whose chain carries an end mark returns \<^verbatim>\<open>FSOK\<close>, reports exactly
  the number of clusters of the chain, removes the head from the head bitmap and changes no entry
  of the table.
\<close>

theorem checkchain_counts:
  assumes "table_inv s" and "unat h \<in> fat_heads s"
    and "chain (fat_view s) (valid_cl s) h (h # ds) e" and "e \<ge> CLUST_EOFS"
  shows "\<exists>t. checkchain h s = Some ((FSOK, of_nat (length (h # ds))), t) \<and> table_inv t \<and>
    fat_view t = fat_view s \<and> fat_heads t = fat_heads s - {unat h} \<and> boot t = boot s"
proof -
  have "valid_cl s h" using assms(3) by simp
  from checkchain_walk [OF assms(1) this assms(2,3)] obtain t where
    "checkchain h s = checkchain_fix (last (h # butlast (h # ds))) (last (h # ds)) e (of_nat (length ds)) t"
    "claimed h s t" by blast
  then show ?thesis using assms(4) by (simp add: checkchain_fix_def claimed_def add.commute)
qed

theorem checkchain_counts_witness:
  "\<exists>t. checkchain 2 (sample_fsck (-1)) = Some ((FSOK, 2), t) \<and> fat_heads t = {..<64} - {2}"
  using checkchain_counts [of "sample_fsck (-1)" 2 "[3]" CLUST_EOF]
  by (auto simp: sample_inv sample_heads sample_view sample_valid)

text \<open>
  C15: \<^verbatim>\<open>checkchain()\<close> on a head whose chain has no end mark, with repairs accepted, returns
  \<^verbatim>\<open>FSFATMOD\<close> and truncates: the last cluster is dropped when it is itself free, bad or reserved,
  and kept when it points out of range. What is left is a chain with an end mark whose length is
  the size reported, or, when nothing is left, a free head. No entry off the chain changes.
\<close>

theorem checkchain_repairs:
  assumes "table_inv s" and "unat h \<in> fat_heads s"
    and "chain (fat_view s) (valid_cl s) h (h # ds) e" and "\<not> e \<ge> CLUST_EOFS" and "answers_yes s"
  shows "\<exists>t. checkchain h s = Some ((FSFATMOD, of_nat (length (kept (h # ds) e))), t) \<and> table_inv t \<and>
    (if kept (h # ds) e = [] then fat_view t h = CLUST_FREE
     else chain (fat_view t) (valid_cl t) h (kept (h # ds) e) CLUST_EOF) \<and>
    (\<forall>d. valid_cl s d \<and> d \<notin> set (h # ds) \<longrightarrow> fat_view t d = fat_view s d) \<and>
    fat_heads t = fat_heads s - {unat h}"
proof -
  have "valid_cl s h" using assms(3) by simp
  from checkchain_walk [OF assms(1) this assms(2,3)] obtain u where
    u: "checkchain h s = checkchain_fix (last (h # butlast (h # ds))) (last (h # ds)) e (of_nat (length ds)) u"
    "claimed h s u" by blast
  have "table_inv u" "answers_yes u" "chain (fat_view u) (valid_cl u) h (h # ds) e"
    using u(2) claimed_opts [OF u(2)] assms by (simp_all add: claimed_def)
  from checkchain_fix_yes [OF this(1,2) assms(4) this(3)] obtain t where
    t: "checkchain h s = Some ((FSFATMOD, of_nat (length (kept (h # ds) e))), t)" "table_inv t" "tbl_frame u t"
    "if kept (h # ds) e = [] then fat_view t h = CLUST_FREE
     else chain (fat_view t) (valid_cl t) h (kept (h # ds) e) CLUST_EOF"
    "\<forall>d. valid_cl u d \<and> d \<notin> set (h # ds) \<longrightarrow> fat_view t d = fat_view u d"
    unfolding u(1) by blast
  then show ?thesis using u(2) frame_simps [OF t(3)] by (intro exI [of _ t]) (simp add: claimed_def)
qed

theorem checkchain_repairs_witness:
  "\<exists>t. checkchain 4 (sample_fsck (-1)) = Some ((FSFATMOD, 0), t) \<and> fat_view t 4 = CLUST_FREE"
  using checkchain_repairs [of "sample_fsck (-1)" 4 "[]" CLUST_FREE]
  by (auto simp: sample_inv sample_heads sample_view sample_valid sample_opts kept_def)

text \<open>
  \<^verbatim>\<open>checkchain()\<close> never returns when the chain of its head runs into a cycle: it stays in the
  set \<open>C\<close> of valid clusters that is closed under the next-cluster relation.
\<close>

lemma checkchain_cycle_hangs:
  assumes "table_inv s" and "unat h \<in> fat_heads s" and "valid_cl s h" and "fat_view s h \<in> C"
    and "\<forall>d\<in>C. valid_cl s d \<and> fat_view s d \<in> C"
  shows "checkchain h s = None"
proof -
  obtain lb where lb: "bitmap_clear (headbitmap (fat s)) h = Some lb"
    using bitmap_clear_heads [OF assms(2)] by metis
  have get: "bitmap_get (headbitmap (fat s)) h = Some True"
    using assms(2) by (subst bitmap_get_heads) (auto simp: heads_def)
  define u where "u = s\<lparr>fat := (fat s)\<lparr>headbitmap := lb\<rparr>\<rparr>"
  have "same_table s u" by (simp add: u_def)
  note us = same_table_simps [OF this]
  obtain v where v: "fat_get_cl_next h u = Some (fat_view s h, v)" "table_inv v" "tbl_frame u v"
    "fat_view v = fat_view u"
    using fat_get_law [of u h] us assms(1,3) by auto
  have "chain_walk h h (fat_view s h) 0 v = None"
    using chain_walk_cycle [of h h "fat_view s h" 0 v _ C] v(2,4) us assms(4,5) tbl.frame_usable [OF v(3)]
    by (metis not_Some_eq)
  then show ?thesis
    using assms(3) get lb v(1)
    by (simp add: checkchain_def fat_is_cl_head_def fat_clear_cl_head_def u_def [symmetric])
qed

lemma checkchain_self_loop: "checkchain 5 (sample_fsck (-1)) = None"
  using checkchain_cycle_hangs [of "sample_fsck (-1)" 5 "{5}"]
  by (auto simp: sample_inv sample_heads sample_view sample_valid)

section \<open>clearchain()\<close>

text \<open>
  C16: \<^verbatim>\<open>clearchain()\<close> on a chain that ends frees exactly the clusters of the chain, adds their
  number to the free count, and changes nothing else of the table or the head bitmap.
\<close>

theorem clearchain_frees:
  assumes "table_inv s" and "\<not> rdonly s" and "chain (fat_view s) (valid_cl s) h cs e"
  shows "\<exists>t. clearchain h s = Some ((), t) \<and> table_inv t \<and>
    (\<forall>d. valid_cl s d \<longrightarrow> fat_view t d = (if d \<in> set cs then CLUST_FREE else fat_view s d)) \<and>
    boot t = (boot s)\<lparr>NumFree := NumFree (boot s) + of_nat (length cs)\<rparr> \<and> fat_heads t = fat_heads s"
  using assms
proof (induction cs arbitrary: s h)
  case Nil
  then show ?case by (subst clearchain.simps) auto
next
  case (Cons d cs)
  then have d: "d = h" "valid_cl s h" by auto
  have dist: "d \<notin> set cs" using chain_distinct [OF Cons.prems(3)] by simp
  obtain u where u: "fat_get_cl_next h s = Some (fat_view s h, u)" "table_inv u" "tbl_frame s u"
    "fat_view u = fat_view s"
    using fat_get_law [OF Cons.prems(1) d(2)] by blast
  have "valid_cl u h" "\<not> rdonly u" using d Cons.prems frame_simps [OF u(3)] by simp_all
  from fat_set_law [OF u(2) this, of CLUST_FREE] obtain v where
    v: "fat_set_cl_next h CLUST_FREE u = Some (FSOK, v)" "table_inv v" "tbl_frame u v"
    "\<And>c. valid_cl u c \<Longrightarrow> fat_view v c = (if c = h then CLUST_FREE else fat_view u c)" by auto
  have sv: "tbl_frame s v" using u(3) v(3) by (rule tbl_frame_trans)
  note f = frame_simps [OF sv]
  define w where "w = v\<lparr>boot := (boot v)\<lparr>NumFree := NumFree (boot v) + 1\<rparr>\<rparr>"
  have "same_table v w" by (simp add: w_def)
  note ws = same_table_simps [OF this]
  have vw: "valid_cl w = valid_cl s" using ws(1) tbl.frame_usable [OF sv] by simp
  have vv: "fat_view w c = (if c = h then CLUST_FREE else fat_view s c)" if "valid_cl s c" for c
    using v(4) [of c] that u(4) ws(2) tbl.frame_usable [OF u(3)] by simp
  have "chain (fat_view s) (valid_cl s) (fat_view s h) cs e" using Cons.prems(3) by simp
  then have "chain (fat_view w) (valid_cl w) (fat_view s h) cs e"
    by (rule chain_cong) (use vv vw dist d chain_all_ok [OF Cons.prems(3)] in auto)
  from Cons.IH [OF _ _ this] v(2) ws(3) f(2) Cons.prems(2) obtain t where
    t: "clearchain (fat_view s h) w = Some ((), t)" "table_inv t"
    "\<forall>c. valid_cl w c \<longrightarrow> fat_view t c = (if c \<in> set cs then CLUST_FREE else fat_view w c)"
    "boot t = (boot w)\<lparr>NumFree := NumFree (boot w) + of_nat (length cs)\<rparr>" "fat_heads t = fat_heads w"
    by (auto simp: w_def)
  have "clearchain h s = Some ((), t)"
    using d u(1) v(1) t(1) by (subst clearchain.simps) (simp add: w_def)
  moreover have "\<forall>c. valid_cl s c \<longrightarrow> fat_view t c = (if c \<in> set (d # cs) then CLUST_FREE else fat_view s c)"
    using t(3) vw vv d by auto
  moreover have "boot t = (boot s)\<lparr>NumFree := NumFree (boot s) + of_nat (length (d # cs))\<rparr>"
    "fat_heads t = fat_heads s"
    using t(4,5) f by (simp_all add: w_def add.assoc)
  ultimately show ?case using t(2) by blast
qed

theorem clearchain_frees_witness:
  "\<exists>t. clearchain 2 (sample_fsck (-1)) = Some ((), t) \<and> NumFree (boot t) = 2 \<and> fat_view t 3 = CLUST_FREE"
  using clearchain_frees [of "sample_fsck (-1)" 2 "[2, 3]" CLUST_EOF]
  by (auto simp: sample_inv sample_heads sample_view sample_valid sample_opts) (simp add: sample_simps)

end
