(* ===== verification/Fsck_Decode.thy ===== *)
theory Fsck_Decode
  imports Fsck_Chain
begin

text \<open>
  The allocation table as it is stored: a packed array of 12-, 16- or 32-bit fields, the bits of a field
  in the order of the bits of the table. \<open>table_entry\<close> decodes a field from the bytes without the
  accessors of fat.c; the accessors compute it. And how the cache of a large FAT32 table is set up.
\<close>

section \<open>Fields\<close>

text \<open>The bytes of the table, wherever they are.\<close>

definition table_byte :: "'a fsck_scheme \<Rightarrow> nat \<Rightarrow> byte" where
  "table_byte s i = (if accessor (fat s) = Fat32_cached then the (cached_byte s i)
     else if is_mmapped (fat s) then bdat (dev s) (mmap_off (fat s) + i) else bdat (fatbuf (fat s)) i)"

text \<open>The first \<open>m\<close> bits of field \<open>c\<close> in an array of fields of \<open>w\<close> bits.\<close>

definition field_bits :: "(nat \<Rightarrow> byte) \<Rightarrow> nat \<Rightarrow> nat \<Rightarrow> nat \<Rightarrow> cl_t" where
  "field_bits B w m c = horner_sum of_bool 2 (map (\<lambda>k. bit (B ((w * c + k) div 8)) ((w * c + k) mod 8)) [0..<m])"

text \<open>The nine largest values, from the mark of bad clusters on, stand for the nine largest 32-bit values.\<close>

definition widen :: "nat \<Rightarrow> cl_t \<Rightarrow> cl_t" where
  "widen m e = (if 2 ^ m - 9 \<le> unat e then e OR NOT (mask m) else e)"

definition table_entry :: "'a fsck_scheme \<Rightarrow> cl_t \<Rightarrow> cl_t" where
  "table_entry s c = (case accessor (fat s) of
       Fat12 \<Rightarrow> widen 12 (field_bits (table_byte s) 12 12 (unat c))
     | Fat16 \<Rightarrow> widen 16 (field_bits (table_byte s) 16 16 (unat c))
     | _ \<Rightarrow> widen 28 (field_bits (table_byte s) 32 28 (unat c)))"

lemma bit_field:
  "bit (field_bits B w m c) k \<longleftrightarrow> k < 32 \<and> k < m \<and> bit (B ((w * c + k) div 8)) ((w * c + k) mod 8)"
  by (auto simp: field_bits_def bit_horner_sum_bit_word_iff)

lemma field_at:
  fixes p :: nat
  assumes "w * c = 8 * p + r"
  shows "(w * c + k) div 8 = p + (r + k) div 8" "(w * c + k) mod 8 = (r + k) mod 8"
  using assms by (simp_all add: add.assoc)

lemma field_eqI:
  assumes "w * c = 8 * p + r" "m \<le> 32" "\<And>k. k < m \<Longrightarrow> bit v (r + k) \<longleftrightarrow> bit (B (p + (r + k) div 8)) ((r + k) mod 8)"
  shows "drop_bit r v AND mask m = field_bits B w m c"
proof (rule bit_word_eqI)
  fix k assume "k < LENGTH(32)"
  then show "bit (drop_bit r v AND mask m) k \<longleftrightarrow> bit (field_bits B w m c) k"
    using assms(3) [of k] unfolding bit_field field_at [OF assms(1)] by (auto simp: bit_simps add.commute)
qed

lemma norm_widen:
  "norm_entry CLUST12_MASK v = widen 12 (v AND mask 12)" "norm_entry CLUST16_MASK v = widen 16 (v AND mask 16)"
  "norm_entry CLUST32_MASK v = widen 28 (v AND mask 28)"
  by (simp_all add: norm_entry_def widen_def Let_def word_le_nat_alt mask_eq_exp_minus_1)

lemma bit_le16:
  "j < 16 \<Longrightarrow> bit (ucast (push_bit 8 (ucast (B (p + 1))) OR ucast (B p) :: u16) :: u32) j \<longleftrightarrow> bit (B (p + j div 8 :: nat) :: byte) (j mod 8)"
  by (cases "j < 8") (auto simp: bit_simps div_if mod_if le_mod_geq dest: bit_imp_le_length)

lemma bit_le32:
  assumes "j < 32"
  shows "bit (push_bit 24 (ucast (B (p + 3))) OR push_bit 16 (ucast (B (p + 2))) OR push_bit 8 (ucast (B (p + 1))) OR ucast (B p) :: u32) j \<longleftrightarrow>
    bit (B (p + j div 8 :: nat) :: byte) (j mod 8)"
proof -
  have s: "bit (push_bit (8 * i) (ucast (b :: byte) :: u32)) j \<longleftrightarrow> j div 8 = i \<and> bit b (j mod 8)" for i b
  proof -
    have "bit b (j - 8 * i) \<Longrightarrow> j - 8 * i < 8" by (drule bit_imp_le_length) simp
    moreover have at: "j div 8 = i \<and> j mod 8 = j - 8 * i" if "8 * i \<le> j" "j - 8 * i < 8" for i :: nat using that by presburger
    moreover have "j div 8 = i \<Longrightarrow> 8 * i \<le> j" by linarith
    ultimately have "8 * i \<le> j \<and> bit b (j - 8 * i) \<longleftrightarrow> j div 8 = i \<and> bit b (j mod 8)"
      by (metis minus_mult_div_eq_mod)
    then show ?thesis using assms by (auto simp: bit_simps)
  qed
  have "j div 8 < 4" using assms by (simp add: less_mult_imp_div_less)
  then consider "j div 8 = 0" | "j div 8 = 1" | "j div 8 = 2" | "j div 8 = 3" by linarith
  then show ?thesis using s [of 0] s [of 1] s [of 2] s [of 3] by cases (auto simp: bit_or_iff)
qed

section \<open>The accessors\<close>

lemma fat_ld_table: "flat_mem_ok s \<Longrightarrow> accessor (fat s) \<noteq> Fat32_cached \<Longrightarrow> i < fatsize (fat s) \<Longrightarrow> fat_ld s i = Some (table_byte s i)"
  by (auto simp: fat_ld_def flat_mem_ok_def table_byte_def ld_def)

lemma le16dec_table:
  "flat_mem_ok s \<Longrightarrow> accessor (fat s) \<noteq> Fat32_cached \<Longrightarrow> i + 2 \<le> fatsize (fat s) \<Longrightarrow>
   le16dec (fat_ld s) i = Some (push_bit 8 (ucast (table_byte s (i + 1))) OR ucast (table_byte s i))"
  by (simp add: le16dec_def fat_ld_table)

lemma fat12_ptr_eq: "unat c < 2 ^ 28 \<Longrightarrow> fat_get_fat12_ptr c = unat c + unat c div 2"
  by (simp add: fat_get_fat12_ptr_def unat_word_ariths unat_drop_bit_eq drop_bit_eq_div)

lemma fat12_entry:
  assumes "flat_mem_ok s" "accessor (fat s) = Fat12" "fat_get_fat12_ptr c + 2 \<le> fatsize (fat s)" "unat c < 2 ^ 28"
  shows "fat_get_fat12_next c s = Some (table_entry s c)"
proof -
  define p r where "p = unat c + unat c div 2" and "r = (if odd (unat c) then 4 else 0 :: nat)"
  define v where "v = (ucast (push_bit 8 (ucast (table_byte s (p + 1))) OR ucast (table_byte s p) :: u16) :: u32)"
  have "12 * unat c = 8 * p + r" unfolding p_def r_def by (cases "even (unat c)") (auto elim!: evenE oddE)
  moreover have "bit v (r + k) \<longleftrightarrow> bit (table_byte s (p + (r + k) div 8)) ((r + k) mod 8)" if "k < 12" for k
    unfolding v_def using that by (intro bit_le16) (simp add: r_def)
  ultimately have "drop_bit r v AND mask 12 = field_bits (table_byte s) 12 12 (unat c)" by (intro field_eqI) simp_all
  moreover have "fat_get_fat12_next c s = Some (norm_entry CLUST12_MASK (drop_bit r v))"
    using assms fat12_ptr_eq [OF assms(4)] by (simp add: fat_get_fat12_next_def le16dec_table v_def p_def r_def cl_parity norm_entry_def Let_def)
  ultimately show ?thesis using assms(2) by (simp add: norm_widen table_entry_def)
qed

lemma fat16_entry:
  assumes "flat_mem_ok s" "accessor (fat s) = Fat16" "fat_get_fat16_ptr c + 2 \<le> fatsize (fat s)" "unat c < 2 ^ 28"
  shows "fat_get_fat16_next c s = Some (table_entry s c)"
proof -
  have p: "fat_get_fat16_ptr c = 2 * unat c" using assms(4) by (simp add: fat_get_fat16_ptr_def unat_word_ariths push_bit_eq_mult)
  define v where "v = (ucast (push_bit 8 (ucast (table_byte s (2 * unat c + 1))) OR ucast (table_byte s (2 * unat c)) :: u16) :: u32)"
  have "drop_bit 0 v AND mask 16 = field_bits (table_byte s) 16 16 (unat c)"
    by (rule field_eqI [where p = "2 * unat c"]) (use bit_le16 [of _ "table_byte s" "2 * unat c"] in \<open>simp_all add: v_def\<close>)
  moreover have "fat_get_fat16_next c s = Some (norm_entry CLUST16_MASK v)"
    using assms p by (simp add: fat_get_fat16_next_def le16dec_table v_def norm_entry_def Let_def)
  ultimately show ?thesis using assms(2) by (simp add: norm_widen table_entry_def)
qed

text \<open>Four bytes of a function, as FAT32 reads them.\<close>

lemma le32_field:
  fixes c :: cl_t
  assumes "\<And>k. k < 4 \<Longrightarrow> f (4 * unat c + k) = Some (B (4 * unat c + k))"
  shows "\<exists>v. le32dec f (4 * unat c) = Some v \<and> norm_entry CLUST32_MASK v = widen 28 (field_bits B 32 28 (unat c))"
proof -
  define v where "v = (push_bit 24 (ucast (B (4 * unat c + 3))) OR push_bit 16 (ucast (B (4 * unat c + 2))) OR
    push_bit 8 (ucast (B (4 * unat c + 1))) OR ucast (B (4 * unat c)) :: u32)"
  have "drop_bit 0 v AND mask 28 = field_bits B 32 28 (unat c)"
    by (rule field_eqI [where p = "4 * unat c"]) (use bit_le32 [of _ B "4 * unat c"] in \<open>simp_all add: v_def\<close>)
  moreover have "le32dec f (4 * unat c) = Some v"
    using assms [of 0] assms [of 1] assms [of 2] assms [of 3] by (simp add: le32dec_def v_def)
  ultimately show ?thesis by (simp add: norm_widen)
qed

lemma fat32_ptr_eq: "unat c < 2 ^ 28 \<Longrightarrow> unat (push_bit 2 c) = 4 * unat (c :: cl_t)"
  by (simp add: push_bit_eq_mult unat_word_ariths)

lemma fat32_entry:
  assumes "flat_mem_ok s" "accessor (fat s) = Fat32" "fat_get_fat32_ptr c + 4 \<le> fatsize (fat s)" "unat c < 2 ^ 28"
  shows "fat_get_fat32_next c s = Some (table_entry s c)"
proof -
  have p: "fat_get_fat32_ptr c = 4 * unat c" using fat32_ptr_eq [OF assms(4)] by (simp add: fat_get_fat32_ptr_def)
  obtain v where "le32dec (fat_ld s) (4 * unat c) = Some v" "norm_entry CLUST32_MASK v = widen 28 (field_bits (table_byte s) 32 28 (unat c))"
    using le32_field [of "fat_ld s" c "table_byte s"] fat_ld_table [OF assms(1)] assms(2,3) p by auto
  then show ?thesis using assms(2) p by (simp add: fat_get_fat32_next_def table_entry_def norm_entry_def Let_def)
qed

lemma cached_entry_field:
  assumes "accessor (fat s) = Fat32_cached" "unat c < 2 ^ 28"
  shows "cached_entry s c = table_entry s c"
proof -
  have "cached_byte s i = Some (table_byte s i)" for i using assms(1) cached_byte_Some [of s i] by (auto simp: table_byte_def)
  then obtain v where "le32dec (cached_byte s) (4 * unat c) = Some v" "norm_entry CLUST32_MASK v = widen 28 (field_bits (table_byte s) 32 28 (unat c))"
    using le32_field [of "cached_byte s" c "table_byte s"] by auto
  then show ?thesis using assms fat32_ptr_eq [OF assms(2)] by (simp add: cached_entry_def table_entry_def)
qed

lemma fat_view_entry:
  assumes inv: "table_inv s" and v: "valid_cl s c"
  shows "fat_view s c = table_entry s c"
proof -
  have c: "unat c < 2 ^ 28" using valid_cl_bound [OF inv v] .
  show ?thesis
  proof (cases "accessor (fat s)")
    case Fat12 then show ?thesis using inv v c fat12_entry [of s c] by (simp add: table_inv_def fat_view_def)
  next
    case Fat16 then show ?thesis using inv v c fat16_entry [of s c] by (simp add: table_inv_def fat_view_def)
  next
    case Fat32 then show ?thesis using inv v c fat32_entry [of s c] by (simp add: table_inv_def fat_view_def)
  next
    case Fat32_cached then show ?thesis using cached_entry_field [OF _ c] by (simp add: fat_view_def)
  qed (use inv in \<open>simp add: table_inv_def\<close>)
qed

section \<open>Setting up the cache\<close>

lemma clear_bit:
  "unat (x AND NOT (push_bit k 1)) mod 2 ^ k = unat (x :: u64) mod 2 ^ k" "\<not> bit x k \<Longrightarrow> x AND NOT (push_bit k 1) = x"
proof -
  have "take_bit k (x AND NOT (push_bit k 1)) = take_bit k x" by (auto intro!: bit_word_eqI simp: bit_simps)
  then show "unat (x AND NOT (push_bit k 1)) mod 2 ^ k = unat x mod 2 ^ k" by (metis unsigned_take_bit_eq take_bit_eq_mod)
qed (auto intro!: bit_word_eqI simp: bit_simps)

lemma lastaddr_no_chunk:
  fixes n :: nat
  assumes n: "n < 2 ^ 32" "\<not> (csz dvd n \<and> odd (n div csz))" and a: "a mod csz = 0" "a + csz \<le> (n + csz - 1) div csz * csz"
  shows "a \<noteq> unat ((of_nat n :: u64) AND NOT (of_nat csz))"
proof
  let ?l = "(of_nat n :: u64) AND NOT (of_nat csz)"
  assume eq: "a = unat ?l"
  have c: "csz = 2 ^ 17" "(of_nat csz :: u64) = push_bit 17 1" by (simp_all add: fat32_cache_chunk_size_def push_bit_eq_mult)
  have nn: "unat (of_nat n :: u64) = n" using n(1) by (simp add: unat_of_nat)
  have "a mod csz = n mod csz" using clear_bit(1) [of "of_nat n" 17] nn unfolding c eq by simp
  then have d: "csz dvd n" "even (n div csz)" using a(1) n(2) by auto
  then have "\<not> bit (unat (of_nat n :: u64)) 17" unfolding nn by (simp add: bit_iff_odd c(1))
  then have "\<not> bit (of_nat n :: u64) 17" by (simp add: bit_unsigned_iff)
  then have "?l = of_nat n" unfolding c(2) by (rule clear_bit)
  then have "a = n" using eq nn by simp
  moreover have "(n + csz - 1) div csz * csz = n" using d(1) by (auto simp: c(1) elim!: dvdE)
  ultimately show False using a(2) cs_pos by linarith
qed

lemma init_cache_entries:
  "e \<in> set init_cache \<longleftrightarrow> (\<exists>i<32. e = \<lparr>chunk = csz * i, addr = csz * i, dirty = False\<rparr>)"
  "distinct (map addr init_cache)" "distinct (map chunk init_cache)" "init_cache \<noteq> []"
  by (auto simp: init_cache_def fat32_cache_entries_def distinct_map inj_on_def fat32_cache_chunk_size_def)

lemma init_cache_inv:
  assumes s: "io_faults s = []" "fat32_cache_head (fat s) = init_cache" "blen (fatbuf (fat s)) = fat32_cache_size"
      "\<And>i. i < fat32_cache_size \<Longrightarrow> bdat (fatbuf (fat s)) i = bdat (dev s) (fat32_offset (fat s) + i)"
      "fat32_lastaddr (fat s) = unat ((of_nat (fatsize (fat s)) :: u64) AND NOT (of_nat csz))"
    and n: "fat32_cache_size \<le> fatsize (fat s)" "fatsize (fat s) < 2 ^ 32" "\<not> (csz dvd fatsize (fat s) \<and> odd (fatsize (fat s) div csz))"
      "fat32_offset (fat s) + cache_len s \<le> blen (dev s)"
  shows "cache_inv s" "cached_byte s i = Some (bdat (dev s) (fat32_offset (fat s) + i))"
proof -
  have e: "entry_ok s e" "addr e = chunk e" "addr e + csz \<le> fat32_cache_size" if "e \<in> set init_cache" for e
  proof -
    obtain i where i: "i < 32" "e = \<lparr>chunk = csz * i, addr = csz * i, dirty = False\<rparr>" using \<open>e \<in> set init_cache\<close> init_cache_entries(1) by blast
    have le: "csz * i + csz \<le> fat32_cache_size" using i(1) by (simp add: fat32_cache_chunk_size_def fat32_cache_size_def)
    then show "addr e = chunk e" "addr e + csz \<le> fat32_cache_size" by (simp_all add: i)
    show "entry_ok s e" using le s(3,4) n(1) cache_len_multiple(2) [of s] by (simp add: entry_ok_def i add.assoc)
  qed
  have "cache_len s \<le> 2 ^ 32" using n(2) by (simp add: cache_len_def fat32_cache_chunk_size_def)
  then show inv: "cache_inv s"
    using s(1,2,5) n lastaddr_no_chunk [OF n(2,3)] e(1) init_cache_entries(2-4) by (auto simp: cache_inv_def cache_len_def)
  show "cached_byte s i = Some (bdat (dev s) (fat32_offset (fat s) + i))"
  proof (cases "i - i mod csz \<in> addr ` set init_cache")
    case True
    then obtain f where f: "f \<in> set init_cache" "addr f = i - i mod csz" by auto
    have "chunk f + i mod csz = i" using e(2) [OF f(1)] f(2) mod_less_eq_dividend [of i csz] by linarith
    moreover have "i mod csz < csz" by simp
    then have "i < fat32_cache_size" using e(3) [OF f(1)] f(2) by linarith
    ultimately show ?thesis using cached_byte_hit [OF inv, of f i] f s(2,4) by simp
  next
    case False then show ?thesis using cached_byte_miss s(2) by metis
  qed
qed

text \<open>
  C22: loading a large FAT32 table. Without \<^verbatim>\<open>mmap\<close> and without I/O or allocation failures,
  \<^verbatim>\<open>_readfat()\<close> on a table of at least 4 MiB sets up the cache so that every byte of the cached
  table is the byte of the first FAT on the device, the accessor \<^verbatim>\<open>readfat()\<close> then chooses is the
  cached one, and the table invariant holds. This needs a table whose size is not an odd multiple of
  the chunk size of 128 KiB (for those \<^verbatim>\<open>fat32_lastaddr\<close> is wrong), offsets below 4 GiB, a table
  that covers the clusters and a device that reaches to the end of the last chunk.
\<close>

theorem readfat_table_cached:
  fixes s :: "'a fsck_scheme"
  defines "n \<equiv> unat (FATsecs (boot s)) * unat (bpbBytesPerSec (boot s))"
  assumes ok: "io_faults s = []" "alloc_faults s = []" "\<not> allow_mmap s" "ClustMask (boot s) = CLUST32_MASK"
    and n: "fat32_cache_size \<le> n" "n < 2 ^ 32" "\<not> (fat32_cache_chunk_size dvd n \<and> odd (n div fat32_cache_chunk_size))"
    and off: "fat_start (boot s) < 2 ^ 32"
      "fat_start (boot s) + (n + fat32_cache_chunk_size - 1) div fat32_cache_chunk_size * fat32_cache_chunk_size \<le> blen (dev s)"
    and cl: "NumClusters (boot s) \<le> 0xffffff8" "4 * unat (NumClusters (boot s)) \<le> n"
  shows "\<exists>t u. readfat_table s = Some (True, t) \<and> boot t = boot s \<and> dev t = dev s \<and>
    readfat_accessor (boot t) (fat t) = Some Fat32_cached \<and> u = t\<lparr>fat := (fat t)\<lparr>accessor := Fat32_cached\<rparr>\<rparr> \<and>
    table_inv u \<and> (\<forall>i. table_byte u i = bdat (dev s) (fat_start (boot s) + i))"
proof -
  have sz: "unat (FATsecs (boot s) * bpbBytesPerSec (boot s)) = n" "unat (bpbResSectors (boot s) * bpbBytesPerSec (boot s)) = fat_start (boot s)"
    using n(2) off(1) by (simp_all add: n_def unat_word_ariths fat_start_def)
  define b where "b = \<lparr>blen = fat32_cache_size, bdat = blit (bdat (dev s)) (fat_start (boot s)) fat32_cache_size (junk s) 0\<rparr>"
  define t where "t = s\<lparr>io_faults := [], alloc_faults := [], pos := fat_start (boot s) + fat32_cache_size,
    fat := (fat s)\<lparr>fatsize := n, is_mmapped := False, use_cache := True, fat32_offset := fat_start (boot s),
      fat32_lastaddr := unat ((of_nat n :: u64) AND NOT (of_nat csz)), fatbuf := b, fat32_cache_head := init_cache\<rparr>\<rparr>"
  have "n \<le> (n + csz - 1) div csz * csz" using cache_len_multiple(2) [of t] by (simp add: t_def cache_len_def)
  then have "fat_start (boot s) + fat32_cache_size \<le> blen (dev s)" using n(1) off(2) by linarith
  then have r: "readfat_table s = Some (True, t)"
    using ok n(1) by (simp add: readfat_table_def Let_def sz readfat_buffer_def malloc_def pop_fault_def seek_read_nofault set_cache_def t_def b_def)
  define u where "u = t\<lparr>fat := (fat t)\<lparr>accessor := Fat32_cached\<rparr>\<rparr>"
  have c: "cache_inv u" "cached_byte u i = Some (bdat (dev u) (fat32_offset (fat u) + i))" for i
    by (rule init_cache_inv; use n off in \<open>simp add: u_def t_def b_def cache_len_def blit_def add.commute\<close>)+
  have "4 * unat c + 4 \<le> n" if "valid_cl u c" for c
    using that cl(2) by (simp add: valid_cl_def u_def t_def word_less_nat_alt)
  then have "table_inv u" using c(1) cl(1) by (simp add: table_inv_def) (simp add: u_def t_def)
  moreover have "table_byte u i = bdat (dev s) (fat_start (boot s) + i)" for i
    using c(2) by (simp add: table_byte_def) (simp add: u_def t_def)
  moreover have "boot t = boot s" "dev t = dev s" "readfat_accessor (boot t) (fat t) = Some Fat32_cached"
    using ok(4) by (simp_all add: t_def readfat_accessor_def)
  ultimately show ?thesis using r u_def by blast
qed

text \<open>A volume with a FAT32 table of 34 chunks, of which cluster 1048577 lies beyond the cached ones.\<close>

definition big_fsck :: fsck where
  "big_fsck = env.extend (sample_env \<lparr>blen = 16777216, bdat = (\<lambda>i. if i = 4210692 then 5 else if i = 4210695 then 0xf0 else 0)\<rparr>)
     (fsck.fields (zero_boot\<lparr>NumClusters := 1100000, ClustMask := CLUST32_MASK, bpbBytesPerSec := 512,
       bpbResSectors := 32, FATsecs := 8704\<rparr>) zero_fat)"

lemmas big_simps = big_fsck_def sample_env_def zero_boot_def zero_fat_def env.defs fsck.defs

lemma big_fields:
  "io_faults big_fsck = []" "alloc_faults big_fsck = []" "\<not> allow_mmap big_fsck" "ClustMask (boot big_fsck) = CLUST32_MASK"
  "FATsecs (boot big_fsck) = 8704" "bpbBytesPerSec (boot big_fsck) = 512" "fat_start (boot big_fsck) = 16384"
  "blen (dev big_fsck) = 16777216" "NumClusters (boot big_fsck) = 1100000"
  by (simp_all add: big_simps fat_start_def)

theorem readfat_table_cached_witness:
  "\<exists>t u. readfat_table big_fsck = Some (True, t) \<and> u = t\<lparr>fat := (fat t)\<lparr>accessor := Fat32_cached\<rparr>\<rparr> \<and> table_inv u \<and>
     (\<forall>i. table_byte u i = bdat (dev big_fsck) (16384 + i))"
  using readfat_table_cached [of big_fsck] by (simp add: big_fields fat32_cache_size_def fat32_cache_chunk_size_def) blast

section \<open>Reading entries\<close>

text \<open>
  C4: \<^verbatim>\<open>fat_get_cl_next()\<close> on a valid cluster \<open>c\<close> returns field \<open>c\<close> of the table, decoded from its
  bytes: 12 bits from bit \<open>12 * c\<close> on, 16 bits from bit \<open>16 * c\<close> on, or the low 28 of the 32 bits from
  bit \<open>32 * c\<close> on, with the nine largest values widened to 32 bits. That holds for FAT12, FAT16, FAT32 in
  memory, FAT32 mapped and FAT32 through the LRU cache alike, and the call leaves every entry, the
  head bitmap and the boot block as they were: a cache miss that evicts a dirty chunk is not visible.
  The invariant asks of a cached table that no I/O fails, that its size is not an odd multiple of the
  chunk size and that its last chunk is on the device.
\<close>

theorem fat_get_reads_table:
  assumes "table_inv s" and "valid_cl s c"
  shows "\<exists>t. fat_get_cl_next c s = Some (table_entry s c, t) \<and> table_inv t \<and>
    (\<forall>d. valid_cl s d \<longrightarrow> valid_cl t d \<and> table_entry t d = table_entry s d) \<and>
    headbitmap (fat t) = headbitmap (fat s) \<and> boot t = boot s"
proof -
  obtain t where t: "fat_get_cl_next c s = Some (fat_view s c, t)" "table_inv t" "fat_view t = fat_view s" "tbl_frame s t"
    using fat_get_law [OF assms] by blast
  have "table_entry t d = table_entry s d" if "valid_cl s d" for d
    using fat_view_entry [OF t(2), of d] fat_view_entry [OF assms(1) that] that t(3) frame_simps(6) [OF t(4)] by simp
  then show ?thesis using t fat_view_entry [OF assms] frame_simps(4-6) [OF t(4)] by auto
qed

definition big_cached :: fsck where
  "big_cached = big_fsck\<lparr>fat := zero_fat\<lparr>fatsize := 4456448, use_cache := True, accessor := Fat32_cached,
     fat32_offset := 16384, fat32_lastaddr := 4456448, fatbuf := \<lparr>blen = 4194304, bdat = (\<lambda>_. 0)\<rparr>,
     fat32_cache_head := init_cache\<rparr>\<rparr>"

lemma big_cached_inv: "table_inv big_cached" "valid_cl big_cached 1048577" "table_entry big_cached 1048577 = 5"
proof -
  have f: "cached_byte big_cached i = Some (bdat (dev big_cached) (fat32_offset (fat big_cached) + i))" "cache_inv big_cached" for i
    by (rule init_cache_inv; simp add: big_cached_def big_simps fat32_cache_size_def fat32_cache_chunk_size_def cache_len_def)+
  show "valid_cl big_cached 1048577" by (simp add: valid_cl_def big_cached_def big_simps)
  have "4 * unat c + 4 \<le> fatsize (fat big_cached)" if "valid_cl big_cached c" for c
    using that by (simp add: valid_cl_def big_cached_def big_simps word_less_nat_alt)
  then show "table_inv big_cached" using f(2) by (simp add: table_inv_def) (simp add: big_cached_def big_simps)
  have a: "accessor (fat big_cached) = Fat32_cached" by (simp add: big_cached_def)
  have "table_byte big_cached i = bdat (dev big_cached) (fat32_offset (fat big_cached) + i)" for i
    by (simp add: table_byte_def a f(1))
  then have B: "table_byte big_cached i = (if i = 4194308 then 5 else if i = 4194311 then 0xf0 else 0)" for i
    by (simp add: big_cached_def big_simps)
  obtain v where v: "le32dec (\<lambda>i. Some (table_byte big_cached i)) 4194308 = Some v"
    "norm_entry CLUST32_MASK v = widen 28 (field_bits (table_byte big_cached) 32 28 1048577)"
    using le32_field [of "\<lambda>i. Some (table_byte big_cached i)" 1048577 "table_byte big_cached"] by auto
  have "table_entry big_cached 1048577 = norm_entry CLUST32_MASK v" by (simp add: table_entry_def a v(2))
  also have "\<dots> = 5" using v(1) by (auto simp: le32dec_def B norm_entry_def Let_def)
  finally show "table_entry big_cached 1048577 = 5" .
qed

lemma sample_entry: "table_entry (sample_fsck 0) 2 = 3"
  using fat_view_entry [OF sample_inv, of 0 2] by (simp add: sample_valid sample_view)

theorem fat_get_reads_table_witness:
  "(\<exists>t. fat_get_cl_next 2 (sample_fsck 0) = Some (3, t)) \<and> (\<exists>t. fat_get_cl_next 1048577 big_cached = Some (5, t))"
  using fat_get_reads_table [of "sample_fsck 0" 2] fat_get_reads_table [of big_cached 1048577]
  by (auto simp: sample_inv sample_valid sample_entry big_cached_inv)

end
