(* ===== verification/Mkfs_Params.thy ===== *)
theory Mkfs_Params
  imports Fsck_Boot
begin

text \<open>
  newfs_msdos, first part: the options and the BIOS Parameter Block of mkfs_msdos.c, and the
  computation of the parameters of the new file system. All fields of \<open>bpb\<close> are 32-bit \<^verbatim>\<open>u_int\<close>s
  and the arithmetic keeps the widths of the C expressions: a sum with a \<^verbatim>\<open>size_t\<close> or a
  \<^verbatim>\<open>u_int64_t\<close> operand is taken in 64 bits from that operand on.

  In this theory \<open>None\<close> is a rejected request: a warning and \<^verbatim>\<open>goto done\<close> with the return value
  -1, or \<^verbatim>\<open>err(1, \<dots>)\<close>; both end the program with status 1.
\<close>

section \<open>Data\<close>

text \<open>
  \<open>msdos_options\<close> (mkfs_msdos.h). A pointer option is an \<open>option\<close>, strings are lists of bytes
  without the terminator, and the bootstrap file is given by its contents. An \<^verbatim>\<open>off_t\<close> option is
  never negative (\<open>argtooff\<close>). A bootstrap file that cannot be opened or is not a regular file is
  \<open>Unusable\<close>.
\<close>

datatype boot_file = Unusable | Regular buf

record msdos_options =
  o_offset :: u64
  o_align :: bool
  o_bootstrap :: "boot_file option"
  o_create_size :: u64
  o_fat_type :: byte
  o_volume_id :: u32
  o_volume_label :: "byte list option"
  o_no_create :: bool
  o_OEM_string :: "byte list option"
  o_bytes_per_sector :: u16
  o_timestamp :: int
  o_sectors_per_fat :: u32
  o_block_size :: u32
  o_sectors_per_cluster :: byte
  o_directory_entries :: u16
  o_floppy :: "string option"
  o_drive_heads :: u16
  o_info_sector :: u16
  o_backup_sector :: u16
  o_media_descriptor :: byte
  o_num_FAT :: byte
  o_hidden_sectors :: u32
  o_reserved_sectors :: u16
  o_size :: u32
  o_sectors_per_track :: u16
  o_timestamp_set :: bool
  o_volume_id_set :: bool
  o_media_descriptor_set :: bool
  o_hidden_sectors_set :: bool

record bpb =
  b_BytesPerSec :: u32
  b_SecPerClust :: u32
  b_ResSectors :: u32
  b_FATs :: u32
  b_RootDirEnts :: u32
  b_Sectors :: u32
  b_Media :: u32
  b_FATsecs :: u32
  b_SecPerTrack :: u32
  b_Heads :: u32
  b_HiddenSecs :: u32
  b_HugeSectors :: u32
  b_BigFATsecs :: u32
  b_RootClust :: u32
  b_FSInfo :: u32
  b_Backup :: u32

abbreviation (input) MAXU16 :: u32 where "MAXU16 \<equiv> 0xffff"
abbreviation (input) BPN :: u32 where "BPN \<equiv> 4"
abbreviation (input) NPB :: u32 where "NPB \<equiv> 2"
abbreviation (input) MINBPS :: u32 where "MINBPS \<equiv> 512"
abbreviation (input) MAXBPS :: u32 where "MAXBPS \<equiv> 4096"
abbreviation (input) MAXSPC :: u32 where "MAXSPC \<equiv> 128"
abbreviation (input) MAXNFT :: u32 where "MAXNFT \<equiv> 16"
abbreviation (input) DEFBLK :: u32 where "DEFBLK \<equiv> 4096"
abbreviation (input) DEFBLK16 :: u32 where "DEFBLK16 \<equiv> 2048"
abbreviation (input) DEFRDE :: u32 where "DEFRDE \<equiv> 512"
abbreviation (input) RESFTE :: u32 where "RESFTE \<equiv> 2"
abbreviation (input) MINCLS12 :: u32 where "MINCLS12 \<equiv> 1"
abbreviation (input) MINCLS16 :: u32 where "MINCLS16 \<equiv> 0xff5"
abbreviation (input) MINCLS32 :: u32 where "MINCLS32 \<equiv> 0xfff5"
abbreviation (input) MAXCLS12 :: u32 where "MAXCLS12 \<equiv> 0xff4"
abbreviation (input) MAXCLS16 :: u32 where "MAXCLS16 \<equiv> 0xfff4"
abbreviation (input) MAXCLS32 :: u32 where "MAXCLS32 \<equiv> 0xffffff4"

definition mincls :: "u32 \<Rightarrow> u32" where
  "mincls fat1 = (if fat1 = 12 then MINCLS12 else if fat1 = 16 then MINCLS16 else MINCLS32)"

definition maxcls :: "u32 \<Rightarrow> u32" where
  "maxcls fat1 = (if fat1 = 12 then MAXCLS12 else if fat1 = 16 then MAXCLS16 else MAXCLS32)"

text \<open>\<^verbatim>\<open>howmany(x, y)\<close> of \<^verbatim>\<open>sys/param.h\<close>, at the width of its operands.\<close>

definition howmany :: "'a::len word \<Rightarrow> 'a word \<Rightarrow> 'a word" where
  "howmany x y = (x + (y - 1)) div y"

section \<open>Standard formats and disk geometry\<close>

definition fmt :: "u32 \<Rightarrow> u32 \<Rightarrow> u32 \<Rightarrow> u32 \<Rightarrow> u32 \<Rightarrow> u32 \<Rightarrow> u32 \<Rightarrow> u32 \<Rightarrow> u32 \<Rightarrow> u32 \<Rightarrow> bpb" where
  "fmt bps spc res nft rde sec mid spf spt hds =
    \<lparr>b_BytesPerSec = bps, b_SecPerClust = spc, b_ResSectors = res, b_FATs = nft, b_RootDirEnts = rde,
     b_Sectors = sec, b_Media = mid, b_FATsecs = spf, b_SecPerTrack = spt, b_Heads = hds,
     b_HiddenSecs = 0, b_HugeSectors = 0, b_BigFATsecs = 0, b_RootClust = 0, b_FSInfo = 0, b_Backup = 0\<rparr>"

definition stdfmt :: "(string \<times> bpb) list" where
  "stdfmt =
    [(''160'', fmt 512 1 1 2 64 320 0xfe 1 8 1),
     (''180'', fmt 512 1 1 2 64 360 0xfc 2 9 1),
     (''320'', fmt 512 2 1 2 112 640 0xff 1 8 2),
     (''360'', fmt 512 2 1 2 112 720 0xfd 2 9 2),
     (''640'', fmt 512 2 1 2 112 1280 0xfb 2 8 2),
     (''720'', fmt 512 2 1 2 112 1440 0xf9 3 9 2),
     (''1200'', fmt 512 1 1 2 224 2400 0xf9 7 15 2),
     (''1232'', fmt 1024 1 1 2 192 1232 0xfe 2 8 2),
     (''1440'', fmt 512 1 1 2 224 2880 0xf0 9 18 2),
     (''2880'', fmt 512 2 1 2 240 5760 0xf0 9 36 2)]"

definition getstdfmt :: "string \<Rightarrow> bpb option" where
  "getstdfmt nm = map_of stdfmt nm"

definition ckgeom :: "u32 \<Rightarrow> bool" where
  "ckgeom val \<longleftrightarrow> val \<noteq> 0 \<and> val \<le> MAXU16"

text \<open>
  \<open>getdiskinfo\<close> as built for Linux. The arguments are what the two \<^verbatim>\<open>ioctl\<close>s deliver: the sector
  size and the size of the device in bytes, \<open>None\<close> when the call fails.
\<close>

definition getdiskinfo :: "u32 option \<Rightarrow> u64 option \<Rightarrow> bpb \<Rightarrow> bpb option" where
  "getdiskinfo blksszget blkgetsize64 b = do {
     ssz \<leftarrow> blksszget;
     if \<not> ckgeom ssz then None
     else do {
       device_size \<leftarrow> blkgetsize64;
       let sectors = device_size div ucast ssz;
       if sectors > 0xffffffff then None
       else Some (b\<lparr>b_BytesPerSec := ssz, b_HugeSectors := ucast sectors, b_SecPerTrack := 63,
                   b_Heads := 64\<rparr>) } }"

section \<open>Labels\<close>

definition bad_label_chars :: "byte list" where
  "bad_label_chars = [0x22, 0x2a, 0x2b, 0x2c, 0x2e, 0x2f, 0x3a, 0x3b, 0x3c, 0x3d, 0x3e, 0x3f, 0x5b, 0x5c, 0x5d, 0x7c]"

text \<open>
  \<open>oklabel\<close>: the loop with its index; the terminating zero is smaller than a blank, and \<^verbatim>\<open>strchr\<close>
  finds it as well. The result is \<^verbatim>\<open>i && !c\<close> for the values at the end of the loop.
\<close>

definition label_char :: "nat \<Rightarrow> byte \<Rightarrow> bool" where
  "label_char i c \<longleftrightarrow> \<not> c < 0x20 + (if i = 0 then 1 else 0) \<and> c \<notin> set bad_label_chars"

primrec oklabel_loop :: "nat \<Rightarrow> nat \<Rightarrow> byte list \<Rightarrow> bool" where
  "oklabel_loop 0 i src = False"
| "oklabel_loop (Suc n) i src =
    (case src of
       [] \<Rightarrow> i \<noteq> 0
     | c # cs \<Rightarrow> label_char i c \<and> oklabel_loop n (i + 1) cs)"

definition oklabel :: "byte list \<Rightarrow> bool" where
  "oklabel src = oklabel_loop 12 0 src"

text \<open>\<^verbatim>\<open>toupper\<close> in the C locale.\<close>

definition toupper :: "byte \<Rightarrow> byte" where
  "toupper c = (if 0x61 \<le> c \<and> c \<le> 0x7a then c - 0x20 else c)"

text \<open>\<open>setstr\<close>: \<open>n\<close> bytes, padded with blanks.\<close>

definition setstr :: "byte list \<Rightarrow> nat \<Rightarrow> byte list" where
  "setstr src n = take n src @ replicate (n - length src) 0x20"

definition mklabel :: "byte list \<Rightarrow> byte list" where
  "mklabel src =
    (let l = map toupper (take 11 src) @ replicate (11 - length src) 0x20
     in if hd l = 0xe5 then 5 # tl l else l)"

section \<open>Parameters from the options\<close>

definition zero_bpb :: bpb where
  "zero_bpb = fmt 0 0 0 0 0 0 0 0 0 0"

definition default_spc :: "u32 \<Rightarrow> u32" where
  "default_spc sectors =
    (if sectors \<le> 6000 then 1 else if sectors \<le> 2 ^ 17 then 8 else if sectors \<le> 2 ^ 19 then 16
     else if sectors \<le> 2 ^ 21 then 32 else 64)"

definition mk_geometry_given :: "msdos_options \<Rightarrow> bool" where
  "mk_geometry_given o1 \<longleftrightarrow> o_floppy o1 \<noteq> None \<or>
     o_drive_heads o1 \<noteq> 0 \<and> o_sectors_per_track o1 \<noteq> 0 \<and> o_bytes_per_sector o1 \<noteq> 0 \<and>
     o_size o1 \<noteq> 0 \<and> o_hidden_sectors_set o1"

definition mk_disk :: "msdos_options \<Rightarrow> u32 option \<Rightarrow> u64 option \<Rightarrow> bpb option" where
  "mk_disk o1 ssz dsz = do {
     b \<leftarrow> (case o_floppy o1 of
            None \<Rightarrow> Some zero_bpb
          | Some f \<Rightarrow> do {
              b \<leftarrow> getstdfmt f;
              Some (b\<lparr>b_HugeSectors := b_Sectors b, b_Sectors := 0, b_BigFATsecs := b_FATsecs b,
                      b_FATsecs := 0\<rparr>) });
     let b = (if o_drive_heads o1 \<noteq> 0 then b\<lparr>b_Heads := ucast (o_drive_heads o1)\<rparr> else b);
     let b = (if o_sectors_per_track o1 \<noteq> 0 then b\<lparr>b_SecPerTrack := ucast (o_sectors_per_track o1)\<rparr> else b);
     let b = (if o_bytes_per_sector o1 \<noteq> 0 then b\<lparr>b_BytesPerSec := ucast (o_bytes_per_sector o1)\<rparr> else b);
     let b = (if o_size o1 \<noteq> 0 then b\<lparr>b_HugeSectors := o_size o1\<rparr> else b);
     let b = (if o_hidden_sectors_set o1 then b\<lparr>b_HiddenSecs := o_hidden_sectors o1\<rparr> else b);
     if mk_geometry_given o1 then Some b
     else do {
       b \<leftarrow> getdiskinfo ssz dsz b;
       let b = b\<lparr>b_HugeSectors := b_HugeSectors b - ucast (o_offset o1 div ucast (b_BytesPerSec b))\<rparr>;
       Some (if b_SecPerClust b = 0 then b\<lparr>b_SecPerClust := default_spc (b_HugeSectors b)\<rparr> else b) } }"

text \<open>The FAT type that the options ask for, 0 when they leave it open.\<close>

definition mk_fat_option :: "msdos_options \<Rightarrow> bpb \<Rightarrow> (u32 \<times> bpb) option" where
  "mk_fat_option o1 b =
    (let fat1 = (if o_fat_type o1 \<noteq> 0 then ucast (o_fat_type o1)
                 else if o_floppy o1 \<noteq> None then 12
                 else if o_directory_entries o1 = 0 \<and> (o_info_sector o1 \<noteq> 0 \<or> o_backup_sector o1 \<noteq> 0) then 32
                 else 0)
     in if fat1 = 32 \<and> o_directory_entries o1 \<noteq> 0
           \<or> fat1 \<noteq> 32 \<and> (o_info_sector o1 \<noteq> 0 \<or> o_backup_sector o1 \<noteq> 0) then None
        else if fat1 \<noteq> 0 \<and> fat1 \<noteq> 12 \<and> fat1 \<noteq> 16 \<and> fat1 \<noteq> 32 then None
        else Some (fat1, if o_floppy o1 \<noteq> None \<and> fat1 = 32 then b\<lparr>b_RootDirEnts := 0\<rparr> else b))"

definition mk_block_size :: "msdos_options \<Rightarrow> bpb \<Rightarrow> bpb option" where
  "mk_block_size o1 b =
    (if o_block_size o1 = 0 then Some b
     else if \<not> powerof2 (o_block_size o1) then None
     else if o_block_size o1 < b_BytesPerSec b then None
     else if o_block_size o1 > b_BytesPerSec b * MAXSPC then None
     else Some (b\<lparr>b_SecPerClust := o_block_size o1 div b_BytesPerSec b\<rparr>))"

definition mk_options :: "msdos_options \<Rightarrow> bpb \<Rightarrow> bpb option" where
  "mk_options o1 b = do {
     b \<leftarrow> mk_block_size o1 b;
     b \<leftarrow> (if o_sectors_per_cluster o1 = 0 then Some b
          else if \<not> powerof2 (ucast (o_sectors_per_cluster o1)) then None
          else Some (b\<lparr>b_SecPerClust := ucast (o_sectors_per_cluster o1)\<rparr>));
     let b = (if o_reserved_sectors o1 \<noteq> 0 then b\<lparr>b_ResSectors := ucast (o_reserved_sectors o1)\<rparr> else b);
     b \<leftarrow> (if o_num_FAT o1 = 0 then Some b
          else if ucast (o_num_FAT o1) > MAXNFT then None
          else Some (b\<lparr>b_FATs := ucast (o_num_FAT o1)\<rparr>));
     let b = (if o_directory_entries o1 \<noteq> 0 then b\<lparr>b_RootDirEnts := ucast (o_directory_entries o1)\<rparr> else b);
     b \<leftarrow> (if \<not> o_media_descriptor_set o1 then Some b
          else if o_media_descriptor o1 < 0xf0 then None
          else Some (b\<lparr>b_Media := ucast (o_media_descriptor o1)\<rparr>));
     let b = (if o_sectors_per_fat o1 \<noteq> 0 then b\<lparr>b_BigFATsecs := o_sectors_per_fat o1\<rparr> else b);
     let b = (if o_info_sector o1 \<noteq> 0 then b\<lparr>b_FSInfo := ucast (o_info_sector o1)\<rparr> else b);
     Some (if o_backup_sector o1 \<noteq> 0 then b\<lparr>b_Backup := ucast (o_backup_sector o1)\<rparr> else b) }"

text \<open>Number of sectors of the bootstrap.\<close>

definition mk_bss :: "msdos_options \<Rightarrow> bpb \<Rightarrow> u32 option" where
  "mk_bss o1 b =
    (case o_bootstrap o1 of
       None \<Rightarrow> Some 1
     | Some Unusable \<Rightarrow> None
     | Some (Regular f) \<Rightarrow>
         (let bps = unat (b_BytesPerSec b)
          in if blen f mod bps \<noteq> 0 \<or> blen f < bps \<or> blen f > unat (b_BytesPerSec b * MAXU16) then None
             else Some (of_nat (blen f div bps))))"

section \<open>FAT type and layout\<close>

abbreviation (input) de_per_sec :: "bpb \<Rightarrow> u64" where
  "de_per_sec b \<equiv> ucast (b_BytesPerSec b) div 32"

definition mk_auto_fat :: "u32 \<Rightarrow> bpb \<Rightarrow> u32" where
  "mk_auto_fat bss b =
    (let res = (if b_ResSectors b \<noteq> 0 then b_ResSectors b else bss);
         spc = b_SecPerClust b; bps = b_BytesPerSec b;
         cls = (if spc \<noteq> 0 then MINCLS16 else MAXCLS12 + 1);
         need12 = ucast (res + howmany ((RESFTE + cls) * (if spc \<noteq> 0 then 16 else 12) div BPN) (bps * NPB) * b_FATs b)
                  + howmany (ucast (if b_RootDirEnts b \<noteq> 0 then b_RootDirEnts b else DEFRDE)) (de_per_sec b)
                  + ucast (cls * (if spc \<noteq> 0 then spc else howmany DEFBLK bps)) :: u64;
         need16 = ucast (res + howmany ((RESFTE + MAXCLS16) * 2) bps * b_FATs b)
                  + howmany (ucast DEFRDE) (de_per_sec b)
                  + ucast ((MAXCLS16 + 1) * (if spc \<noteq> 0 then spc else howmany 8192 bps)) :: u64
     in if ucast (b_HugeSectors b) < need12 then 12
        else if b_RootDirEnts b \<noteq> 0 \<or> ucast (b_HugeSectors b) < need16 then 16
        else 32)"

text \<open>The sectors of the FSInfo block and of the backup; the result is the first free sector.\<close>

definition mk_info :: "u32 \<Rightarrow> u32 \<Rightarrow> bpb \<Rightarrow> (u32 \<times> bpb) option" where
  "mk_info fat1 bss b =
    (if fat1 \<noteq> 32 then Some (bss, b)
     else do {
       b \<leftarrow> (if b_FSInfo b = 0 then
              (if bss = MAXU16 \<or> bss = b_Backup b then None else Some (b\<lparr>b_FSInfo := bss\<rparr>))
            else Some b);
       let x = (if b_FSInfo b \<noteq> MAXU16 \<and> bss \<le> b_FSInfo b then b_FSInfo b + 1 else bss);
       b \<leftarrow> (if b_Backup b = 0 then
              (if x = MAXU16 then None else Some (b\<lparr>b_Backup := x\<rparr>))
            else if b_Backup b \<noteq> MAXU16 \<and> b_Backup b = b_FSInfo b then None
            else Some b);
       Some (if b_Backup b \<noteq> MAXU16 \<and> x \<le> b_Backup b then b_Backup b + 1 else x, b) })"

text \<open>
  The loop that doubles the cluster size. It starts at 1 or more (\<open>howmany\<close> of a default block and
  a sector of at most 4096 bytes) and stops at 128, so eight turns are enough.
\<close>

definition spc_fits :: "u32 \<Rightarrow> u32 \<Rightarrow> bpb \<Rightarrow> bool" where
  "spc_fits fat1 rds b \<longleftrightarrow>
     ucast (b_ResSectors b
            + howmany ((RESFTE + maxcls fat1) * (fat1 div BPN)) (b_BytesPerSec b * NPB) * b_FATs b + rds)
     + ucast (maxcls fat1 + 1) * ucast (b_SecPerClust b) \<le> (ucast (b_HugeSectors b) :: u64)"

primrec spc_loop :: "nat \<Rightarrow> u32 \<Rightarrow> u32 \<Rightarrow> bpb \<Rightarrow> bpb" where
  "spc_loop 0 fat1 rds b = b"
| "spc_loop (Suc n) fat1 rds b =
    (if b_SecPerClust b < MAXSPC \<and> spc_fits fat1 rds b
     then spc_loop n fat1 rds (b\<lparr>b_SecPerClust := push_bit 1 (b_SecPerClust b)\<rparr>)
     else b)"

end
