(* ===== verification/Mkfs_Layout.thy ===== *)
theory Mkfs_Layout
  imports Mkfs_Params
begin

text \<open>
  newfs_msdos, second part: the layout of the new file system, from the alignment loop to the final
  BIOS Parameter Block. The result of a turn of the alignment loop is the record \<open>layout\<close>; \<open>l_x1\<close>
  and \<open>l_x2\<close> are the variables \<^verbatim>\<open>x1\<close> and \<^verbatim>\<open>x2\<close> of the code.
\<close>

record layout =
  l_bpb :: bpb
  l_extra_res :: u32
  l_alignment :: u32
  l_rds :: u32
  l_x1 :: u32
  l_x2 :: u32

text \<open>Reserved sectors, root directory entries and cluster size.\<close>

definition layout_res :: "u32 \<Rightarrow> bool \<Rightarrow> u32 \<Rightarrow> u32 \<Rightarrow> bpb \<Rightarrow> bpb option" where
  "layout_res fat1 set_res x extra_res b =
    (if set_res then
       Some (b\<lparr>b_ResSectors := (if fat1 = 32 then max x (max (16384 div b_BytesPerSec b) 4) else x) + extra_res\<rparr>)
     else if b_ResSectors b < x then None
     else Some b)"

definition layout_spc :: "u32 \<Rightarrow> bool \<Rightarrow> u32 \<Rightarrow> bpb \<Rightarrow> bpb" where
  "layout_spc fat1 set_spc rds b =
    (if set_spc then
       spc_loop 8 fat1 rds (b\<lparr>b_SecPerClust := howmany (if fat1 = 16 then DEFBLK16 else DEFBLK) (b_BytesPerSec b)\<rparr>)
     else b)"

text \<open>Clusters and sectors per FAT that the remaining sectors allow.\<close>

definition layout_x :: "u32 \<Rightarrow> u32 \<Rightarrow> bpb \<Rightarrow> u32" where
  "layout_x fat1 x1 b =
     ucast ((ucast (b_HugeSectors b - x1) :: u64) * ucast (b_BytesPerSec b) * 2
            div ucast (b_SecPerClust b * b_BytesPerSec b * NPB + fat1 div BPN * b_FATs b))"

definition layout_x2 :: "u32 \<Rightarrow> u32 \<Rightarrow> bpb \<Rightarrow> u32" where
  "layout_x2 fat1 x b = howmany ((RESFTE + min x (maxcls fat1)) * (fat1 div BPN)) (b_BytesPerSec b * NPB)"

definition layout_step ::
  "bool \<Rightarrow> u32 \<Rightarrow> bool \<Rightarrow> bool \<Rightarrow> bool \<Rightarrow> u32 \<Rightarrow> bpb \<Rightarrow> u32 \<Rightarrow> layout option" where
  "layout_step align fat1 set_res set_spf set_spc saved_x b extra_res = do {
     b \<leftarrow> layout_res fat1 set_res saved_x extra_res b;
     let b = (if fat1 \<noteq> 32 \<and> b_RootDirEnts b = 0 then b\<lparr>b_RootDirEnts := DEFRDE\<rparr> else b);
     let rds = ucast (howmany (ucast (b_RootDirEnts b)) (de_per_sec b));
     let b = layout_spc fat1 set_spc rds b;
     if fat1 \<noteq> 32 \<and> b_BigFATsecs b > MAXU16 then None
     else do {
       let x1 = b_ResSectors b + rds;
       let x = (if b_BigFATsecs b \<noteq> 0 then b_BigFATsecs b else 1);
       if ucast x1 + ucast x * ucast (b_FATs b) > (ucast (b_HugeSectors b) :: u64) then None
       else do {
         let x1 = x1 + x * b_FATs b;
         let x2 = layout_x2 fat1 (layout_x fat1 x1 b) b;
         let b = (if set_spf \<and> b_BigFATsecs b = 0 then b\<lparr>b_BigFATsecs := x2\<rparr> else b);
         let x1 = (if set_spf then x1 + (b_BigFATsecs b - 1) * b_FATs b else x1);
         let alignment = (if set_res then (b_ResSectors b + b_BigFATsecs b * b_FATs b) mod b_SecPerClust b else 0);
         Some \<lparr>l_bpb = b,
               l_extra_res = (if set_res \<and> align then extra_res + (b_SecPerClust b - alignment) else extra_res),
               l_alignment = alignment, l_rds = rds, l_x1 = x1, l_x2 = x2\<rparr> } } }"

text \<open>\<^verbatim>\<open>do { \<dots> } while (o.align && alignment != 0 && attempts < 2)\<close>\<close>

definition mk_layout :: "bool \<Rightarrow> u32 \<Rightarrow> u32 \<Rightarrow> bpb \<Rightarrow> layout option" where
  "mk_layout align fat1 x b =
    (let set_res = (b_ResSectors b = 0); set_spf = (b_BigFATsecs b = 0); set_spc = (b_SecPerClust b = 0)
     in do {
       l \<leftarrow> layout_step align fat1 set_res set_spf set_spc x b 0;
       if align \<and> l_alignment l \<noteq> 0
       then layout_step align fat1 set_res set_spf set_spc x (l_bpb l) (l_extra_res l)
       else Some l })"

text \<open>The number of clusters, cut to what the FAT can hold and to what the FAT type allows.\<close>

definition mk_clusters :: "u32 \<Rightarrow> layout \<Rightarrow> (u32 \<times> bpb) option" where
  "mk_clusters fat1 l =
    (let b = l_bpb l;
         cls = (b_HugeSectors b - l_x1 l) div b_SecPerClust b;
         x = ucast ((ucast (b_BigFATsecs b) :: u64) * ucast (b_BytesPerSec b) * 2 div ucast (fat1 div BPN) - 2);
         cls = (if cls > x then x else cls)
     in if cls < mincls fat1 then None
        else if cls > maxcls fat1 then
          Some (maxcls fat1, b\<lparr>b_HugeSectors := l_x1 l + (maxcls fat1 + 1) * b_SecPerClust b - 1\<rparr>)
        else Some (cls, b))"

definition mk_final :: "u32 \<Rightarrow> bpb \<Rightarrow> bpb" where
  "mk_final fat1 b =
    (let b = (if b_Media b = 0 then b\<lparr>b_Media := if b_HiddenSecs b = 0 then 0xf0 else 0xf8\<rparr> else b);
         b = (if fat1 = 32 then b\<lparr>b_RootClust := RESFTE\<rparr> else b);
         b = (if b_HugeSectors b \<le> MAXU16 then b\<lparr>b_Sectors := b_HugeSectors b, b_HugeSectors := 0\<rparr> else b)
     in if fat1 \<noteq> 32 then b\<lparr>b_FATsecs := b_BigFATsecs b, b_BigFATsecs := 0\<rparr> else b)"

text \<open>
  Everything up to \<^verbatim>\<open>print_bpb\<close>. The result holds what the writing of the image uses: the FAT
  type, the parameters, the root directory sectors, the sectors of the bootstrap and the number of
  clusters that is reported.
\<close>

record plan =
  p_fat :: u32
  p_bpb :: bpb
  p_rds :: u32
  p_bss :: u32
  p_cls :: u32

definition mk_sector_size_ok :: "bpb \<Rightarrow> bool" where
  "mk_sector_size_ok b \<longleftrightarrow>
     \<not> (b_BytesPerSec b < MINBPS \<or> b_BytesPerSec b > MAXBPS \<or> \<not> powerof2 (b_BytesPerSec b))"

definition mk_plan :: "msdos_options \<Rightarrow> u32 option \<Rightarrow> u64 option \<Rightarrow> plan option" where
  "mk_plan o1 ssz dsz = do {
     b \<leftarrow> mk_disk o1 ssz dsz;
     if \<not> mk_sector_size_ok b then None
     else if (case o_volume_label o1 of None \<Rightarrow> False | Some l \<Rightarrow> \<not> oklabel l) then None
     else do {
       (fat1, b) \<leftarrow> mk_fat_option o1 b;
       b \<leftarrow> mk_options o1 b;
       bss \<leftarrow> mk_bss o1 b;
       let b = (if b_FATs b = 0 then b\<lparr>b_FATs := 2\<rparr> else b);
       let fat1 = (if fat1 = 0 then mk_auto_fat bss b else fat1);
       (x, b) \<leftarrow> mk_info fat1 bss b;
       l \<leftarrow> mk_layout (o_align o1) fat1 x b;
       (cls, b) \<leftarrow> mk_clusters fat1 l;
       Some \<lparr>p_fat = fat1, p_bpb = mk_final fat1 b, p_rds = l_rds l, p_bss = bss, p_cls = cls\<rparr> } }"

end
