(* ===== verification/Mkfs_Image.thy ===== *)
theory Mkfs_Image
  imports Mkfs_Layout
begin

text \<open>
  newfs_msdos, third part: the sectors of the image and \<open>mkfs_msdos\<close> itself. A sector is a function
  from offsets to bytes. The sectors are collected in \<^verbatim>\<open>physbuf\<close> and written in chunks, as in the
  code. What the operating system contributes is the record \<open>os\<close>: whether \<^verbatim>\<open>open\<close>,
  \<^verbatim>\<open>ftruncate\<close>, \<^verbatim>\<open>fstat\<close> and \<^verbatim>\<open>sigaction\<close> succeed, the two disk \<^verbatim>\<open>ioctl\<close>s, \<^verbatim>\<open>MAXPHYS\<close> of
  the platform, and the clock.
\<close>

record tm =
  tm_sec :: u32
  tm_min :: u32
  tm_hour :: u32
  tm_mday :: u32
  tm_mon :: u32
  tm_year :: u32

record os =
  os_open :: bool
  os_ftruncate :: bool
  os_fstat :: bool
  os_sigaction :: bool
  os_blksszget :: "u32 option"
  os_blkgetsize64 :: "u64 option"
  os_maxphys :: nat
  os_gmtime :: "int \<Rightarrow> tm"
  os_now :: "tm \<times> u32"

definition le16_bytes :: "u32 \<Rightarrow> byte list" where
  "le16_bytes u = [ucast u, ucast (drop_bit 8 u)]"

section \<open>Sectors\<close>

definition bootcode :: "byte list" where
  "bootcode =
    [0xfa, 0x31, 0xc0, 0x8e, 0xd0, 0xbc, 0x00, 0x7c, 0xfb, 0x8e, 0xd8, 0xe8, 0x00, 0x00, 0x5e, 0x83,
     0xc6, 0x19, 0xbb, 0x07, 0x00, 0xfc, 0xac, 0x84, 0xc0, 0x74, 0x06, 0xb4, 0x0e, 0xcd, 0x10, 0xeb,
     0xf5, 0x30, 0xe4, 0xcd, 0x16, 0xcd, 0x19, 0x0d, 0x0a, 0x4e, 0x6f, 0x6e, 0x2d, 0x73, 0x79, 0x73,
     0x74, 0x65, 0x6d, 0x20, 0x64, 0x69, 0x73, 0x6b, 0x0d, 0x0a, 0x50, 0x72, 0x65, 0x73, 0x73, 0x20,
     0x61, 0x6e, 0x79, 0x20, 0x6b, 0x65, 0x79, 0x20, 0x74, 0x6f, 0x20, 0x72, 0x65, 0x62, 0x6f, 0x6f,
     0x74, 0x0d, 0x0a, 0x00]"

definition volume_id :: "msdos_options \<Rightarrow> tm \<Rightarrow> u32 \<Rightarrow> u32" where
  "volume_id o1 t usec =
    (if o_volume_id_set o1 then o_volume_id o1
     else push_bit 16 ((push_bit 8 (1 + tm_mon t) OR tm_mday t) + (push_bit 8 (tm_sec t) OR usec div 10))
          OR ((1900 + tm_year t) + (push_bit 8 (tm_hour t) OR tm_min t)))"

definition NO_NAME :: "byte list" where
  "NO_NAME = [0x4e, 0x4f, 0x20, 0x4e, 0x41, 0x4d, 0x45]"

definition BSD44 :: "byte list" where
  "BSD44 = [0x42, 0x53, 0x44, 0x34, 0x2e, 0x34, 0x20, 0x20]"

text \<open>\<^verbatim>\<open>snprintf(buf, sizeof(buf), "FAT%u", fat)\<close>; the type has two digits.\<close>

definition fat_name :: "u32 \<Rightarrow> byte list" where
  "fat_name fat1 = [0x46, 0x41, 0x54, 0x30 + ucast (fat1 div 10), 0x30 + ucast (fat1 mod 10)]"

definition bsbpb_bytes :: "bpb \<Rightarrow> byte list" where
  "bsbpb_bytes b =
     le16_bytes (b_BytesPerSec b) @ [ucast (b_SecPerClust b)] @ le16_bytes (b_ResSectors b)
     @ [ucast (b_FATs b)] @ le16_bytes (b_RootDirEnts b) @ le16_bytes (b_Sectors b)
     @ [ucast (b_Media b)] @ le16_bytes (b_FATsecs b) @ le16_bytes (b_SecPerTrack b)
     @ le16_bytes (b_Heads b) @ le32_bytes (b_HiddenSecs b) @ le32_bytes (b_HugeSectors b)"

definition bsxbpb_bytes :: "bpb \<Rightarrow> byte list" where
  "bsxbpb_bytes b =
     le32_bytes (b_BigFATsecs b) @ le16_bytes 0 @ le16_bytes 0 @ le32_bytes (b_RootClust b)
     @ le16_bytes (b_FSInfo b) @ le16_bytes (b_Backup b)"

definition boot_sector ::
  "msdos_options \<Rightarrow> u32 \<Rightarrow> bpb \<Rightarrow> tm \<Rightarrow> u32 \<Rightarrow> (nat \<Rightarrow> byte) \<Rightarrow> nat \<Rightarrow> byte" where
  "boot_sector o1 fat1 b t usec img =
    (let x1 = (if fat1 = 32 then 64 else 36);
         img = put_bytes 11 (bsbpb_bytes b) img;
         img = (if fat1 = 32 then put_bytes 36 (bsxbpb_bytes b) img else img);
         img = put_bytes (x1 + 2) (0x29 # le32_bytes (volume_id o1 t usec)
                 @ mklabel (case o_volume_label o1 of Some l \<Rightarrow> l | None \<Rightarrow> NO_NAME)
                 @ setstr (fat_name fat1) 8) img
     in if o_bootstrap o1 = None then
          put_bytes 510 [0x55, 0xaa] (put_bytes (x1 + 26) bootcode
            (put_bytes 0 ([0xeb, of_nat (x1 + 26 - 2), 0x90]
               @ setstr (case o_OEM_string o1 of Some s \<Rightarrow> s | None \<Rightarrow> BSD44) 8) img))
        else img)"

definition fsinfo_sector :: "(nat \<Rightarrow> byte) \<Rightarrow> nat \<Rightarrow> byte" where
  "fsinfo_sector img =
     put_bytes 510 [0x55, 0xaa] (put_bytes 492 (le32_bytes 0xffffffff) (put_bytes 488 (le32_bytes 0xffffffff)
       (put_bytes 484 (le32_bytes 0x61417272) (put_bytes 0 (le32_bytes 0x41615252) img))))"

definition fat_sector :: "u32 \<Rightarrow> bpb \<Rightarrow> (nat \<Rightarrow> byte) \<Rightarrow> nat \<Rightarrow> byte" where
  "fat_sector fat1 b img =
     put_bytes 0 (ucast (b_Media b)
       # map (\<lambda>x. if fat1 = 32 \<and> x mod 4 = 3 then 0x0f else 0xff)
             [1..<unat (fat1 * (if fat1 = 32 then 3 else 2) div 8)]) img"

definition label_sector :: "byte list \<Rightarrow> tm \<Rightarrow> (nat \<Rightarrow> byte) \<Rightarrow> nat \<Rightarrow> byte" where
  "label_sector l t img =
    (let mtime = push_bit 11 (tm_hour t) OR push_bit 5 (tm_min t) OR drop_bit 1 (tm_sec t);
         mdate = push_bit 9 (tm_year t - 80) OR push_bit 5 (tm_mon t + 1) OR tm_mday t
     in put_bytes 22 (le16_bytes mtime @ le16_bytes mdate) (put_bytes 0 (mklabel l @ [0x28]) img))"

definition spf :: "bpb \<Rightarrow> u32" where
  "spf b = (if b_FATsecs b \<noteq> 0 then b_FATsecs b else b_BigFATsecs b)"

definition mk_dir :: "bpb \<Rightarrow> u32" where
  "mk_dir b = b_ResSectors b + spf b * b_FATs b"

text \<open>The contents of sector \<open>lsn\<close>, on top of the bootstrap or of zeros.\<close>

definition mk_sector :: "msdos_options \<Rightarrow> plan \<Rightarrow> tm \<Rightarrow> u32 \<Rightarrow> u32 \<Rightarrow> (nat \<Rightarrow> byte) \<Rightarrow> nat \<Rightarrow> byte" where
  "mk_sector o1 p t usec lsn img =
    (let b = p_bpb p; fat1 = p_fat p; dir = mk_dir b
     in if lsn = 0 \<or> fat1 = 32 \<and> b_Backup b \<noteq> MAXU16 \<and> lsn = b_Backup b then boot_sector o1 fat1 b t usec img
        else if fat1 = 32 \<and> b_FSInfo b \<noteq> MAXU16
                \<and> (lsn = b_FSInfo b \<or> b_Backup b \<noteq> MAXU16 \<and> lsn = b_Backup b + b_FSInfo b)
        then fsinfo_sector img
        else if lsn \<ge> b_ResSectors b \<and> lsn < dir \<and> (lsn - b_ResSectors b) mod spf b = 0
        then fat_sector fat1 b img
        else case o_volume_label o1 of
          Some l \<Rightarrow> if lsn = dir then label_sector l t img else img
        | None \<Rightarrow> img)"

section \<open>Writing the image\<close>

text \<open>
  \<open>boot_read\<close>: the sector that the bootstrap file contributes, with the position in that file;
  \<open>Inl\<close> is a failure. When the copy for the backup starts, the code seeks to \<^verbatim>\<open>o.offset\<close> in the
  bootstrap file and takes a result other than 0 for an error.
\<close>

definition boot_read :: "msdos_options \<Rightarrow> plan \<Rightarrow> u32 \<Rightarrow> nat \<Rightarrow> unit + ((nat \<Rightarrow> byte) \<times> nat)" where
  "boot_read o1 p lsn fpos =
    (case o_bootstrap o1 of
       Some (Regular f) \<Rightarrow>
         (let b = p_bpb p; bps = unat (b_BytesPerSec b);
              again = (p_fat p = 32 \<and> b_Backup b \<noteq> MAXU16 \<and> p_bss p \<le> b_Backup b \<and> lsn \<ge> b_Backup b);
              x = (if again then lsn - b_Backup b else lsn)
          in if again \<and> x = 0 \<and> o_offset o1 \<noteq> 0 then Inl ()
             else let fpos = (if again \<and> x = 0 then 0 else fpos)
                  in if x < p_bss p then
                       (if blen f < fpos + bps then Inl () else Inr (\<lambda>k. bdat f (fpos + k), fpos + bps))
                     else Inr (\<lambda>_. 0, fpos))
     | _ \<Rightarrow> Inr (\<lambda>_. 0, fpos))"

text \<open>
  The loop over the sectors: \<open>n\<close> sectors are left, \<open>img\<close> is the offset in \<^verbatim>\<open>physbuf\<close>. The result is
  whether all writes succeeded, the buffer and the offset.
\<close>

primrec write_sectors ::
  "nat \<Rightarrow> msdos_options \<Rightarrow> plan \<Rightarrow> tm \<Rightarrow> u32 \<Rightarrow> u32 \<Rightarrow> nat \<Rightarrow> buf \<Rightarrow> nat \<Rightarrow> env
     \<Rightarrow> ((bool \<times> buf \<times> nat) \<times> env) option" where
  "write_sectors 0 o1 p t usec lsn fpos phys img s = Some ((True, phys, img), s)"
| "write_sectors (Suc n) o1 p t usec lsn fpos phys img s =
    (let bps = unat (b_BytesPerSec (p_bpb p))
     in case boot_read o1 p lsn fpos of
       Inl _ \<Rightarrow> Some ((False, phys, img), s)
     | Inr (sec, fpos) \<Rightarrow>
         if blen phys < img + bps then None
         else do {
           let phys = phys\<lparr>bdat := blit (mk_sector o1 p t usec lsn sec) 0 bps (bdat phys) img\<rparr>;
           let img = img + bps;
           if img \<ge> blen phys then do {
             (ok, s) \<leftarrow> dwrite (blen phys) 0 phys s;
             if \<not> ok then Some ((False, phys, img), s)
             else write_sectors n o1 p t usec (lsn + 1) fpos phys 0 s }
           else write_sectors n o1 p t usec (lsn + 1) fpos phys img s })"

definition write_image :: "msdos_options \<Rightarrow> plan \<Rightarrow> tm \<Rightarrow> u32 \<Rightarrow> buf \<Rightarrow> env \<Rightarrow> (bool \<times> env) option" where
  "write_image o1 p t usec phys s = do {
     ((ok, phys, img), s) \<leftarrow> write_sectors
       (unat (mk_dir (p_bpb p) + (if p_fat p = 32 then b_SecPerClust (p_bpb p) else p_rds p)))
       o1 p t usec 0 0 phys 0 s;
     if \<not> ok then Some (False, s)
     else if img \<noteq> 0 then dwrite img 0 phys s
     else Some (True, s) }"

text \<open>\<open>getchunksize\<close> with its assertions; a failed assertion does not return.\<close>

definition getchunksize :: "nat \<Rightarrow> nat option" where
  "getchunksize maxphys = (if (maxphys - 1) AND maxphys = 0 \<and> maxphys > 4096 then Some maxphys else None)"

definition mkfs_open :: "os \<Rightarrow> msdos_options \<Rightarrow> env \<Rightarrow> bool \<times> env" where
  "mkfs_open os1 o1 s =
    (if o_block_size o1 \<noteq> 0 \<and> o_sectors_per_cluster o1 \<noteq> 0 then (False, s)
     else if (case o_OEM_string o1 of None \<Rightarrow> False | Some n \<Rightarrow> length n > 8) then (False, s)
     else if o_create_size o1 \<noteq> 0 \<and> o_no_create o1 then (False, s)
     else if \<not> os_open os1 then (False, s)
     else
       (let s = s\<lparr>pos := 0\<rparr>;
            s = (if o_create_size o1 \<noteq> 0
                 then s\<lparr>dev := \<lparr>blen = (if os_ftruncate os1 then unat (o_create_size o1) else 0), bdat = \<lambda>_. 0\<rparr>\<rparr>
                 else s)
        in if o_create_size o1 \<noteq> 0 \<and> \<not> os_ftruncate os1 then (False, s)
           else if \<not> os_fstat os1 then (False, s)
           else if o_offset o1 \<noteq> 0 then lseek (unat (o_offset o1)) s
           else (True, s)))"

definition mkfs_write :: "os \<Rightarrow> msdos_options \<Rightarrow> plan \<Rightarrow> env \<Rightarrow> (int \<times> env) option" where
  "mkfs_write os1 o1 p s =
    (case (if o_timestamp_set o1 then (os_gmtime os1 (o_timestamp o1), 0) else os_now os1) of (t, usec) \<Rightarrow>
       do {
         chunksize \<leftarrow> getchunksize (os_maxphys os1);
         case malloc chunksize s of
           (None, s) \<Rightarrow> Some (-1, s)
         | (Some phys, s) \<Rightarrow>
             if \<not> os_sigaction os1 then Some (-1, s)
             else do {
               (ok, s) \<leftarrow> write_image o1 p t usec phys s;
               Some (if ok then 0 else -1, s) } })"

definition mkfs_msdos :: "os \<Rightarrow> msdos_options \<Rightarrow> env \<Rightarrow> (int \<times> env) option" where
  "mkfs_msdos os1 o1 s =
    (case mkfs_open os1 o1 s of (ok, s) \<Rightarrow>
       if \<not> ok then Some (-1, s)
       else case mk_plan o1 (os_blksszget os1) (os_blkgetsize64 os1) of
         None \<Rightarrow> Some (-1, s)
       | Some p \<Rightarrow> if o_no_create o1 then Some (0, s) else mkfs_write os1 o1 p s)"

end
