(* ===== verification/Newfs_Main.thy ===== *)
theory Newfs_Main
  imports Mkfs_Image
begin

text \<open>
  newfs_msdos.c: the numeric option arguments, the option loop and \<open>main\<close>. As in the computation of
  the parameters, \<open>None\<close> is an exit with status 1. \<open>strto\<close> is the part that \<^verbatim>\<open>strtoul\<close> and
  \<^verbatim>\<open>strtoll\<close> share with base 0: blanks, sign, prefix and digits. The option letters with their
  arguments come from \<^verbatim>\<open>getopt\<close>; what \<^verbatim>\<open>stat\<close> says of a file and the contents of a bootstrap file
  are arguments.
\<close>

section \<open>Numbers\<close>

definition is_space :: "char \<Rightarrow> bool" where
  "is_space c \<longleftrightarrow> c = CHR '' '' \<or> of_char c \<in> {9::nat, 10, 11, 12, 13}"

definition digit_val :: "char \<Rightarrow> nat option" where
  "digit_val c =
    (let n = of_char c :: nat
     in if 48 \<le> n \<and> n \<le> 57 then Some (n - 48)
        else if 97 \<le> n \<and> n \<le> 102 then Some (n - 87)
        else if 65 \<le> n \<and> n \<le> 70 then Some (n - 55)
        else None)"

definition is_digit :: "nat \<Rightarrow> char \<Rightarrow> bool" where
  "is_digit base c = (case digit_val c of None \<Rightarrow> False | Some d \<Rightarrow> d < base)"

definition number :: "nat \<Rightarrow> string \<Rightarrow> nat" where
  "number base cs = foldl (\<lambda>n c. base * n + the (digit_val c)) 0 cs"

definition split_sign :: "string \<Rightarrow> bool \<times> string" where
  "split_sign cs =
    (case cs of
       [] \<Rightarrow> (False, [])
     | c # r \<Rightarrow> if c = CHR ''-'' then (True, r) else if c = CHR ''+'' then (False, r) else (False, cs))"

definition split_base :: "string \<Rightarrow> nat \<times> string" where
  "split_base cs =
    (case cs of
       c0 # c1 # c2 # r \<Rightarrow>
         if c0 = CHR ''0'' \<and> (c1 = CHR ''x'' \<or> c1 = CHR ''X'') \<and> is_digit 16 c2 then (16, c2 # r)
         else if c0 = CHR ''0'' then (8, cs) else (10, cs)
     | c0 # _ \<Rightarrow> if c0 = CHR ''0'' then (8, cs) else (10, cs)
     | [] \<Rightarrow> (10, cs))"

text \<open>Sign, magnitude and the rest of the string; \<open>None\<close> when there is nothing to convert.\<close>

definition strto :: "string \<Rightarrow> (bool \<times> nat \<times> string) option" where
  "strto cs =
    (case split_sign (dropWhile is_space cs) of (neg, cs) \<Rightarrow>
       case split_base cs of (base, cs) \<Rightarrow>
         if takeWhile (is_digit base) cs = [] then None
         else Some (neg, number base (takeWhile (is_digit base) cs), dropWhile (is_digit base) cs))"

text \<open>The results are: whether \<^verbatim>\<open>errno\<close> is set, the value, and the rest.\<close>

definition strtoul :: "string \<Rightarrow> bool \<times> u64 \<times> string" where
  "strtoul cs =
    (case strto cs of
       None \<Rightarrow> (False, 0, cs)
     | Some (neg, m, rest) \<Rightarrow>
         if m \<ge> 2 ^ 64 then (True, - 1, rest)
         else (False, if neg then - of_nat m else of_nat m, rest))"

definition strtoll :: "string \<Rightarrow> bool \<times> int \<times> string" where
  "strtoll cs =
    (case strto cs of
       None \<Rightarrow> (False, 0, cs)
     | Some (neg, m, rest) \<Rightarrow>
         if neg then (if m > 2 ^ 63 then (True, - (2 ^ 63), rest) else (False, - int m, rest))
         else (if m \<ge> 2 ^ 63 then (True, 2 ^ 63 - 1, rest) else (False, int m, rest)))"

definition argtou :: "string \<Rightarrow> u32 \<Rightarrow> u32 \<Rightarrow> u32 option" where
  "argtou arg lo hi =
    (case strtoul arg of (err, x, s) \<Rightarrow>
       if err \<or> arg = [] \<or> s \<noteq> [] \<or> x < ucast lo \<or> x > ucast hi then None
       else Some (ucast x))"

text \<open>
  \<open>argtooff\<close>: the multiplier is a shift of a 64-bit value. (The C shift is undefined when the
  result does not fit; here it wraps around.)
\<close>

definition off_shift :: "char \<Rightarrow> nat option" where
  "off_shift c =
    (if c \<in> {CHR ''s'', CHR ''S''} then Some 9
     else if c \<in> {CHR ''k'', CHR ''K''} then Some 10
     else if c \<in> {CHR ''m'', CHR ''M''} then Some 20
     else if c \<in> {CHR ''g'', CHR ''G''} then Some 30
     else None)"

definition argtooff :: "string \<Rightarrow> u64 option" where
  "argtooff arg =
    (case strtoll arg of (err, x, s) \<Rightarrow>
       if err \<or> x < 0 then None
       else case s of
         [] \<Rightarrow> Some (of_int x)
       | [c] \<Rightarrow> do { k \<leftarrow> off_shift c; Some (push_bit k (of_int x)) }
       | _ \<Rightarrow> None)"

definition get_tstamp :: "(string \<Rightarrow> int option) \<Rightarrow> string \<Rightarrow> int option" where
  "get_tstamp mtime b =
    (case mtime b of
       Some t \<Rightarrow> Some t
     | None \<Rightarrow> (case strtoll b of (err, l, eb) \<Rightarrow> if strto b = None \<or> eb \<noteq> [] \<or> err then None else Some l))"

section \<open>main()\<close>

definition zero_options :: msdos_options where
  "zero_options = \<lparr>o_offset = 0, o_align = False, o_bootstrap = None, o_create_size = 0, o_fat_type = 0,
     o_volume_id = 0, o_volume_label = None, o_no_create = False, o_OEM_string = None,
     o_bytes_per_sector = 0, o_timestamp = 0, o_sectors_per_fat = 0, o_block_size = 0,
     o_sectors_per_cluster = 0, o_directory_entries = 0, o_floppy = None, o_drive_heads = 0,
     o_info_sector = 0, o_backup_sector = 0, o_media_descriptor = 0, o_num_FAT = 0, o_hidden_sectors = 0,
     o_reserved_sectors = 0, o_size = 0, o_sectors_per_track = 0, o_timestamp_set = False,
     o_volume_id_set = False, o_media_descriptor_set = False, o_hidden_sectors_set = False\<rparr>"

definition bytes_of :: "string \<Rightarrow> byte list" where
  "bytes_of cs = map of_char cs"

text \<open>One option; \<open>files\<close> is the bootstrap file of a name, \<open>mtime\<close> the result of \<^verbatim>\<open>stat\<close>.\<close>

definition newfs_opt ::
  "(string \<Rightarrow> boot_file) \<Rightarrow> (string \<Rightarrow> int option) \<Rightarrow> char \<Rightarrow> string \<Rightarrow> msdos_options \<Rightarrow> msdos_options option"
where
  "newfs_opt files mtime ch arg o1 =
    (if ch = CHR ''@'' then do { x \<leftarrow> argtooff arg; Some (o1\<lparr>o_offset := x\<rparr>) }
     else if ch = CHR ''N'' then Some (o1\<lparr>o_no_create := True\<rparr>)
     else if ch = CHR ''A'' then Some (o1\<lparr>o_align := True\<rparr>)
     else if ch = CHR ''B'' then Some (o1\<lparr>o_bootstrap := Some (files arg)\<rparr>)
     else if ch = CHR ''C'' then do { x \<leftarrow> argtooff arg; Some (o1\<lparr>o_create_size := x\<rparr>) }
     else if ch = CHR ''F'' then
       (if arg = ''12'' then Some (o1\<lparr>o_fat_type := 12\<rparr>)
        else if arg = ''16'' then Some (o1\<lparr>o_fat_type := 16\<rparr>)
        else if arg = ''32'' then Some (o1\<lparr>o_fat_type := 32\<rparr>) else None)
     else if ch = CHR ''I'' then do { x \<leftarrow> argtou arg 0 0xffffffff; Some (o1\<lparr>o_volume_id := x, o_volume_id_set := True\<rparr>) }
     else if ch = CHR ''L'' then Some (o1\<lparr>o_volume_label := Some (bytes_of arg)\<rparr>)
     else if ch = CHR ''O'' then Some (o1\<lparr>o_OEM_string := Some (bytes_of arg)\<rparr>)
     else if ch = CHR ''S'' then do { x \<leftarrow> argtou arg 1 0xffff; Some (o1\<lparr>o_bytes_per_sector := ucast x\<rparr>) }
     else if ch = CHR ''a'' then do { x \<leftarrow> argtou arg 1 0xffffffff; Some (o1\<lparr>o_sectors_per_fat := x\<rparr>) }
     else if ch = CHR ''b'' then do {
       x \<leftarrow> argtou arg 1 0xffffffff; Some (o1\<lparr>o_block_size := x, o_sectors_per_cluster := 0\<rparr>) }
     else if ch = CHR ''c'' then do {
       x \<leftarrow> argtou arg 1 0xff; Some (o1\<lparr>o_sectors_per_cluster := ucast x, o_block_size := 0\<rparr>) }
     else if ch = CHR ''e'' then do { x \<leftarrow> argtou arg 1 0xffff; Some (o1\<lparr>o_directory_entries := ucast x\<rparr>) }
     else if ch = CHR ''f'' then Some (o1\<lparr>o_floppy := Some arg\<rparr>)
     else if ch = CHR ''h'' then do { x \<leftarrow> argtou arg 1 0xffff; Some (o1\<lparr>o_drive_heads := ucast x\<rparr>) }
     else if ch = CHR ''i'' then do { x \<leftarrow> argtou arg 1 0xffff; Some (o1\<lparr>o_info_sector := ucast x\<rparr>) }
     else if ch = CHR ''k'' then do { x \<leftarrow> argtou arg 1 0xffff; Some (o1\<lparr>o_backup_sector := ucast x\<rparr>) }
     else if ch = CHR ''m'' then do {
       x \<leftarrow> argtou arg 0 0xff; Some (o1\<lparr>o_media_descriptor := ucast x, o_media_descriptor_set := True\<rparr>) }
     else if ch = CHR ''n'' then do { x \<leftarrow> argtou arg 1 0xff; Some (o1\<lparr>o_num_FAT := ucast x\<rparr>) }
     else if ch = CHR ''o'' then do {
       x \<leftarrow> argtou arg 0 0xffffffff; Some (o1\<lparr>o_hidden_sectors := x, o_hidden_sectors_set := True\<rparr>) }
     else if ch = CHR ''r'' then do { x \<leftarrow> argtou arg 1 0xffff; Some (o1\<lparr>o_reserved_sectors := ucast x\<rparr>) }
     else if ch = CHR ''s'' then do { x \<leftarrow> argtou arg 1 0xffffffff; Some (o1\<lparr>o_size := x\<rparr>) }
     else if ch = CHR ''T'' then do {
       t \<leftarrow> get_tstamp mtime arg; Some (o1\<lparr>o_timestamp_set := True, o_timestamp := t\<rparr>) }
     else if ch = CHR ''u'' then do { x \<leftarrow> argtou arg 1 0xffff; Some (o1\<lparr>o_sectors_per_track := ucast x\<rparr>) }
     else None)"

primrec newfs_opts ::
  "(string \<Rightarrow> boot_file) \<Rightarrow> (string \<Rightarrow> int option) \<Rightarrow> (char \<times> string) list \<Rightarrow> msdos_options \<Rightarrow> msdos_options option"
where
  "newfs_opts files mtime [] o1 = Some o1"
| "newfs_opts files mtime (x # xs) o1 = do {
     o1 \<leftarrow> newfs_opt files mtime (fst x) (snd x) o1;
     newfs_opts files mtime xs o1 }"

text \<open>\<open>nargs\<close> is the number of operands; the result is the exit status.\<close>

definition newfs_main ::
  "(string \<Rightarrow> boot_file) \<Rightarrow> (string \<Rightarrow> int option) \<Rightarrow> os \<Rightarrow> (char \<times> string) list \<Rightarrow> nat \<Rightarrow> env
     \<Rightarrow> (nat \<times> env) option" where
  "newfs_main files mtime os1 opts1 nargs s =
    (case newfs_opts files mtime opts1 zero_options of
       None \<Rightarrow> Some (1, s)
     | Some o1 \<Rightarrow>
         if nargs < 1 \<or> nargs > 2 then Some (1, s)
         else if o_align o1 \<and> o_reserved_sectors o1 \<noteq> 0 then Some (1, s)
         else do {
           (rv, s) \<leftarrow> mkfs_msdos os1 o1 s;
           Some (if rv \<noteq> 0 then 1 else 0, s) })"

end
