(* ===== verification/Mkfs_Facts.thy ===== *)
theory Mkfs_Facts
  imports Newfs_Main
begin

text \<open>
  What the parameters of a new file system satisfy.
\<close>

section \<open>Arithmetic\<close>

lemma unat_howmany:
  fixes x y :: "'a::len word"
  assumes "0 < unat y" and "unat x + unat y \<le> 2 ^ LENGTH('a)"
  shows "unat (howmany x y) = (unat x + unat y - 1) div unat y"
proof -
  have y: "unat (y - 1) = unat y - 1"
    using assms(1) by (metis unat_minus_one unat_eq_zero not_gr_zero)
  have "unat (x + (y - 1)) = unat x + (unat y - 1)"
    using assms by (subst unat_add_lem [THEN iffD1]) (auto simp: y)
  then show ?thesis using assms(1) by (simp add: howmany_def unat_div_distrib)
qed

lemma unat_mult_small:
  fixes x y :: "'a::len word"
  shows "unat x * unat y < 2 ^ LENGTH('a) \<Longrightarrow> unat (x * y) = unat x * unat y"
  by (rule unat_mult_lem [THEN iffD1])

lemma unat_add_small:
  fixes x y :: "'a::len word"
  shows "unat x + unat y < 2 ^ LENGTH('a) \<Longrightarrow> unat (x + y) = unat x + unat y"
  by (rule unat_add_lem [THEN iffD1])

definition spc_values :: "u32 set" where
  "spc_values = {1, 2, 4, 8, 16, 32, 64, 128}"

definition bps_values :: "u32 set" where
  "bps_values = {512, 1024, 2048, 4096}"

lemma spc_loop_keeps:
  "b_SecPerClust b \<in> spc_values \<Longrightarrow>
   \<exists>s\<in>spc_values. spc_loop n fat1 rds b = b\<lparr>b_SecPerClust := s\<rparr>"
proof (induction n arbitrary: b)
  case 0
  then show ?case by (intro bexI [of _ "b_SecPerClust b"]) simp_all
next
  case (Suc n)
  show ?case
  proof (cases "b_SecPerClust b < 128 \<and> spc_fits fat1 rds b")
    case True
    then have "push_bit 1 (b_SecPerClust b) \<in> spc_values"
      using Suc.prems by (auto simp: spc_values_def)
    with Suc.IH [of "b\<lparr>b_SecPerClust := push_bit 1 (b_SecPerClust b)\<rparr>"] True show ?thesis by auto
  next
    case False
    with Suc.prems show ?thesis by (intro bexI [of _ "b_SecPerClust b"]) auto
  qed
qed

lemma layout_spc_keeps:
  assumes "b_BytesPerSec b \<in> bps_values" "set_spc \<or> b_SecPerClust b \<in> spc_values"
  shows "\<exists>s\<in>spc_values. layout_spc fat1 set_spc rds b = b\<lparr>b_SecPerClust := s\<rparr>"
proof (cases set_spc)
  case True
  have "howmany (if fat1 = 16 then 2048 else 4096) (b_BytesPerSec b) \<in> spc_values"
    using assms(1) by (auto simp: bps_values_def spc_values_def howmany_def)
  then show ?thesis
    using spc_loop_keeps [of "b\<lparr>b_SecPerClust := howmany (if fat1 = 16 then 2048 else 4096) (b_BytesPerSec b)\<rparr>" 8 fat1 rds] True
    by (auto simp: layout_spc_def)
next
  case False
  with assms show ?thesis
    by (auto simp: layout_spc_def intro!: bexI [of _ "b_SecPerClust b"])
qed

lemma rds_eq:
  fixes rde :: u32
  assumes "bps \<in> bps_values" "rde \<le> 0xffff"
  shows "unat (ucast (howmany (ucast rde :: u64) (ucast bps div 32)) :: u32)
    = (unat rde * 32 + unat bps - 1) div unat bps"
    and "unat (ucast (howmany (ucast rde :: u64) (ucast bps div 32)) :: u32) \<le> 4096"
proof -
  have r: "unat rde \<le> 65535" using assms(2) by (simp add: word_le_nat_alt)
  have "unat (ucast rde :: u64) = unat rde" using r by (simp add: unsigned_ucast_eq take_bit_nat_eq_self)
  moreover have d: "unat (ucast bps div 32 :: u64) = unat bps div 32" and p: "unat bps \<in> {512, 1024, 2048, 4096}"
    using assms(1) by (auto simp: bps_values_def)
  ultimately have h: "unat (howmany (ucast rde :: u64) (ucast bps div 32)) = (unat rde + unat bps div 32 - 1) div (unat bps div 32)"
    using r by (subst unat_howmany) auto
  also have "\<dots> = (unat rde * 32 + unat bps - 1) div unat bps"
    using p by auto
  finally have e: "unat (howmany (ucast rde :: u64) (ucast bps div 32)) = (unat rde * 32 + unat bps - 1) div unat bps" .
  have b: "(unat rde * 32 + unat bps - 1) div unat bps \<le> 4096"
    using p r by auto
  show "unat (ucast (howmany (ucast rde :: u64) (ucast bps div 32)) :: u32)
    = (unat rde * 32 + unat bps - 1) div unat bps"
    using e b by (simp add: unsigned_ucast_eq take_bit_nat_eq_self)
  with b show "unat (ucast (howmany (ucast rde :: u64) (ucast bps div 32)) :: u32) \<le> 4096" by simp
qed

text \<open>
  The estimate behind the size of the FAT. \<open>D\<close> sectors are left when every FAT has one sector; the
  sectors of the FATs beyond the first and \<open>x\<close> clusters fit in them.
\<close>

lemma unat_u32_less: "unat (w :: u32) < 2 ^ 32"
  by (rule order.strict_trans2 [OF unsigned_less]) simp

lemma fat_size_fits:
  fixes x S P N F D m B :: nat
  assumes x: "x * (S * (2 * P) + N * F) \<le> D * (2 * P)" and m: "m \<le> x"
    and B: "B = ((2 + m) * N + 2 * P - 1) div (2 * P)"
    and N: "1 \<le> N" "N \<le> 8" and F: "F \<le> 16" and P: "512 \<le> P"
  shows "1 \<le> B" and "(B - 1) * F + x * S \<le> D" and "m + 2 \<le> B * (2 * P) div N"
proof -
  let ?e = "(2 + m) * N"
  have e: "1 \<le> ?e" using N(1) by simp
  have p: "0 < 2 * P" using P by simp
  show B1: "1 \<le> B" unfolding B using e p by (simp add: less_eq_div_iff_mult_less_eq)
  have up: "B * (2 * P) \<le> ?e + 2 * P - 1" unfolding B by (rule div_times_less_eq_dividend)
  have lo: "?e \<le> B * (2 * P)"
  proof -
    have "?e + 2 * P - 1 < (B + 1) * (2 * P)"
      unfolding B using dividend_less_div_times [OF p] by (simp add: algebra_simps)
    then show ?thesis by simp
  qed
  show "m + 2 \<le> B * (2 * P) div N"
    using lo N(1) by (simp add: less_eq_div_iff_mult_less_eq)
  obtain c where c: "B = Suc c" using B1 by (cases B) auto
  have "c * (2 * P) + 1 \<le> ?e"
    using up e by (simp add: c)
  then have "(c * (2 * P) + 1) * F \<le> ?e * F" by (rule mult_le_mono1)
  moreover have "?e * F \<le> (2 + x) * N * F" using m by simp
  ultimately have "(c * (2 * P) + 1) * F \<le> (2 + x) * N * F" by (rule order_trans)
  then have "(B - 1) * F * (2 * P) + x * S * (2 * P) + F \<le> 2 * (N * F) + (x * (S * (2 * P) + N * F))"
    by (simp add: c algebra_simps)
  also have "\<dots> \<le> 256 + D * (2 * P)"
  proof -
    have "N * F \<le> 8 * 16" using N(2) F by (rule mult_le_mono)
    with x show ?thesis by linarith
  qed
  also have "\<dots> < (D + 1) * (2 * P)" using P by (simp add: algebra_simps)
  finally have "((B - 1) * F + x * S) * (2 * P) < (D + 1) * (2 * P)"
    by (simp add: algebra_simps)
  then have "(B - 1) * F + x * S < D + 1" by (metis mult_less_cancel2)
  then show "(B - 1) * F + x * S \<le> D" by simp
qed

lemma unat_layout_x:
  assumes "bps = b_BytesPerSec b" "bps \<in> bps_values" "b_SecPerClust b \<in> spc_values"
    and "unat (b_FATs b) \<le> 16" "fat1 \<in> {12, 16, 32}" "x1 \<le> b_HugeSectors b"
  shows "unat (layout_x fat1 x1 b) =
    (unat (b_HugeSectors b) - unat x1) * (2 * unat bps)
    div (unat (b_SecPerClust b) * (2 * unat bps) + unat (fat1 div 4) * unat (b_FATs b))"
proof -
  let ?h = "unat (b_HugeSectors b) - unat x1"
  have h: "unat (b_HugeSectors b - x1) = ?h" using assms(6) by (rule unat_sub)
  have hl: "?h < 2 ^ 32" using unat_u32_less [of "b_HugeSectors b"] by simp
  have p: "unat bps \<in> {512, 1024, 2048, 4096}" using assms(2) by (auto simp: bps_values_def)
  have s: "unat (b_SecPerClust b) \<in> {1, 2, 4, 8, 16, 32, 64, 128}"
    using assms(3) by (auto simp: spc_values_def)
  have n: "unat (fat1 div 4) \<in> {3, 4, 8}" using assms(5) by auto
  have nf: "unat (fat1 div 4 * b_FATs b) = unat (fat1 div 4) * unat (b_FATs b)"
    using n assms(4) by (intro unat_mult_small) auto
  have nfl: "unat (fat1 div 4) * unat (b_FATs b) \<le> 128" using n assms(4) by auto
  have sp: "unat (b_SecPerClust b * b_BytesPerSec b * 2) = unat (b_SecPerClust b) * (2 * unat bps)"
    using p s assms(1)
    by (subst unat_mult_small, subst unat_mult_small) (auto simp: unat_mult_small)
  have d: "unat (b_SecPerClust b * b_BytesPerSec b * 2 + fat1 div 4 * b_FATs b)
    = unat (b_SecPerClust b) * (2 * unat bps) + unat (fat1 div 4) * unat (b_FATs b)" (is "_ = ?d")
    using p s nfl by (subst unat_add_small) (auto simp: sp nf)
  have dpos: "0 < ?d" using p s by auto
  have num: "unat ((ucast (b_HugeSectors b - x1) :: u64) * ucast (b_BytesPerSec b) * 2) = ?h * (2 * unat bps)"
  proof -
    have 1: "unat (ucast (b_HugeSectors b - x1) :: u64) = ?h"
      using hl by (simp add: unsigned_ucast_eq h take_bit_nat_eq_self)
    have 2: "unat (ucast (b_BytesPerSec b) :: u64) = unat bps"
      using p assms(1) by (auto simp: unsigned_ucast_eq take_bit_nat_eq_self)
    have b: "?h * unat bps < 2 ^ 45"
      using hl p by (auto simp: algebra_simps)
    have 3: "unat ((ucast (b_HugeSectors b - x1) :: u64) * ucast (b_BytesPerSec b)) = ?h * unat bps"
      using b by (subst unat_mult_small) (auto simp: 1 2)
    show ?thesis using b by (subst unat_mult_small) (auto simp: 3 mult.commute [of "unat bps"])
  qed
  have du: "unat (ucast (b_SecPerClust b * b_BytesPerSec b * 2 + fat1 div 4 * b_FATs b) :: u64) = ?d"
    using d unat_u32_less [of "b_SecPerClust b * b_BytesPerSec b * 2 + fat1 div 4 * b_FATs b"]
    by (simp add: unsigned_ucast_eq take_bit_nat_eq_self)
  have "?h * (2 * unat bps) div ?d \<le> ?h"
  proof -
    have "?h * (2 * unat bps) \<le> ?h * ?d" using s by (intro mult_le_mono2) auto
    then have "?h * (2 * unat bps) div ?d \<le> ?h * ?d div ?d" by (rule div_le_mono)
    also have "\<dots> = ?h" using dpos by (intro nonzero_mult_div_cancel_right) blast
    finally show ?thesis .
  qed
  then have "?h * (2 * unat bps) div ?d < 2 ^ 32" using hl by (rule order.strict_trans1)
  then show ?thesis
    unfolding layout_x_def unsigned_ucast_eq [of "_ div _"] unat_div_distrib num du
    by (intro take_bit_nat_eq_self) (simp del: unat_div)
qed

lemma unat_layout_x2:
  assumes "bps = b_BytesPerSec b" "bps \<in> bps_values" "fat1 \<in> {12, 16, 32}"
  shows "unat (layout_x2 fat1 x b) =
    ((2 + min (unat x) (unat (maxcls fat1))) * unat (fat1 div 4) + 2 * unat bps - 1) div (2 * unat bps)"
proof -
  have p: "unat bps \<in> {512, 1024, 2048, 4096}" using assms(2) by (auto simp: bps_values_def)
  have m: "unat (min x (maxcls fat1)) = min (unat x) (unat (maxcls fat1))"
    by (simp add: min_def word_le_nat_alt)
  have ml: "min (unat x) (unat (maxcls fat1)) \<le> 0xffffff4"
    using assms(3) by (auto simp: maxcls_def)
  have a: "unat (2 + min x (maxcls fat1)) = 2 + min (unat x) (unat (maxcls fat1))"
    using ml by (subst unat_add_small) (auto simp: m)
  have n: "unat (fat1 div 4) \<in> {3, 4, 8}" using assms(3) by auto
  have c: "unat ((2 + min x (maxcls fat1)) * (fat1 div 4)) = (2 + min (unat x) (unat (maxcls fat1))) * unat (fat1 div 4)"
    using n ml by (subst unat_mult_small) (auto simp: a)
  have y: "unat (b_BytesPerSec b * 2) = 2 * unat bps"
    using p assms(1) by (subst unat_mult_small) auto
  have "(2 + min (unat x) (unat (maxcls fat1))) * unat (fat1 div 4) \<le> 0x7fffffb0"
    using n ml by auto
  then show ?thesis
    unfolding layout_x2_def using p by (subst unat_howmany) (auto simp: c y)
qed

text \<open>What the parameters satisfy before the layout is computed, and what the layout adds.\<close>

definition params_ok :: "u32 \<Rightarrow> u32 \<Rightarrow> bpb \<Rightarrow> bool" where
  "params_ok fat1 x b \<longleftrightarrow>
     fat1 \<in> {12, 16, 32} \<and> x \<le> 0xffff \<and> b_BytesPerSec b \<in> bps_values \<and>
     (b_SecPerClust b = 0 \<or> b_SecPerClust b \<in> spc_values) \<and>
     0 < unat (b_FATs b) \<and> unat (b_FATs b) \<le> 16 \<and> b_ResSectors b \<le> 0xffff \<and> b_RootDirEnts b \<le> 0xffff"

definition root_ents :: "u32 \<Rightarrow> bpb \<Rightarrow> u32" where
  "root_ents fat1 b = (if fat1 \<noteq> 32 \<and> b_RootDirEnts b = 0 then DEFRDE else b_RootDirEnts b)"

definition root_secs :: "bpb \<Rightarrow> nat" where
  "root_secs b = (unat (b_RootDirEnts b) * 32 + unat (b_BytesPerSec b) - 1) div unat (b_BytesPerSec b)"

definition layout_ok :: "u32 \<Rightarrow> u32 \<Rightarrow> bpb \<Rightarrow> layout \<Rightarrow> bool" where
  "layout_ok fat1 x b l \<longleftrightarrow>
     (\<exists>r s B. l_bpb l = b\<lparr>b_ResSectors := r, b_RootDirEnts := root_ents fat1 b, b_SecPerClust := s, b_BigFATsecs := B\<rparr> \<and>
        x \<le> r \<and> r \<le> 0xffff \<and> s \<in> spc_values \<and> 0 < unat B \<and> (fat1 \<noteq> 32 \<longrightarrow> B \<le> 0xffff)) \<and>
     unat (l_rds l) = root_secs (l_bpb l) \<and>
     unat (l_x1 l) = unat (b_ResSectors (l_bpb l)) + unat (l_rds l)
       + unat (b_BigFATsecs (l_bpb l)) * unat (b_FATs (l_bpb l)) \<and>
     unat (l_x1 l) \<le> unat (b_HugeSectors (l_bpb l))"

lemma layout_res_ok:
  assumes "params_ok fat1 x b" "layout_res fat1 sr x 0 b = Some b'"
  obtains r where "b' = b\<lparr>b_ResSectors := r\<rparr>" "x \<le> r" "r \<le> 0xffff"
proof (cases sr)
  case True
  let ?r = "if fat1 = 32 then max x (max (16384 div b_BytesPerSec b) 4) else x"
  have "b' = b\<lparr>b_ResSectors := ?r\<rparr>" using assms(2) True by (auto simp: layout_res_def)
  moreover have "x \<le> ?r" by simp
  moreover have "16384 div b_BytesPerSec b \<le> 0xffff" "x \<le> 0xffff"
    using assms(1) by (auto simp: params_ok_def bps_values_def)
  then have "?r \<le> 0xffff" by simp
  ultimately show ?thesis by (rule that)
next
  case False
  with assms show ?thesis
    by (intro that [of "b_ResSectors b"])
       (auto simp: layout_res_def params_ok_def not_less split: if_splits)
qed

text \<open>The sectors of the FATs, once everything in front of and behind them is known.\<close>

lemma fat_sectors_ok:
  fixes b :: bpb and x1 x B :: u32
  assumes P: "b_BytesPerSec b \<in> bps_values" and S: "b_SecPerClust b \<in> spc_values"
    and F: "unat (b_FATs b) \<le> 16" and fat: "fat1 \<in> {12, 16, 32}"
    and x1: "unat x1 \<le> 0x11000" and fits: "\<not> ucast x1 + ucast x * ucast (b_FATs b) > (ucast (b_HugeSectors b) :: u64)"
  shows "unat (x1 + x * b_FATs b) = unat x1 + unat x * unat (b_FATs b)"
    and "unat x1 + unat x * unat (b_FATs b) \<le> unat (b_HugeSectors b)"
proof -
  have xl: "unat x < 2 ^ 32" and hl: "unat (b_HugeSectors b) < 2 ^ 32" by (rule unat_u32_less)+
  have xf: "unat x * unat (b_FATs b) \<le> 2 ^ 32 * 16" using xl F by (intro mult_le_mono) auto
  have u: "unat (ucast w :: u64) = unat w" for w :: u32
    using unat_u32_less [of w] by (simp add: unsigned_ucast_eq take_bit_nat_eq_self)
  have "unat ((ucast x :: u64) * ucast (b_FATs b)) = unat x * unat (b_FATs b)"
    using xf by (subst unat_mult_small) (auto simp: u)
  then have "unat ((ucast x1 :: u64) + ucast x * ucast (b_FATs b)) = unat x1 + unat x * unat (b_FATs b)"
    using xf x1 by (subst unat_add_small) (auto simp: u)
  then show le: "unat x1 + unat x * unat (b_FATs b) \<le> unat (b_HugeSectors b)"
    using fits by (simp add: not_less word_le_nat_alt u)
  have "unat (x * b_FATs b) = unat x * unat (b_FATs b)" using le hl by (subst unat_mult_small) auto
  then show "unat (x1 + x * b_FATs b) = unat x1 + unat x * unat (b_FATs b)"
    using le hl by (subst unat_add_small) auto
qed

lemma fat_sectors_default:
  fixes b :: bpb and x1 :: u32
  assumes P: "b_BytesPerSec b \<in> bps_values" and S: "b_SecPerClust b \<in> spc_values"
    and F: "0 < unat (b_FATs b)" "unat (b_FATs b) \<le> 16" and fat: "fat1 \<in> {12, 16, 32}"
    and x1: "unat x1 = r + unat (b_FATs b)" and h: "unat x1 \<le> unat (b_HugeSectors b)"
    and B: "B = layout_x2 fat1 (layout_x fat1 x1 b) b"
  shows "0 < unat B" and "fat1 \<noteq> 32 \<Longrightarrow> B \<le> 0xffff"
    and "unat (x1 + (B - 1) * b_FATs b) = r + unat B * unat (b_FATs b)"
    and "r + unat B * unat (b_FATs b) \<le> unat (b_HugeSectors b)"
proof -
  let ?P = "unat (b_BytesPerSec b)" and ?S = "unat (b_SecPerClust b)" and ?F = "unat (b_FATs b)"
    and ?N = "unat (fat1 div 4)" and ?D = "unat (b_HugeSectors b) - unat x1"
  let ?x = "unat (layout_x fat1 x1 b)" and ?m = "min (unat (layout_x fat1 x1 b)) (unat (maxcls fat1))"
  have p: "?P \<in> {512, 1024, 2048, 4096}" using P by (auto simp: bps_values_def)
  have n: "?N \<in> {3, 4, 8}" using fat by auto
  have "x1 \<le> b_HugeSectors b" using h by (simp add: word_le_nat_alt)
  then have "?x = ?D * (2 * ?P) div (?S * (2 * ?P) + ?N * ?F)"
    using P S F fat by (intro unat_layout_x) auto
  then have x: "?x * (?S * (2 * ?P) + ?N * ?F) \<le> ?D * (2 * ?P)"
    by (simp only: div_times_less_eq_dividend)
  have b: "unat B = ((2 + ?m) * ?N + 2 * ?P - 1) div (2 * ?P)"
    unfolding B using P fat by (intro unat_layout_x2) auto
  have N: "1 \<le> ?N" "?N \<le> 8" "512 \<le> ?P" using n p by auto
  have m: "?m \<le> ?x" by simp
  note ff = fat_size_fits [OF x m b N(1) N(2) F(2) N(3)]
  show B0: "0 < unat B" using ff(1) by (simp only: Suc_le_eq One_nat_def)
  have tot: "(unat B - 1) * ?F \<le> ?D" using ff(2) by (rule add_leD1)
  show "B \<le> 0xffff" if "fat1 \<noteq> 32"
  proof -
    have "?m \<le> 0xfff4" using fat that by (auto simp: maxcls_def)
    then have "(2 + ?m) * ?N \<le> (2 + 0xfff4) * 8" using N(2) by (intro mult_le_mono) auto
    then have "(2 + ?m) * ?N + 2 * ?P - 1 \<le> 0x100000" using p by auto
    then have "unat B \<le> 0x100000 div (2 * ?P)" unfolding b by (rule div_le_mono)
    also have "\<dots> \<le> 0xffff" using p by auto
    finally show ?thesis by (simp add: word_le_nat_alt)
  qed
  obtain c where c: "unat B = Suc c" using B0 by (cases "unat B") auto
  have b1: "unat (B - 1) = c" using c by (metis unat_minus_one diff_Suc_1 nat.simps(3) unat_0)
  have cf: "c * ?F \<le> ?D" using tot by (simp add: c)
  have hl: "unat (b_HugeSectors b) < 2 ^ 32" by (rule unat_u32_less)
  have m1: "unat ((B - 1) * b_FATs b) = c * ?F"
    using cf hl by (subst unat_mult_small) (auto simp: b1)
  show "unat (x1 + (B - 1) * b_FATs b) = r + unat B * ?F"
    using cf hl h by (subst unat_add_small) (auto simp: m1 c x1)
  show "r + unat B * ?F \<le> unat (b_HugeSectors b)"
    using cf h by (simp add: c x1)
qed

lemma layout_okI:
  assumes "l_bpb l = b\<lparr>b_ResSectors := r, b_RootDirEnts := root_ents fat1 b, b_SecPerClust := s, b_BigFATsecs := B\<rparr>"
    and "x \<le> r" "r \<le> 0xffff" "s \<in> spc_values" "0 < unat B" "fat1 \<noteq> 32 \<Longrightarrow> B \<le> 0xffff"
    and "unat (l_rds l) = root_secs (l_bpb l)"
    and "unat (l_x1 l) = unat r + unat (l_rds l) + unat B * unat (b_FATs b)"
    and "unat (l_x1 l) \<le> unat (b_HugeSectors b)"
  shows "layout_ok fat1 x b l"
  unfolding layout_ok_def using assms by (intro conjI exI [of _ r] exI [of _ s] exI [of _ B]) auto

lemma layout_step_ok:
  assumes ok: "params_ok fat1 x b"
    and step: "layout_step False fat1 sr (b_BigFATsecs b = 0) (b_SecPerClust b = 0) x b 0 = Some l"
  shows "layout_ok fat1 x b l"
proof -
  let ?e = "root_ents fat1 b" and ?P = "b_BytesPerSec b" and ?F = "b_FATs b" and ?H = "b_HugeSectors b"
  define rds :: u32 where "rds = ucast (howmany (ucast ?e :: u64) (ucast ?P div 32))"
  have e: "?e \<le> 0xffff" and P: "?P \<in> bps_values" and fat: "fat1 \<in> {12, 16, 32}"
    and F: "0 < unat ?F" "unat ?F \<le> 16"
    using ok by (auto simp: params_ok_def root_ents_def)
  have rds: "unat rds = (unat ?e * 32 + unat ?P - 1) div unat ?P" "unat rds \<le> 4096"
    unfolding rds_def by (rule rds_eq [OF P e])+
  obtain b1 where b1: "layout_res fat1 sr x 0 b = Some b1"
    using step by (auto simp: layout_step_def split: bind_splits)
  obtain r where r: "b1 = b\<lparr>b_ResSectors := r\<rparr>" "x \<le> r" "r \<le> 0xffff"
    using layout_res_ok [OF ok b1] .
  define b2 where "b2 = b\<lparr>b_ResSectors := r, b_RootDirEnts := ?e\<rparr>"
  have b2: "(if fat1 \<noteq> 32 \<and> b_RootDirEnts b1 = 0 then b1\<lparr>b_RootDirEnts := 512\<rparr> else b1) = b2"
    by (simp add: b2_def r root_ents_def)
  have "\<exists>s\<in>spc_values. layout_spc fat1 (b_SecPerClust b = 0) rds b2 = b2\<lparr>b_SecPerClust := s\<rparr>"
    using ok by (intro layout_spc_keeps) (auto simp: b2_def params_ok_def)
  then obtain s where s: "s \<in> spc_values" "layout_spc fat1 (b_SecPerClust b = 0) rds b2 = b2\<lparr>b_SecPerClust := s\<rparr>"
    by blast
  define b3 where "b3 = b2\<lparr>b_SecPerClust := s\<rparr>"
  have b3 [simp]: "b_BytesPerSec b3 = ?P" "b_FATs b3 = ?F" "b_HugeSectors b3 = ?H" "b_SecPerClust b3 = s"
    "b_BigFATsecs b3 = b_BigFATsecs b" "b_ResSectors b3 = r" "b_RootDirEnts b3 = ?e"
    by (simp_all add: b3_def b2_def)
  have rl: "unat r \<le> 0xffff" using r(3) by (simp add: word_le_nat_alt)
  have x1: "unat (r + rds) = unat r + unat rds" using rl rds(2) by (subst unat_add_small) auto
  then have x1l: "unat (r + rds) \<le> 0x11000" using rl rds(2) by simp
  let ?x = "if b_BigFATsecs b \<noteq> 0 then b_BigFATsecs b else 1 :: u32"
  note st = step [unfolded layout_step_def b1 bind.bind_lunit Let_def b2, folded rds_def, unfolded s(2)]
  have rds': "ucast (howmany (ucast (b_RootDirEnts b2) :: u64) (ucast (b_BytesPerSec b2) div 32)) = rds"
    by (simp add: b2_def rds_def)
  note st = st [unfolded rds' s(2), folded b3_def, unfolded b3]
  have fits: "\<not> ucast (r + rds) + ucast ?x * ucast ?F > (ucast ?H :: u64)"
    and big: "\<not> (fat1 \<noteq> 32 \<and> b_BigFATsecs b > 0xffff)"
    using st by (auto split: if_splits)
  have sec: "unat (r + rds + ?x * ?F) = unat r + unat rds + unat ?x * unat ?F"
    "unat r + unat rds + unat ?x * unat ?F \<le> unat ?H"
    using fat_sectors_ok [where b = b3 and x = ?x, OF _ _ _ fat x1l] P s(1) F(2) fits x1 by auto
  show ?thesis
  proof (cases "b_BigFATsecs b = 0")
    case False
    then have l: "l_bpb l = b3" "l_rds l = rds" "l_x1 l = r + rds + ?x * ?F"
      using st fits big by (auto split: if_splits)
    have b3e: "b3 = b\<lparr>b_ResSectors := r, b_RootDirEnts := ?e, b_SecPerClust := s, b_BigFATsecs := b_BigFATsecs b\<rparr>"
      by (simp add: b3_def b2_def)
    show ?thesis
      by (rule layout_okI [OF trans [OF l(1) b3e] r(2,3) s(1)])
         (use big rds sec False in \<open>auto simp: l root_secs_def not_less unat_gt_0\<close>)
  next
    case True
    define B where "B = layout_x2 fat1 (layout_x fat1 (r + rds + ?F) b3) b3"
    have l: "l_bpb l = b3\<lparr>b_BigFATsecs := B\<rparr>" "l_rds l = rds" "l_x1 l = r + rds + ?F + (B - 1) * ?F"
      using st fits True by (auto simp: B_def)
    have fs: "unat (r + rds + ?F) = unat r + unat rds + unat ?F" "unat (r + rds + ?F) \<le> unat ?H"
      using sec True by auto
    note fd = fat_sectors_default [where b = b3 and ?x1.0 = "r + rds + ?F", unfolded b3,
        OF P s(1) F fat fs B_def]
    have b3e: "b3\<lparr>b_BigFATsecs := B\<rparr> = b\<lparr>b_ResSectors := r, b_RootDirEnts := ?e, b_SecPerClust := s, b_BigFATsecs := B\<rparr>"
      by (simp add: b3_def b2_def)
    show ?thesis
      by (rule layout_okI [OF trans [OF l(1) b3e] r(2,3) s(1) fd(1,2)])
         (use rds fd in \<open>auto simp: l root_secs_def\<close>)
  qed
qed

text \<open>The number of clusters: what fits in the volume, in the FAT and in the FAT type.\<close>

definition fat_capacity :: "u32 \<Rightarrow> bpb \<Rightarrow> nat" where
  "fat_capacity fat1 b = unat (b_BigFATsecs b) * unat (b_BytesPerSec b) * 2 div unat (fat1 div BPN)"

lemma unat_fat_capacity:
  assumes "b_BytesPerSec b \<in> bps_values" "fat1 \<in> {12, 16, 32}" "0 < unat (b_BigFATsecs b)"
  shows "unat (ucast ((ucast (b_BigFATsecs b) :: u64) * ucast (b_BytesPerSec b) * 2 div ucast (fat1 div 4) - 2) :: u32)
     = (fat_capacity fat1 b - 2) mod 2 ^ 32"
    and "2 \<le> fat_capacity fat1 b"
proof -
  let ?B = "unat (b_BigFATsecs b)" and ?P = "unat (b_BytesPerSec b)"
  have p: "?P \<in> {512, 1024, 2048, 4096}" using assms(1) by (auto simp: bps_values_def)
  have bl: "?B < 2 ^ 32" by (rule unat_u32_less)
  have u: "unat (ucast w :: u64) = unat w" for w :: u32
    using unat_u32_less [of w] by (simp add: unsigned_ucast_eq take_bit_nat_eq_self)
  have m: "?B * ?P < 2 ^ 45" using bl p by (auto simp: algebra_simps)
  have "unat ((ucast (b_BigFATsecs b) :: u64) * ucast (b_BytesPerSec b)) = ?B * ?P"
    using m by (subst unat_mult_small) (auto simp: u)
  then have "unat ((ucast (b_BigFATsecs b) :: u64) * ucast (b_BytesPerSec b) * 2) = ?B * ?P * 2"
    using m by (subst unat_mult_small) (auto simp: mult.commute [of ?P])
  then have q: "unat ((ucast (b_BigFATsecs b) :: u64) * ucast (b_BytesPerSec b) * 2 div ucast (fat1 div 4)) = fat_capacity fat1 b"
    by (simp only: unat_div_distrib u fat_capacity_def)
  have "1 * 512 \<le> ?B * ?P" using assms(3) p by (intro mult_le_mono) auto
  then show c: "2 \<le> fat_capacity fat1 b"
    unfolding fat_capacity_def using assms(2) by (auto simp: less_eq_div_iff_mult_less_eq)
  have "unat ((ucast (b_BigFATsecs b) :: u64) * ucast (b_BytesPerSec b) * 2 div ucast (fat1 div 4) - 2) = fat_capacity fat1 b - 2"
    using c by (subst unat_sub) (auto simp: word_le_nat_alt q)
  then show "unat (ucast ((ucast (b_BigFATsecs b) :: u64) * ucast (b_BytesPerSec b) * 2 div ucast (fat1 div 4) - 2) :: u32)
     = (fat_capacity fat1 b - 2) mod 2 ^ 32"
    unfolding unsigned_ucast_eq [of "_ - _"] by (simp add: take_bit_eq_mod)
qed

lemma mk_clusters_ok:
  assumes b: "b = l_bpb l" "b_BytesPerSec b \<in> bps_values" "b_SecPerClust b \<in> spc_values"
      "fat1 \<in> {12, 16, 32}" "0 < unat (b_BigFATsecs b)" "unat (l_x1 l) \<le> unat (b_HugeSectors b)"
    and res: "mk_clusters fat1 l = Some (cls, b')"
  shows "\<exists>h. b' = b\<lparr>b_HugeSectors := h\<rparr> \<and> unat h \<le> unat (b_HugeSectors b) \<and>
     unat (l_x1 l) + unat cls * unat (b_SecPerClust b) \<le> unat h \<and>
     (unat cls = (unat h - unat (l_x1 l)) div unat (b_SecPerClust b) \<or> unat cls = (fat_capacity fat1 b - 2) mod 2 ^ 32)"
    and "mincls fat1 \<le> cls" and "cls \<le> maxcls fat1" and "unat cls + 2 \<le> fat_capacity fat1 b"
proof -
  let ?H = "b_HugeSectors b" and ?S = "b_SecPerClust b" and ?x1 = "l_x1 l"
  define c where "c = (?H - ?x1) div ?S"
  define x :: u32 where "x = ucast ((ucast (b_BigFATsecs b) :: u64) * ucast (b_BytesPerSec b) * 2 div ucast (fat1 div 4) - 2)"
  define d where "d = (if c > x then x else c)"
  have s: "0 < unat ?S" "unat ?S \<le> 128" using b(3) by (auto simp: spc_values_def)
  have x: "unat x = (fat_capacity fat1 b - 2) mod 2 ^ 32" and cap: "2 \<le> fat_capacity fat1 b"
    unfolding x_def by (rule unat_fat_capacity [OF b(2,4,5)])+
  have hx: "unat (?H - ?x1) = unat ?H - unat ?x1" using b(6) by (simp add: unat_sub word_le_nat_alt)
  have c: "unat c = (unat ?H - unat ?x1) div unat ?S" by (simp only: c_def unat_div_distrib hx)
  then have cs: "unat c * unat ?S \<le> unat ?H - unat ?x1" by simp
  have dc: "unat d \<le> unat c" and dx: "unat d \<le> unat x" and dd: "d = c \<or> d = x"
    by (auto simp: d_def word_less_nat_alt)
  have xc: "unat x + 2 \<le> fat_capacity fat1 b"
    using cap mod_less_eq_dividend [of "fat_capacity fat1 b - 2" "2 ^ 32"] unfolding x by linarith
  have hl: "unat ?H < 2 ^ 32" by (rule unat_u32_less)
  have r: "(if d < mincls fat1 then None else if d > maxcls fat1 then
     Some (maxcls fat1, b\<lparr>b_HugeSectors := ?x1 + (maxcls fat1 + 1) * ?S - 1\<rparr>) else Some (d, b)) = Some (cls, b')"
    using res unfolding mk_clusters_def Let_def b(1) [symmetric] d_def c_def x_def by simp
  have *: "unat d * unat ?S \<le> unat ?H - unat ?x1" using dc cs by (meson mult_le_mono1 order_trans)
  show "mincls fat1 \<le> cls" "cls \<le> maxcls fat1" "unat cls + 2 \<le> fat_capacity fat1 b"
    using r dx xc by (auto simp: mincls_def maxcls_def not_less word_less_nat_alt word_le_nat_alt split: if_splits)
  show "\<exists>h. b' = b\<lparr>b_HugeSectors := h\<rparr> \<and> unat h \<le> unat (b_HugeSectors b) \<and>
     unat ?x1 + unat cls * unat ?S \<le> unat h \<and>
     (unat cls = (unat h - unat ?x1) div unat ?S \<or> unat cls = (fat_capacity fat1 b - 2) mod 2 ^ 32)"
  proof (cases "d > maxcls fat1")
    case False
    then have "cls = d" "b' = b" using r by (auto split: if_splits)
    moreover have "unat ?x1 + unat d * unat ?S \<le> unat ?H" using * b(6) by linarith
    moreover have "unat d = (unat ?H - unat ?x1) div unat ?S \<or> unat d = (fat_capacity fat1 b - 2) mod 2 ^ 32"
      using dd c x by blast
    ultimately show ?thesis by (intro exI [of _ ?H]) simp
  next
    case True
    let ?m = "maxcls fat1"
    have bb: "cls = ?m" "b' = b\<lparr>b_HugeSectors := ?x1 + (?m + 1) * ?S - 1\<rparr>"
      using r True by (auto split: if_splits)
    have m1: "unat (?m + 1) = unat ?m + 1" by (auto simp: maxcls_def)
    have md: "unat ?m + 1 \<le> unat d" using True by (simp add: word_less_nat_alt)
    then have ms: "(unat ?m + 1) * unat ?S \<le> unat ?H - unat ?x1" using * by (meson mult_le_mono1 order_trans)
    have "unat ((?m + 1) * ?S) = (unat ?m + 1) * unat ?S"
      using ms hl by (subst unat_mult_small) (auto simp: m1)
    then have a: "unat (?x1 + (?m + 1) * ?S) = unat ?x1 + (unat ?m + 1) * unat ?S"
      using ms hl b(6) by (subst unat_add_small) auto
    have "?x1 + (?m + 1) * ?S \<noteq> 0" using a s by (metis add_is_0 mult_is_0 not_gr_zero unat_0 add_eq_0_iff_both_eq_0 one_neq_zero)
    then have h: "unat (?x1 + (?m + 1) * ?S - 1) = unat ?x1 + (unat ?m * unat ?S + (unat ?S - 1))"
      using s a by (simp add: unat_minus_one)
    have dv: "(unat ?m * unat ?S + (unat ?S - 1)) div unat ?S = unat ?m"
      using s(1) by (intro div_nat_eqI) (auto simp: algebra_simps)
    show ?thesis
      unfolding bb
      by (intro exI [of _ "?x1 + (?m + 1) * ?S - 1"] conjI, rule refl)
         (use h ms s b(6) dv in \<open>auto simp: algebra_simps\<close>)
  qed
qed

section \<open>The options\<close>

definition request_ok :: "bpb \<Rightarrow> bool" where
  "request_ok b \<longleftrightarrow>
     b_SecPerClust b \<in> insert 0 spc_values \<and> b_FATs b \<le> 16 \<and> b_ResSectors b \<le> 0xffff \<and>
     b_RootDirEnts b \<le> 0xffff \<and> b_Media b < 0x100 \<and> b_FSInfo b \<le> 0xffff \<and> b_Backup b \<le> 0xffff \<and>
     b_SecPerTrack b \<le> 0xffff \<and> b_Heads b \<le> 0xffff \<and>
     b_Sectors b = 0 \<and> b_FATsecs b = 0 \<and> b_RootClust b = 0"

lemma ucast_u16_le: "(ucast (w :: u16) :: u32) \<le> 0xffff"
proof -
  have "unat w < 2 ^ LENGTH(16)" by (rule unsigned_less)
  then show ?thesis by (simp add: word_le_nat_alt unsigned_ucast_eq take_bit_nat_eq_self)
qed

lemma default_spc_value: "default_spc n \<in> spc_values"
  by (simp add: default_spc_def spc_values_def)

lemma getstdfmt_ok:
  assumes "getstdfmt f = Some b"
  shows "request_ok (b\<lparr>b_HugeSectors := b_Sectors b, b_Sectors := 0, b_BigFATsecs := b_FATsecs b, b_FATsecs := 0\<rparr>)"
    and "b_SecPerClust b \<noteq> 0"
proof -
  have "b \<in> snd ` set stdfmt" using assms unfolding getstdfmt_def by (metis map_of_SomeD image_eqI snd_conv)
  then show "request_ok (b\<lparr>b_HugeSectors := b_Sectors b, b_Sectors := 0, b_BigFATsecs := b_FATsecs b, b_FATsecs := 0\<rparr>)"
    "b_SecPerClust b \<noteq> 0"
    by (auto simp: stdfmt_def fmt_def request_ok_def spc_values_def)
qed

lemma request_ok_upds [simp]:
  "request_ok b \<Longrightarrow> request_ok (b\<lparr>b_BytesPerSec := p\<rparr>)"
  "request_ok b \<Longrightarrow> request_ok (b\<lparr>b_HugeSectors := p\<rparr>)"
  "request_ok b \<Longrightarrow> request_ok (b\<lparr>b_HiddenSecs := p\<rparr>)"
  "request_ok b \<Longrightarrow> request_ok (b\<lparr>b_BigFATsecs := p\<rparr>)"
  "request_ok b \<Longrightarrow> s \<in> insert 0 spc_values \<Longrightarrow> request_ok (b\<lparr>b_SecPerClust := s\<rparr>)"
  "request_ok b \<Longrightarrow> n \<le> 0xffff \<Longrightarrow> request_ok (b\<lparr>b_Heads := n\<rparr>)"
  "request_ok b \<Longrightarrow> n \<le> 0xffff \<Longrightarrow> request_ok (b\<lparr>b_SecPerTrack := n\<rparr>)"
  "request_ok b \<Longrightarrow> n \<le> 0xffff \<Longrightarrow> request_ok (b\<lparr>b_ResSectors := n\<rparr>)"
  "request_ok b \<Longrightarrow> n \<le> 0xffff \<Longrightarrow> request_ok (b\<lparr>b_RootDirEnts := n\<rparr>)"
  "request_ok b \<Longrightarrow> n \<le> 0xffff \<Longrightarrow> request_ok (b\<lparr>b_FSInfo := n\<rparr>)"
  "request_ok b \<Longrightarrow> n \<le> 0xffff \<Longrightarrow> request_ok (b\<lparr>b_Backup := n\<rparr>)"
  "request_ok b \<Longrightarrow> n \<le> 16 \<Longrightarrow> request_ok (b\<lparr>b_FATs := n\<rparr>)"
  "request_ok b \<Longrightarrow> n < 0x100 \<Longrightarrow> request_ok (b\<lparr>b_Media := n\<rparr>)"
  by (simp_all add: request_ok_def)

lemma mk_disk_ok:
  assumes "mk_disk o1 ssz dsz = Some b"
  shows "request_ok b" and "o_floppy o1 = None \<Longrightarrow> b_RootDirEnts b = 0"
proof -
  define m where "m = (case o_floppy o1 of
            None \<Rightarrow> Some zero_bpb
          | Some f \<Rightarrow> do {
              b \<leftarrow> getstdfmt f;
              Some (b\<lparr>b_HugeSectors := b_Sectors b, b_Sectors := 0, b_BigFATsecs := b_FATsecs b,
                      b_FATsecs := 0\<rparr>) })"
  obtain b0 where b0: "m = Some b0"
    using assms by (auto simp: mk_disk_def m_def split: bind_splits)
  have r0: "request_ok b0"
    using b0 by (auto simp: m_def zero_bpb_def fmt_def request_ok_def spc_values_def split: option.splits bind_splits
        dest!: getstdfmt_ok(1))
  have e0: "o_floppy o1 = None \<Longrightarrow> b_RootDirEnts b0 = 0"
    using b0 by (auto simp: m_def zero_bpb_def fmt_def)
  note d = assms [unfolded mk_disk_def, folded m_def, unfolded b0 bind.bind_lunit Let_def]
  show "request_ok b"
    using d r0 by (auto simp: getdiskinfo_def ucast_u16_le default_spc_value Let_def split: if_splits bind_splits)
  show "o_floppy o1 = None \<Longrightarrow> b_RootDirEnts b = 0"
    using d e0 by (auto simp: getdiskinfo_def Let_def split: if_splits bind_splits)
qed

lemma u32_of_power:
  assumes "powerof2 w" "p \<in> bps_values" "\<not> w < p" "\<not> w > p * 128"
  shows "w div p \<in> spc_values"
proof -
  have "w \<noteq> 0" using assms(2,3) by (auto simp: bps_values_def)
  then obtain k where k: "k < 32" "w = 2 ^ k" using powerof2_cases assms(1) by blast
  have "k \<in> set [0..<32]" using k(1) by simp
  then show ?thesis
    using assms(2-4) k(2) by (simp add: upt_rec bps_values_def spc_values_def) fastforce
qed

lemma unat_ucast_byte: "unat (ucast (c :: byte) :: u32) = unat c"
proof -
  have "unat c < 2 ^ LENGTH(8)" by (rule unsigned_less)
  then show ?thesis by (simp add: unsigned_ucast_eq take_bit_nat_eq_self)
qed

lemma ucast_spc_value:
  fixes c :: byte
  assumes "powerof2 (ucast c)" "c \<noteq> 0"
  shows "ucast c \<in> spc_values"
proof -
  have "(ucast c :: u32) \<noteq> 0" using assms(2) by (metis unat_ucast_byte unat_eq_zero)
  then show ?thesis
    using cluster_sizes [OF assms(1) _ order.strict_trans2 [OF ucast_byte_less]] by (simp add: spc_values_def)
qed

lemma post_step: "post m P \<Longrightarrow> (\<And>x. P x \<Longrightarrow> post (f x) Q) \<Longrightarrow> post (Option.bind m f) Q"
  by (auto simp: post_def Option.bind_eq_Some_conv)

lemma post_let_step: "P v \<Longrightarrow> (\<And>x. P x \<Longrightarrow> post (f x) Q) \<Longrightarrow> post (Let v f) Q"
  by simp

lemma mk_options_post:
  assumes b: "request_ok b" "b_BytesPerSec b \<in> bps_values"
  shows "post (mk_options o1 b) (\<lambda>r. request_ok r \<and> b_BytesPerSec r = b_BytesPerSec b \<and>
    b_RootDirEnts r = (if o_directory_entries o1 \<noteq> 0 then ucast (o_directory_entries o1) else b_RootDirEnts b))"
proof -
  define R where "R e r \<longleftrightarrow> request_ok r \<and> b_BytesPerSec r = b_BytesPerSec b \<and> b_RootDirEnts r = e" for e r
  let ?R = "R (b_RootDirEnts b)" and ?E = "R (if o_directory_entries o1 \<noteq> 0 then ucast (o_directory_entries o1) else b_RootDirEnts b)"
  have m: "ucast (o_media_descriptor o1) < (0x100 :: u32)" by (rule ucast_byte_less)
  have bs: "post (mk_block_size o1 b) ?R"
    using b u32_of_power [OF _ b(2), of "o_block_size o1"] by (auto simp: mk_block_size_def post_def R_def)
  have "post (mk_options o1 b) ?E"
    unfolding mk_options_def
    apply (rule post_step [OF bs])
    apply (rule post_step [where P = ?R])
    subgoal by (auto simp: post_def R_def ucast_spc_value)
    apply (rule post_let_step [where P = ?R])
    subgoal by (auto simp: R_def ucast_u16_le)
    apply (rule post_step [where P = ?R])
    subgoal by (auto simp: post_def R_def not_less)
    apply (rule post_let_step [where P = ?E])
    subgoal by (auto simp: R_def ucast_u16_le)
    apply (rule post_step [where P = ?E])
    subgoal using m by (auto simp: post_def R_def)
    apply (rule post_let_step [where P = ?E])
    subgoal by (auto simp: R_def)
    apply (rule post_let_step [where P = ?E])
    subgoal by (auto simp: R_def ucast_u16_le)
    subgoal by (auto simp: post_def R_def ucast_u16_le)
    done
  then show ?thesis by (rule post_mono) (simp add: R_def)
qed

lemma mk_bss_ok:
  assumes "mk_bss o1 b = Some bss" "b_BytesPerSec b \<in> bps_values"
  shows "1 \<le> bss" and "bss \<le> 0xffff"
proof -
  let ?p = "unat (b_BytesPerSec b)"
  have p: "?p \<in> {512, 1024, 2048, 4096}" using assms(2) by (auto simp: bps_values_def)
  have m: "unat (b_BytesPerSec b * 0xffff) = ?p * 0xffff" using p by (subst unat_mult_small) auto
  have "1 \<le> bss \<and> bss \<le> 0xffff"
  proof (cases "o_bootstrap o1")
    case None
    then show ?thesis using assms(1) by (auto simp: mk_bss_def)
  next
    case (Some a)
    then obtain f where f: "a = Regular f" using assms(1) by (cases a) (auto simp: mk_bss_def)
    have l: "?p \<le> blen f" "blen f \<le> ?p * 0xffff" and b: "bss = of_nat (blen f div ?p)"
      using assms(1) Some f by (auto simp: mk_bss_def Let_def m not_less split: if_splits)
    have "1 \<le> blen f div ?p" using l(1) p by (simp add: less_eq_div_iff_mult_less_eq) auto
    moreover have u: "blen f div ?p \<le> 0xffff"
      using l(2) p by (intro div_le_mono [OF l(2), of ?p, THEN order_trans]) auto
    ultimately show ?thesis by (simp add: b word_le_nat_alt unat_of_nat take_bit_nat_eq_self)
  qed
  then show "1 \<le> bss" "bss \<le> 0xffff" by simp_all
qed

lemma unat_plus1: "w < v \<Longrightarrow> unat (w + 1 :: u32) = unat w + 1"
  using unat_u32_less [of v] by (subst unat_add_small) (auto simp: word_less_nat_alt)

lemma mk_info_ok:
  assumes "mk_info 32 bss b = Some (x, b')" "request_ok b" "bss \<le> 0xffff"
  shows "\<exists>i k. b' = b\<lparr>b_FSInfo := i, b_Backup := k\<rparr> \<and> i \<le> 0xffff \<and> k \<le> 0xffff \<and>
       (i = 0xffff \<or> i < x) \<and> (k = 0xffff \<or> k < x) \<and> (i = k \<longrightarrow> i = 0xffff) \<and> bss \<le> x \<and> x \<le> 0xffff"
proof -
  have le: "b_FSInfo b \<le> 0xffff" "b_Backup b \<le> 0xffff" using assms(2) by (simp_all add: request_ok_def)
  define i where "i = (if b_FSInfo b = 0 then bss else b_FSInfo b)"
  define y where "y = (if i \<noteq> 0xffff \<and> bss \<le> i then i + 1 else bss)"
  define k where "k = (if b_Backup b = 0 then y else b_Backup b)"
  have f: "(if b_FSInfo b = 0 then (if bss = 0xffff \<or> bss = b_Backup b then None else Some (b\<lparr>b_FSInfo := bss\<rparr>))
      else Some b) = Some (b\<lparr>b_FSInfo := i\<rparr>)"
    using assms(1) by (auto simp: mk_info_def i_def split: if_splits bind_splits)
  have st: "do { c \<leftarrow> (if b_Backup b = 0 then (if y = 0xffff then None else Some (b\<lparr>b_FSInfo := i, b_Backup := y\<rparr>))
            else if b_Backup b \<noteq> 0xffff \<and> b_Backup b = i then None else Some (b\<lparr>b_FSInfo := i\<rparr>));
       Some (if b_Backup c \<noteq> 0xffff \<and> y \<le> b_Backup c then b_Backup c + 1 else y, c) } = Some (x, b')"
    using assms(1) unfolding mk_info_def f y_def Let_def bind.bind_lunit by (simp cong: if_cong)
  have g: "b_Backup b \<noteq> 0 \<longrightarrow> b_Backup b = i \<longrightarrow> i = 0xffff"
    using st by (auto split: if_splits)
  have k: "(if b_Backup b = 0 then (if y = 0xffff then None else Some (b\<lparr>b_FSInfo := i, b_Backup := y\<rparr>))
            else if b_Backup b \<noteq> 0xffff \<and> b_Backup b = i then None
            else Some (b\<lparr>b_FSInfo := i\<rparr>)) = Some (b\<lparr>b_FSInfo := i, b_Backup := k\<rparr>)"
    using st by (auto simp: k_def split: if_splits)
  have b': "b' = b\<lparr>b_FSInfo := i, b_Backup := k\<rparr>"
    and x: "x = (if k \<noteq> 0xffff \<and> y \<le> k then k + 1 else y)"
    using st [unfolded k bind.bind_lunit] by auto
  have il: "i \<le> 0xffff" using le assms(3) by (simp add: i_def)
  have step: "unat z \<le> 0xffff \<and> unat v \<le> unat z \<and> (w = 0xffff \<or> unat w < unat z)"
    if "z = (if w \<noteq> 0xffff \<and> v \<le> w then w + 1 else v)" "w \<le> 0xffff" "unat v \<le> 0xffff" for v w z :: u32
  proof (cases "w = 0xffff")
    case False
    with that(2) have w: "w < 0xffff" by simp
    then show ?thesis
      using that unat_plus1 [OF w] by (simp add: word_le_nat_alt word_less_nat_alt split: if_splits)
  qed (use that in simp)
  have y: "unat y \<le> 0xffff" "unat bss \<le> unat y" "i = 0xffff \<or> unat i < unat y"
    using step [OF y_def il] assms(3) by (simp_all add: word_le_nat_alt)
  have kl: "k \<le> 0xffff" using le y(1) by (simp add: k_def word_le_nat_alt)
  have xx: "unat x \<le> 0xffff" "unat y \<le> unat x" "k = 0xffff \<or> unat k < unat x"
    using step [OF x kl y(1)] by simp_all
  have "i = k \<longrightarrow> i = 0xffff" using g y(3) by (cases "b_Backup b = 0") (auto simp: k_def)
  with y xx il kl have "i \<le> 0xffff \<and> k \<le> 0xffff \<and> (i = 0xffff \<or> i < x) \<and> (k = 0xffff \<or> k < x) \<and>
      (i = k \<longrightarrow> i = 0xffff) \<and> bss \<le> x \<and> x \<le> 0xffff"
    by (simp add: word_le_nat_alt word_less_nat_alt) linarith
  with b' show ?thesis by blast
qed

end
