(* ===== verification/Mkfs_Plan.thy ===== *)
theory Mkfs_Plan
  imports Mkfs_Facts
begin

text \<open>
  The consistency of the parameters that mkfs_msdos.c chooses: every plan that is accepted satisfies
  \<open>plan_ok\<close>, from the single fields up to the relation between FAT, clusters and volume.
\<close>

section \<open>The plan\<close>

text \<open>
  The sectors of the volume and of a FAT in the final parameters, where each has a 16-bit and a
  32-bit field, and the first sector behind the metadata.
\<close>

definition plan_sectors :: "plan \<Rightarrow> nat" where
  "plan_sectors p = unat (if b_Sectors (p_bpb p) \<noteq> 0 then b_Sectors (p_bpb p) else b_HugeSectors (p_bpb p))"

definition plan_spf :: "plan \<Rightarrow> nat" where
  "plan_spf p = unat (if b_FATsecs (p_bpb p) \<noteq> 0 then b_FATsecs (p_bpb p) else b_BigFATsecs (p_bpb p))"

definition plan_meta :: "plan \<Rightarrow> nat" where
  "plan_meta p = unat (b_ResSectors (p_bpb p)) + plan_spf p * unat (b_FATs (p_bpb p)) + unat (p_rds p)"

text \<open>Entries of a FAT: half-bytes of its sectors by half-bytes of an entry.\<close>

definition plan_entries :: "plan \<Rightarrow> nat" where
  "plan_entries p = plan_spf p * unat (b_BytesPerSec (p_bpb p)) * 2 div unat (p_fat p div BPN)"

definition plan_ok :: "plan \<Rightarrow> bool" where
  "plan_ok p \<longleftrightarrow> (let b = p_bpb p in
     p_fat p \<in> {12, 16, 32} \<and> b_BytesPerSec b \<in> bps_values \<and> b_SecPerClust b \<in> spc_values \<and>
     b_FATs b \<in> {1..16} \<and> 1 \<le> p_bss p \<and> p_bss p \<le> b_ResSectors b \<and> b_ResSectors b \<le> 0xffff \<and>
     unat (p_rds p) = root_secs b \<and> b_RootDirEnts b \<le> 0xffff \<and>
     (p_fat p = 32 \<longrightarrow> b_RootDirEnts b = 0 \<and> b_RootClust b = 2 \<and>
        (b_FSInfo b = 0xffff \<or> b_FSInfo b < b_ResSectors b) \<and> (b_Backup b = 0xffff \<or> b_Backup b < b_ResSectors b) \<and>
        (b_FSInfo b = b_Backup b \<longrightarrow> b_FSInfo b = 0xffff) \<and> b_FATsecs b = 0) \<and>
     (p_fat p \<noteq> 32 \<longrightarrow> b_RootDirEnts b \<noteq> 0 \<and> 1 \<le> b_FATsecs b \<and> b_FATsecs b \<le> 0xffff) \<and>
     (b_Sectors b = 0 \<or> b_HugeSectors b = 0) \<and> b_Sectors b \<le> 0xffff \<and> b_Media b < 0x100 \<and> b_SecPerTrack b \<le> 0xffff \<and> b_Heads b \<le> 0xffff \<and>
     mincls (p_fat p) \<le> p_cls p \<and> p_cls p \<le> maxcls (p_fat p) \<and>
     plan_meta p + unat (p_cls p) * unat (b_SecPerClust b) \<le> plan_sectors p \<and>
     unat (p_cls p) + 2 \<le> plan_entries p \<and>
     (unat (p_cls p) = (plan_sectors p - plan_meta p) div unat (b_SecPerClust b) \<or>
      unat (p_cls p) = (plan_entries p - 2) mod 2 ^ 32))"

lemma mk_auto_fat_cases:
  "mk_auto_fat bss b \<in> {12, 16, 32}" "mk_auto_fat bss b = 32 \<Longrightarrow> b_RootDirEnts b = 0"
  by (auto simp: mk_auto_fat_def Let_def split: if_splits)

lemma mk_final_simps [simp]:
  "b_BytesPerSec (mk_final f b) = b_BytesPerSec b" "b_SecPerClust (mk_final f b) = b_SecPerClust b"
  "b_FATs (mk_final f b) = b_FATs b" "b_ResSectors (mk_final f b) = b_ResSectors b"
  "b_RootDirEnts (mk_final f b) = b_RootDirEnts b" "b_FSInfo (mk_final f b) = b_FSInfo b"
  "b_Backup (mk_final f b) = b_Backup b" "b_SecPerTrack (mk_final f b) = b_SecPerTrack b"
  "b_Heads (mk_final f b) = b_Heads b" "root_secs (mk_final f b) = root_secs b"
  "b_RootClust (mk_final f b) = (if f = 32 then 2 else b_RootClust b)"
  "b_Sectors (mk_final f b) = (if b_HugeSectors b \<le> 0xffff then b_HugeSectors b else b_Sectors b)"
  "b_HugeSectors (mk_final f b) = (if b_HugeSectors b \<le> 0xffff then 0 else b_HugeSectors b)"
  "b_FATsecs (mk_final f b) = (if f = 32 then b_FATsecs b else b_BigFATsecs b)"
  "b_BigFATsecs (mk_final f b) = (if f = 32 then b_BigFATsecs b else 0)"
  "b_Media (mk_final f b) = (if b_Media b = 0 then if b_HiddenSecs b = 0 then 0xf0 else 0xf8 else b_Media b)"
  by (simp_all add: mk_final_def Let_def root_secs_def)

lemma plan_tail:
  assumes info: "mk_info fat1 bss b0 = Some (x, b)" and lay: "mk_layout False fat1 x b = Some l"
    and cl: "mk_clusters fat1 l = Some (cls, b')"
    and fat: "fat1 \<in> {12, 16, 32}" and req: "request_ok b0" and nf: "b_FATs b0 \<noteq> 0"
    and bps: "b_BytesPerSec b0 \<in> bps_values" and bss: "1 \<le> bss" "bss \<le> 0xffff"
    and e: "fat1 = 32 \<Longrightarrow> b_RootDirEnts b0 = 0"
  shows "plan_ok \<lparr>p_fat = fat1, p_bpb = mk_final fat1 b', p_rds = l_rds l, p_bss = bss, p_cls = cls\<rparr>"
    and "b_BytesPerSec b' = b_BytesPerSec b0"
proof -
  obtain i k where b: "b = b0\<lparr>b_FSInfo := i, b_Backup := k\<rparr>"
    and ik: "fat1 = 32 \<Longrightarrow> (i = 0xffff \<or> i < x) \<and> (k = 0xffff \<or> k < x) \<and> (i = k \<longrightarrow> i = 0xffff)"
    and x: "bss \<le> x" "x \<le> 0xffff"
  proof (cases "fat1 = 32")
    case True
    with info have "mk_info 32 bss b0 = Some (x, b)" by simp
    from mk_info_ok [OF this req bss(2)] obtain i k where "b = b0\<lparr>b_FSInfo := i, b_Backup := k\<rparr>"
      "(i = 0xffff \<or> i < x) \<and> (k = 0xffff \<or> k < x) \<and> (i = k \<longrightarrow> i = 0xffff)" "bss \<le> x" "x \<le> 0xffff"
      by blast
    then show ?thesis by (rule that)
  next
    case False
    with info have "b = b0" "x = bss" by (simp_all add: mk_info_def)
    with False bss show ?thesis by (intro that [of "b_Backup b0" "b_FSInfo b0"]) simp_all
  qed
  have "b_FATs b0 \<le> 16" using req by (simp add: request_ok_def)
  then have f: "0 < unat (b_FATs b0)" "unat (b_FATs b0) \<le> 16" using nf by (auto simp: unat_gt_0 word_le_nat_alt)
  have po: "params_ok fat1 x b" using fat x bps f req by (auto simp: params_ok_def b request_ok_def)
  have lo: "layout_ok fat1 x b l"
    using lay layout_step_ok [OF po] by (auto simp: mk_layout_def Let_def split: bind_splits)
  obtain r s B where lb: "l_bpb l = b\<lparr>b_ResSectors := r, b_RootDirEnts := root_ents fat1 b, b_SecPerClust := s, b_BigFATsecs := B\<rparr>"
    and r: "x \<le> r" "r \<le> 0xffff" and s: "s \<in> spc_values" and B: "0 < unat B" "fat1 \<noteq> 32 \<longrightarrow> B \<le> 0xffff"
    using lo unfolding layout_ok_def by blast
  have x1: "unat (l_rds l) = root_secs (l_bpb l)" "unat (l_x1 l) = unat r + unat (l_rds l) + unat B * unat (b_FATs b0)"
    "unat (l_x1 l) \<le> unat (b_HugeSectors b0)"
    using lo by (simp_all add: layout_ok_def lb b)
  have pre: "b_BytesPerSec (l_bpb l) \<in> bps_values" "b_SecPerClust (l_bpb l) \<in> spc_values"
    "0 < unat (b_BigFATsecs (l_bpb l))" "unat (l_x1 l) \<le> unat (b_HugeSectors (l_bpb l))"
    using bps s B x1 by (simp_all add: lb b)
  note mc = mk_clusters_ok [OF refl pre(1,2) fat pre(3,4) cl]
  obtain h where b': "b' = (l_bpb l)\<lparr>b_HugeSectors := h\<rparr>"
    and fits: "unat (l_x1 l) + unat cls * unat s \<le> unat h"
    and cls: "unat cls = (unat h - unat (l_x1 l)) div unat s \<or> unat cls = (fat_capacity fat1 (l_bpb l) - 2) mod 2 ^ 32"
    using mc(1) by (auto simp: lb)
  let ?p = "\<lparr>p_fat = fat1, p_bpb = mk_final fat1 b', p_rds = l_rds l, p_bss = bss, p_cls = cls\<rparr>"
  have B0: "B \<noteq> 0" using B by (auto simp: unat_gt_0)
  have req0: "b_Sectors b0 = 0" "b_FATsecs b0 = 0" using req by (simp_all add: request_ok_def)
  have secs: "plan_sectors ?p = unat h" and spf: "plan_spf ?p = unat B"
    using B0 by (auto simp: plan_sectors_def plan_spf_def b' lb b req0)
  have meta: "plan_meta ?p = unat (l_x1 l)" unfolding plan_meta_def spf x1(2) by (simp add: b' lb b)
  have ent: "plan_entries ?p = fat_capacity fat1 (l_bpb l)"
    unfolding plan_entries_def spf fat_capacity_def by (simp add: b' lb b)
  have rs: "root_secs b' = root_secs (l_bpb l)" by (simp add: b' root_secs_def)
  have main: "plan_meta ?p + unat cls * unat s \<le> plan_sectors ?p" "unat cls + 2 \<le> plan_entries ?p"
    "unat cls = (plan_sectors ?p - plan_meta ?p) div unat s \<or> unat cls = (plan_entries ?p - 2) mod 2 ^ 32"
    using fits cls mc(4) unfolding secs meta ent by simp_all
  have ff: "b_FATs b0 \<in> {1..16}" using f by (simp add: word_le_nat_alt)
  have rb: "bss \<le> r" using x(1) r(1) by (rule order_trans)
  have "fat1 = 32 \<Longrightarrow> (i = 0xffff \<or> i < r) \<and> (k = 0xffff \<or> k < r) \<and> (i = k \<longrightarrow> i = 0xffff)"
    using ik r(1) by (meson order.strict_trans2)
  moreover have "fat1 \<noteq> 32 \<Longrightarrow> 1 \<le> B \<and> B \<le> 0xffff" using B by (simp add: word_le_nat_alt)
  moreover have "b_RootDirEnts b0 \<le> 0xffff" "b_Media b0 < 0x100" "b_SecPerTrack b0 \<le> 0xffff" "b_Heads b0 \<le> 0xffff"
    using req by (simp_all add: request_ok_def)
  ultimately show "plan_ok ?p"
    unfolding plan_ok_def Let_def
    using fat bps s ff bss rb r(2) x1(1) mc(2,3) main e rs by (simp add: b' lb b req0 root_ents_def)
  show "b_BytesPerSec b' = b_BytesPerSec b0" by (simp add: b' lb b)
qed

text \<open>The bootstrap of the plan.\<close>

definition boot_ok :: "msdos_options \<Rightarrow> plan \<Rightarrow> bool" where
  "boot_ok o1 p \<longleftrightarrow> (case o_bootstrap o1 of
     None \<Rightarrow> p_bss p = 1
   | Some Unusable \<Rightarrow> False
   | Some (Regular f) \<Rightarrow> blen f = unat (p_bss p) * unat (b_BytesPerSec (p_bpb p)))"

lemma mk_bss_length:
  assumes "mk_bss o1 b = Some bss" "b_BytesPerSec b \<in> bps_values"
  shows "case o_bootstrap o1 of None \<Rightarrow> bss = 1 | Some Unusable \<Rightarrow> False
    | Some (Regular f) \<Rightarrow> blen f = unat bss * unat (b_BytesPerSec b)"
proof (cases "o_bootstrap o1")
  case None
  then show ?thesis using assms(1) by (simp add: mk_bss_def)
next
  case (Some a)
  then obtain f where f: "a = Regular f" using assms(1) by (cases a) (auto simp: mk_bss_def)
  let ?p = "unat (b_BytesPerSec b)"
  have p: "?p \<in> {512, 1024, 2048, 4096}" using assms(2) by (auto simp: bps_values_def)
  have m: "unat (b_BytesPerSec b * 0xffff) = ?p * 0xffff" using p by (subst unat_mult_small) auto
  have l: "blen f mod ?p = 0" "blen f \<le> ?p * 0xffff" and b: "bss = of_nat (blen f div ?p)"
    using assms(1) Some f by (auto simp: mk_bss_def Let_def m not_less split: if_splits)
  have "blen f div ?p \<le> 0xffff" using l(2) p by (intro div_le_mono [OF l(2), of ?p, THEN order_trans]) auto
  then have "unat bss = blen f div ?p" by (simp add: b unat_of_nat take_bit_nat_eq_self)
  then show ?thesis using div_mult_mod_eq [of "blen f" ?p] l(1) Some f by simp
qed

lemma mk_disk_post:
  "post (mk_disk o1 ssz dsz) (\<lambda>b. request_ok b \<and> (o_floppy o1 = None \<longrightarrow> b_RootDirEnts b = 0))"
  using mk_disk_ok by (auto simp: post_def)

lemma mk_fat_option_post:
  assumes "request_ok b \<and> (o_floppy o1 = None \<longrightarrow> b_RootDirEnts b = 0)"
  shows "post (mk_fat_option o1 b) (\<lambda>(f, c). request_ok c \<and> b_BytesPerSec c = b_BytesPerSec b \<and>
     f \<in> {0, 12, 16, 32} \<and> (f = 32 \<longrightarrow> b_RootDirEnts c = 0 \<and> o_directory_entries o1 = 0))"
proof -
  define f :: u32 where "f = (if o_fat_type o1 \<noteq> 0 then ucast (o_fat_type o1) else if o_floppy o1 \<noteq> None then 12
    else if o_directory_entries o1 = 0 \<and> (o_info_sector o1 \<noteq> 0 \<or> o_backup_sector o1 \<noteq> 0) then 32 else 0)"
  show ?thesis
    unfolding mk_fat_option_def f_def [symmetric] Let_def using assms by (auto simp: post_def)
qed

lemma mk_plan_post:
  assumes "\<not> o_align o1"
  shows "post (mk_plan o1 ssz dsz) (\<lambda>p. plan_ok p \<and> boot_ok o1 p)"
  unfolding mk_plan_def
proof (rule post_step [OF mk_disk_post], rule post_if, rule post_None, rule post_if, rule post_None,
    rule post_step, erule mk_fat_option_post, rule post_case_prod)
  fix b q and f :: u32 and c
  assume "\<not> \<not> mk_sector_size_ok b" "q = (f, c)"
    and "case q of (f, c) \<Rightarrow> request_ok c \<and> b_BytesPerSec c = b_BytesPerSec b \<and>
      f \<in> {0, 12, 16, 32} \<and> (f = 32 \<longrightarrow> b_RootDirEnts c = 0 \<and> o_directory_entries o1 = 0)"
  then have c: "request_ok c" "b_BytesPerSec c \<in> bps_values" "f \<in> {0, 12, 16, 32}"
      "f = 32 \<Longrightarrow> b_RootDirEnts c = 0 \<and> o_directory_entries o1 = 0"
    using sector_sizes [of "b_BytesPerSec b"] by (auto simp: mk_sector_size_ok_def bps_values_def)
  show "post (do {
       b \<leftarrow> mk_options o1 c;
       bss \<leftarrow> mk_bss o1 b;
       let b = (if b_FATs b = 0 then b\<lparr>b_FATs := 2\<rparr> else b);
       let fat1 = (if f = 0 then mk_auto_fat bss b else f);
       (x, b) \<leftarrow> mk_info fat1 bss b;
       l \<leftarrow> mk_layout (o_align o1) fat1 x b;
       (cls, b) \<leftarrow> mk_clusters fat1 l;
       Some \<lparr>p_fat = fat1, p_bpb = mk_final fat1 b, p_rds = l_rds l, p_bss = bss, p_cls = cls\<rparr> }) (\<lambda>p. plan_ok p \<and> boot_ok o1 p)"
  proof (rule post_step [OF mk_options_post [OF c(1,2)]], rule post_bindI, rule post_let, rule post_let)
    fix b bss d and fat1 :: u32
    assume b: "request_ok b \<and> b_BytesPerSec b = b_BytesPerSec c \<and>
        b_RootDirEnts b = (if o_directory_entries o1 \<noteq> 0 then ucast (o_directory_entries o1) else b_RootDirEnts c)"
      and bss: "mk_bss o1 b = Some bss" and d: "d = (if b_FATs b = 0 then b\<lparr>b_FATs := 2\<rparr> else b)"
      and fat1: "fat1 = (if f = 0 then mk_auto_fat bss d else f)"
    have bs: "1 \<le> bss" "bss \<le> 0xffff" using mk_bss_ok [OF bss] b c(2) by simp_all
    have d': "request_ok d" "b_FATs d \<noteq> 0" "b_BytesPerSec d \<in> bps_values" "b_RootDirEnts d = b_RootDirEnts b"
      using b c(2) by (auto simp: d)
    have fat: "fat1 \<in> {12, 16, 32}" using c(3) mk_auto_fat_cases(1) [of bss d] by (auto simp: fat1)
    have e: "fat1 = 32 \<Longrightarrow> b_RootDirEnts d = 0"
      using b c(4) mk_auto_fat_cases(2) [of bss d] d'(4) by (auto simp: fat1 split: if_splits)
    show "post (do {
       (x, b) \<leftarrow> mk_info fat1 bss d;
       l \<leftarrow> mk_layout (o_align o1) fat1 x b;
       (cls, b) \<leftarrow> mk_clusters fat1 l;
       Some \<lparr>p_fat = fat1, p_bpb = mk_final fat1 b, p_rds = l_rds l, p_bss = bss, p_cls = cls\<rparr> }) (\<lambda>p. plan_ok p \<and> boot_ok o1 p)"
    proof (rule post_bindI, rule post_case_prod, rule post_bindI, rule post_bindI, rule post_case_prod, rule post_Some)
      fix r x b1 l q cls b2
      assume *: "mk_info fat1 bss d = Some r" "r = (x, b1)" "mk_layout (o_align o1) fat1 x b1 = Some l"
        "mk_clusters fat1 l = Some q" "q = (cls, b2)"
      have i: "mk_info fat1 bss d = Some (x, b1)" and y: "mk_layout False fat1 x b1 = Some l"
        and k: "mk_clusters fat1 l = Some (cls, b2)"
        using * assms by simp_all
      note pt = plan_tail [OF i y k fat d'(1-3) bs e]
      have "b_BytesPerSec b2 = b_BytesPerSec b" using pt(2) by (simp add: d)
      then show "plan_ok \<lparr>p_fat = fat1, p_bpb = mk_final fat1 b2, p_rds = l_rds l, p_bss = bss, p_cls = cls\<rparr> \<and>
          boot_ok o1 \<lparr>p_fat = fat1, p_bpb = mk_final fat1 b2, p_rds = l_rds l, p_bss = bss, p_cls = cls\<rparr>"
        using pt(1) mk_bss_length [OF bss] b c(2)
        by (simp add: boot_ok_def split: option.splits boot_file.splits)
    qed
  qed
qed

lemma plan_okD:
  assumes "plan_ok p"
  shows "p_fat p \<in> {12, 16, 32}" "b_BytesPerSec (p_bpb p) \<in> bps_values" "b_SecPerClust (p_bpb p) \<in> spc_values"
    "1 \<le> unat (b_FATs (p_bpb p))" "unat (b_FATs (p_bpb p)) \<le> 16"
    "1 \<le> unat (b_ResSectors (p_bpb p))" "b_ResSectors (p_bpb p) \<le> 0xffff"
    "unat (p_rds p) = root_secs (p_bpb p)" "b_RootDirEnts (p_bpb p) \<le> 0xffff"
    "b_RootDirEnts (p_bpb p) = 0 \<longleftrightarrow> p_fat p = 32"
    "mincls (p_fat p) \<le> p_cls p" "p_cls p \<le> maxcls (p_fat p)"
    "plan_meta p + unat (p_cls p) * unat (b_SecPerClust (p_bpb p)) \<le> plan_sectors p"
    "unat (p_cls p) + 2 \<le> plan_entries p"
    "b_Sectors (p_bpb p) = 0 \<or> b_HugeSectors (p_bpb p) = 0" "b_Sectors (p_bpb p) \<le> 0xffff" "b_Media (p_bpb p) < 0x100"
    "b_SecPerTrack (p_bpb p) \<le> 0xffff" "b_Heads (p_bpb p) \<le> 0xffff"
proof -
  have p: "1 \<le> p_bss p" "p_bss p \<le> b_ResSectors (p_bpb p)" "b_FATs (p_bpb p) \<in> {1..16}"
    using assms by (simp_all add: plan_ok_def Let_def)
  show "1 \<le> unat (b_FATs (p_bpb p))" "unat (b_FATs (p_bpb p)) \<le> 16" using p(3) by (simp_all add: word_le_nat_alt)
  show "1 \<le> unat (b_ResSectors (p_bpb p))" using order_trans [OF p(1,2)] by (simp add: word_le_nat_alt)
  show "b_RootDirEnts (p_bpb p) = 0 \<longleftrightarrow> p_fat p = 32" using assms by (auto simp: plan_ok_def Let_def)
qed (use assms in \<open>simp_all add: plan_ok_def Let_def\<close>)

lemma bps_nat: "w \<in> bps_values \<Longrightarrow> unat w = 512 \<or> unat w = 1024 \<or> unat w = 2048 \<or> unat w = 4096"
  by (auto simp: bps_values_def)

lemma spc_nat: "w \<in> spc_values \<Longrightarrow> 1 \<le> unat w \<and> unat w \<le> 128"
  by (auto simp: spc_values_def)

text \<open>A FAT32 volume is never small enough for the 16-bit sector count.\<close>

lemma plan_fat32_large:
  assumes "plan_ok p" "p_fat p = 32"
  shows "0xffff < plan_sectors p"
proof -
  let ?b = "p_bpb p" and ?S = "unat (b_SecPerClust (p_bpb p))" and ?c = "unat (p_cls p)"
  note pk = plan_okD [OF assms(1)]
  have c: "0xfff5 \<le> ?c" using pk(11) assms(2) by (simp add: mincls_def word_le_nat_alt)
  have s: "1 \<le> ?S" using spc_nat [OF pk(3)] by simp
  have bps: "unat (b_BytesPerSec ?b) \<le> 4096" using bps_nat [OF pk(2)] by auto
  note e = pk(14) and fit = pk(13) and f = pk(4)
  have "(0xfff7 :: nat) \<le> plan_spf p * unat (b_BytesPerSec ?b) * 2 div 8"
    using e c assms(2) by (simp add: plan_entries_def)
  then have "0xfff7 * 8 \<le> plan_spf p * unat (b_BytesPerSec ?b) * 2" by (simp add: less_eq_div_iff_mult_less_eq)
  moreover have "plan_spf p * unat (b_BytesPerSec ?b) \<le> plan_spf p * 4096" using bps by (rule mult_le_mono2)
  ultimately have "64 \<le> plan_spf p" by linarith
  then have "64 * 1 \<le> plan_spf p * unat (b_FATs ?b)" using f by (intro mult_le_mono) auto
  then have "64 \<le> plan_meta p" by (simp add: plan_meta_def)
  moreover have "?c * 1 \<le> ?c * ?S" using s by (rule mult_le_mono2)
  ultimately show ?thesis using fit c by linarith
qed

lemma plan_sectors_pos:
  assumes "plan_ok p"
  shows "0 < plan_sectors p" "b_Sectors (p_bpb p) = 0 \<or> b_HugeSectors (p_bpb p) = 0 \<Longrightarrow>
    of_nat (plan_sectors p) = (if b_HugeSectors (p_bpb p) = 0 then b_Sectors (p_bpb p) else b_HugeSectors (p_bpb p))"
proof -
  show "0 < plan_sectors p" using plan_okD(6,13) [OF assms] by (simp add: plan_meta_def)
  show "of_nat (plan_sectors p) = (if b_HugeSectors (p_bpb p) = 0 then b_Sectors (p_bpb p) else b_HugeSectors (p_bpb p))"
    if "b_Sectors (p_bpb p) = 0 \<or> b_HugeSectors (p_bpb p) = 0"
    using that by (auto simp: plan_sectors_def)
qed

lemmas mk_plan_eval = mk_plan_def mk_disk_def getdiskinfo_def ckgeom_def zero_bpb_def fmt_def mk_geometry_given_def
  default_spc_def mk_sector_size_ok_def powerof2_def mk_fat_option_def mk_options_def mk_block_size_def mk_bss_def
  mk_auto_fat_def mk_info_def mk_layout_def layout_step_def layout_res_def layout_spc_def layout_x_def layout_x2_def
  mk_clusters_def mk_final_def mincls_def maxcls_def howmany_def zero_options_def Let_def

text \<open>
  C7: every file system that newfs_msdos agrees to create (without the alignment option) has consistent
  parameters: the sector size is 512, 1024, 2048 or 4096, a cluster has a power of two of at most 128
  sectors, there are 1 to 16 FATs; the bootstrap, the FSInfo block and its backup lie in the reserved
  sectors and do not collide; the root directory has the sectors its entries need; the reserved
  sectors, the FATs, the root directory and the reported clusters all fit in the volume; every FAT has an entry
  for each of these clusters and the two reserved ones; the number of clusters is in the range of the
  FAT type and is either what the volume holds or what the FAT holds; and every value fits its
  on-disk field.
\<close>

theorem mkfs_plan_consistent:
  assumes "mk_plan o1 ssz dsz = Some p" and "\<not> o_align o1"
  shows "plan_ok p"
  using postD [OF mk_plan_post [OF assms(2)] assms(1)] by simp

theorem mkfs_plan_consistent_witness:
  "\<exists>p. mk_plan zero_options (Some 512) (Some 1474560) = Some p \<and> p_cls p = 2829 \<and> plan_ok p"
proof -
  obtain p where p: "mk_plan zero_options (Some 512) (Some 1474560) = Some p" "p_cls p = 2829"
    by (simp add: mk_plan_eval)
  have "\<not> o_align zero_options" by (simp add: zero_options_def)
  with p mkfs_plan_consistent show ?thesis by blast
qed

end
