(* ===== verification/Mkfs_Write.thy ===== *)
theory Mkfs_Write
  imports Mkfs_Plan
begin

text \<open>
  What newfs_msdos leaves on the device. The specification describes the image byte by byte;
  \<open>image_byte o1 p t usec j\<close> is byte \<open>j\<close> of the new file system, which depends only on the sector it
  lies in. The theorems show that the chunked writing of mkfs_msdos.c produces exactly this image and
  touches nothing else.
\<close>

section \<open>The image\<close>

definition boot_again :: "plan \<Rightarrow> u32 \<Rightarrow> bool" where
  "boot_again p lsn \<longleftrightarrow> p_fat p = 32 \<and> b_Backup (p_bpb p) \<noteq> MAXU16 \<and> p_bss p \<le> b_Backup (p_bpb p)
     \<and> b_Backup (p_bpb p) \<le> lsn"

definition boot_index :: "plan \<Rightarrow> u32 \<Rightarrow> u32" where
  "boot_index p lsn = (if boot_again p lsn then lsn - b_Backup (p_bpb p) else lsn)"

definition boot_img :: "msdos_options \<Rightarrow> plan \<Rightarrow> u32 \<Rightarrow> nat \<Rightarrow> byte" where
  "boot_img o1 p lsn =
    (case o_bootstrap o1 of
       Some (Regular f) \<Rightarrow> if boot_index p lsn < p_bss p
         then (\<lambda>k. bdat f (unat (boot_index p lsn) * unat (b_BytesPerSec (p_bpb p)) + k)) else (\<lambda>_. 0)
     | _ \<Rightarrow> (\<lambda>_. 0))"

definition image_byte :: "msdos_options \<Rightarrow> plan \<Rightarrow> tm \<Rightarrow> u32 \<Rightarrow> nat \<Rightarrow> byte" where
  "image_byte o1 p t usec j =
    (let bps = unat (b_BytesPerSec (p_bpb p)); lsn = of_nat (j div bps)
     in mk_sector o1 p t usec lsn (boot_img o1 p lsn) (j mod bps))"

definition image_sectors :: "plan \<Rightarrow> nat" where
  "image_sectors p = unat (mk_dir (p_bpb p) + (if p_fat p = 32 then b_SecPerClust (p_bpb p) else p_rds p))"

definition image_on :: "msdos_options \<Rightarrow> plan \<Rightarrow> tm \<Rightarrow> u32 \<Rightarrow> nat \<Rightarrow> nat \<Rightarrow> buf \<Rightarrow> buf" where
  "image_on o1 p t usec base n d =
     d\<lparr>bdat := \<lambda>a. if base \<le> a \<and> a < base + n then image_byte o1 p t usec (a - base) else bdat d a\<rparr>"

section \<open>The bootstrap file\<close>

text \<open>Position in the bootstrap file when sector \<open>lsn\<close> is due.\<close>

definition boot_pos :: "msdos_options \<Rightarrow> plan \<Rightarrow> u32 \<Rightarrow> nat \<Rightarrow> bool" where
  "boot_pos o1 p lsn fpos \<longleftrightarrow>
    (case o_bootstrap o1 of
       Some (Regular f) \<Rightarrow> boot_again p lsn \<and> lsn = b_Backup (p_bpb p)
         \<or> fpos = min (unat (boot_index p lsn)) (unat (p_bss p)) * unat (b_BytesPerSec (p_bpb p))
     | _ \<Rightarrow> True)"

lemma boot_read_regular:
  assumes "o_bootstrap o1 = Some (Regular f)"
  shows "boot_read o1 p lsn fpos =
    (let x = boot_index p lsn; bps = unat (b_BytesPerSec (p_bpb p)); restart = boot_again p lsn \<and> x = 0;
         fpos = (if restart then 0 else fpos)
     in if restart \<and> o_offset o1 \<noteq> 0 then Inl ()
        else if x < p_bss p then
          (if blen f < fpos + bps then Inl () else Inr (\<lambda>k. bdat f (fpos + k), fpos + bps))
        else Inr (\<lambda>_. 0, fpos))"
  unfolding boot_read_def Let_def boot_again_def [symmetric] boot_index_def [symmetric] assms option.case boot_file.case
  by (simp only: conj_assoc)

lemma boot_index_Suc:
  assumes "lsn < 0xffffffff"
  shows "boot_again p (lsn + 1) \<and> lsn + 1 = b_Backup (p_bpb p) \<or> unat (boot_index p (lsn + 1)) = unat (boot_index p lsn) + 1"
proof -
  let ?B = "b_Backup (p_bpb p)"
  have u: "unat (lsn + 1) = unat lsn + 1" using assms by (rule unat_plus1)
  show ?thesis
  proof (cases "boot_again p lsn")
    case True
    then have b: "?B \<le> lsn" "?B \<le> lsn + 1" by (auto simp: boot_again_def word_le_nat_alt u)
    with True have "boot_again p (lsn + 1)" by (simp add: boot_again_def)
    with True b show ?thesis by (simp add: boot_index_def unat_sub u word_le_nat_alt Suc_diff_le)
  next
    case False
    have "boot_again p (lsn + 1) \<Longrightarrow> lsn + 1 = ?B"
      using False by (auto simp: boot_again_def word_le_nat_alt word_unat_eq_iff u)
    with False show ?thesis by (auto simp: boot_index_def u)
  qed
qed

lemma boot_read_cases:
  assumes ok: "boot_ok o1 p" and fp: "boot_pos o1 p lsn fpos" and l: "lsn < 0xffffffff"
    and res: "boot_read o1 p lsn fpos = Inr (sec, fpos')"
  shows "sec = boot_img o1 p lsn \<and> boot_pos o1 p (lsn + 1) fpos'"
proof (cases "o_bootstrap o1")
  case None
  then show ?thesis using res by (simp add: boot_read_def boot_img_def boot_pos_def)
next
  case (Some a)
  then obtain f where f: "o_bootstrap o1 = Some (Regular f)" and len: "blen f = unat (p_bss p) * unat (b_BytesPerSec (p_bpb p))"
    using ok by (cases a) (auto simp: boot_ok_def)
  let ?x = "boot_index p lsn" and ?P = "unat (b_BytesPerSec (p_bpb p))"
  define g where "g = (if boot_again p lsn \<and> ?x = 0 then 0 else fpos)"
  have g: "g = min (unat ?x) (unat (p_bss p)) * ?P"
    using fp f by (auto simp: g_def boot_pos_def boot_index_def)
  have r: "(if ?x < p_bss p then (if blen f < g + ?P then Inl () else Inr (\<lambda>k. bdat f (g + k), g + ?P))
     else Inr (\<lambda>_. 0, g)) = Inr (sec, fpos')"
    using res unfolding boot_read_regular [OF f] Let_def g_def [symmetric] by (simp split: if_splits)
  have nxt: "boot_pos o1 p (lsn + 1) (min (unat ?x + 1) (unat (p_bss p)) * ?P)"
    using boot_index_Suc [OF l, of p] by (auto simp: boot_pos_def f)
  show ?thesis
  proof (cases "?x < p_bss p")
    case True
    then have x: "unat ?x < unat (p_bss p)" by (simp add: word_less_nat_alt)
    then have "min (unat ?x + 1) (unat (p_bss p)) * ?P = g + ?P" by (simp add: g)
    with nxt r True x show ?thesis by (auto simp: boot_img_def f g add.commute split: if_splits)
  next
    case False
    then have x: "unat (p_bss p) \<le> unat ?x" by (simp add: word_less_nat_alt)
    then have "min (unat ?x + 1) (unat (p_bss p)) * ?P = g" by (simp add: g)
    with nxt r False show ?thesis by (auto simp: boot_img_def f)
  qed
qed

section \<open>The chunks\<close>

text \<open>
  The state after \<open>i\<close> sectors: \<open>img\<close> bytes wait in the buffer, everything before them is on the device.
\<close>

definition written :: "msdos_options \<Rightarrow> plan \<Rightarrow> tm \<Rightarrow> u32 \<Rightarrow> nat \<Rightarrow> buf \<Rightarrow> nat \<Rightarrow> buf \<Rightarrow> nat \<Rightarrow> env \<Rightarrow> bool" where
  "written o1 p t usec base d i phys img s \<longleftrightarrow>
    (let bps = unat (b_BytesPerSec (p_bpb p)); w = i * bps - img
     in img \<le> i * bps \<and> img < blen phys \<and> bps dvd img \<and> bps dvd blen phys \<and> 0 < bps \<and>
        pos s = base + w \<and> dev s = image_on o1 p t usec base w d \<and>
        (\<forall>j<img. bdat phys j = image_byte o1 p t usec (w + j)))"

lemma dwrite_True:
  assumes "dwrite n o1 b s = Some (True, s')" "n \<noteq> 0"
  shows "dev s' = (dev s)\<lparr>bdat := blit (bdat b) o1 n (bdat (dev s)) (pos s)\<rparr>" "pos s' = pos s + n"
  using assms by (auto simp: dwrite_def Let_def split: if_splits prod.splits)

lemma dwrite_tot: "o1 + n \<le> blen b \<Longrightarrow> \<exists>r. dwrite n o1 b s = Some r"
  by (auto simp: dwrite_def Let_def split: prod.splits)

text \<open>Flushing the buffer appends it to the image.\<close>

lemma image_on_blit:
  assumes "\<And>j. j < n \<Longrightarrow> b j = image_byte o1 p t usec (w + j)"
  shows "(image_on o1 p t usec base w d)\<lparr>bdat := blit b 0 n (bdat (image_on o1 p t usec base w d)) (base + w)\<rparr>
    = image_on o1 p t usec base (w + n) d"
proof -
  have "blit b 0 n (bdat (image_on o1 p t usec base w d)) (base + w) a = bdat (image_on o1 p t usec base (w + n) d) a" for a
  proof (cases "base + w \<le> a \<and> a < base + w + n")
    case True
    then obtain j where a: "a = base + w + j" "j < n" by (metis add_less_cancel_left le_iff_add)
    then show ?thesis using assms by (simp add: image_on_def add.assoc)
  next
    case False
    then have "blit b 0 n (bdat (image_on o1 p t usec base w d)) (base + w) a = bdat (image_on o1 p t usec base w d) a"
      by (intro blit_out) auto
    with False show ?thesis by (auto simp: image_on_def)
  qed
  then have e: "blit b 0 n (bdat (image_on o1 p t usec base w d)) (base + w) = bdat (image_on o1 p t usec base (w + n) d)"
    by (rule ext)
  show ?thesis unfolding e by (simp add: image_on_def)
qed

lemma image_byte_sector:
  assumes "k < unat (b_BytesPerSec (p_bpb p))"
  shows "image_byte o1 p t usec (i * unat (b_BytesPerSec (p_bpb p)) + k)
    = mk_sector o1 p t usec (of_nat i) (boot_img o1 p (of_nat i)) k"
  using assms by (simp add: image_byte_def Let_def)

lemma written_store:
  fixes p :: plan
  defines "bps \<equiv> unat (b_BytesPerSec (p_bpb p))"
  assumes w: "written o1 p t usec base d i phys img s"
    and phys': "phys' = phys\<lparr>bdat := blit (mk_sector o1 p t usec (of_nat i) (boot_img o1 p (of_nat i))) 0 bps (bdat phys) img\<rparr>"
  shows "img + bps \<le> blen phys" and "0 < bps" and "img \<le> i * bps"
    and "\<And>j. j < img + bps \<Longrightarrow> bdat phys' j = image_byte o1 p t usec (i * bps - img + j)"
proof -
  have l: "img \<le> i * bps" "img < blen phys" "bps dvd img" "bps dvd blen phys" "0 < bps"
    and old: "\<And>j. j < img \<Longrightarrow> bdat phys j = image_byte o1 p t usec (i * bps - img + j)"
    using w by (simp_all add: written_def Let_def bps_def)
  show "0 < bps" "img \<le> i * bps" by (fact l)+
  from l(3,4) obtain u v where uv: "img = bps * u" "blen phys = bps * v" by (auto elim!: dvdE)
  with l(2,5) have "u + 1 \<le> v" by simp
  then have "bps * (u + 1) \<le> bps * v" by (rule mult_le_mono2)
  then show "img + bps \<le> blen phys" by (simp add: uv)
  show "bdat phys' j = image_byte o1 p t usec (i * bps - img + j)" if "j < img + bps" for j
  proof (cases "j < img")
    case True
    then show ?thesis using old by (simp add: phys')
  next
    case False
    with that obtain k where k: "j = img + k" "k < bps" by (metis add_less_cancel_left le_iff_add not_less)
    then have "image_byte o1 p t usec (i * bps + k) = mk_sector o1 p t usec (of_nat i) (boot_img o1 p (of_nat i)) k"
      unfolding bps_def by (intro image_byte_sector) simp
    moreover have "i * bps - img + j = i * bps + k" using k l(1) by simp
    ultimately show ?thesis using k by (simp add: phys')
  qed
qed

lemma write_sectors_written:
  assumes "boot_ok o1 p" "written o1 p t usec base d i phys img s" "boot_pos o1 p (of_nat i) fpos"
    and "i + n \<le> 0xffffffff"
  shows "\<exists>ok phys' img' s'. write_sectors n o1 p t usec (of_nat i) fpos phys img s = Some ((ok, phys', img'), s') \<and>
     (ok \<longrightarrow> written o1 p t usec base d (i + n) phys' img' s' \<and> blen phys' = blen phys)"
  using assms(2-4)
proof (induction n arbitrary: i phys img s fpos)
  case 0
  then show ?case by (intro exI [of _ True] exI [of _ phys] exI [of _ img] exI [of _ s]) simp
next
  case (Suc n)
  let ?bps = "unat (b_BytesPerSec (p_bpb p))" and ?l = "of_nat i :: u32"
  show ?case
  proof (cases "boot_read o1 p ?l fpos")
    case (Inl e)
    then show ?thesis by (intro exI [of _ False]) (simp add: Let_def)
  next
    case (Inr r)
    obtain sec fpos' where r: "r = (sec, fpos')" by force
    have "?l < 0xffffffff" using Suc.prems(3) by (simp add: word_less_nat_alt unat_of_nat take_bit_nat_eq_self)
    then have sec: "sec = boot_img o1 p ?l" and fp: "boot_pos o1 p (of_nat (Suc i)) fpos'"
      using boot_read_cases [OF assms(1) Suc.prems(2)] Inr r by (auto simp: add.commute)
    define phys' where "phys' = phys\<lparr>bdat := blit (mk_sector o1 p t usec ?l (boot_img o1 p ?l)) 0 ?bps (bdat phys) img\<rparr>"
    note ws = written_store [OF Suc.prems(1) phys'_def]
    have len: "blen phys' = blen phys" by (simp add: phys'_def)
    have dvd: "?bps dvd img" "?bps dvd blen phys" and st: "pos s = base + (i * ?bps - img)"
      "dev s = image_on o1 p t usec base (i * ?bps - img) d"
      using Suc.prems(1) by (simp_all add: written_def Let_def)
    have step: "write_sectors (Suc n) o1 p t usec ?l fpos phys img s =
        (if img + ?bps \<ge> blen phys then do {
             (ok, s) \<leftarrow> dwrite (blen phys) 0 phys' s;
             if \<not> ok then Some ((False, phys', img + ?bps), s)
             else write_sectors n o1 p t usec (of_nat (Suc i)) fpos' phys' 0 s }
           else write_sectors n o1 p t usec (of_nat (Suc i)) fpos' phys' (img + ?bps) s)"
      using ws(1) unfolding phys'_def of_nat_Suc add.commute [of 1] by (simp add: Inr r sec Let_def)
    show ?thesis
    proof (cases "img + ?bps \<ge> blen phys")
      case True
      with ws(1) have full: "img + ?bps = blen phys" by simp
      obtain ok s1 where dw: "dwrite (blen phys) 0 phys' s = Some (ok, s1)"
        using dwrite_tot [of 0 "blen phys" phys' s] len by auto
      show ?thesis
      proof (cases ok)
        case False
        then show ?thesis using True dw unfolding step by (intro exI [of _ False]) simp
      next
        case ok: True
        have "blen phys \<noteq> 0" using full ws(2) by simp
        note dt = dwrite_True [OF dw [unfolded ok[THEN eq_True [THEN iffD2]]] this]
        have "Suc i * ?bps = (i * ?bps - img) + blen phys" using full ws(3) by simp
        moreover have "dev s1 = image_on o1 p t usec base ((i * ?bps - img) + blen phys) d"
          unfolding dt(1) st using ws(4) full by (intro image_on_blit) simp
        ultimately have "written o1 p t usec base d (Suc i) phys' 0 s1"
          using ws(2) full dvd dt(2) st(1) by (simp add: written_def Let_def len)
        from Suc.IH [OF this fp] Suc.prems(3) show ?thesis
          using True dw ok len unfolding step by simp
      qed
    next
      case False
      have "Suc i * ?bps - (img + ?bps) = i * ?bps - img" using ws(3) by simp
      then have "written o1 p t usec base d (Suc i) phys' (img + ?bps) s"
        using ws False st dvd by (simp add: written_def Let_def len)
      from Suc.IH [OF this fp] Suc.prems(3) False len show ?thesis unfolding step by simp
    qed
  qed
qed

section \<open>The whole image\<close>

lemma image_on_zero [simp]: "image_on o1 p t usec base 0 d = d"
proof -
  have "(\<lambda>a. if base \<le> a \<and> a < base then image_byte o1 p t usec (a - base) else bdat d a) = bdat d" by (rule ext) auto
  then show ?thesis by (simp add: image_on_def)
qed

text \<open>What is written ends with the root directory.\<close>

lemma image_sectors_eq:
  assumes "plan_ok p"
  shows "image_sectors p = plan_meta p + (if p_fat p = 32 then unat (b_SecPerClust (p_bpb p)) else 0)"
    and "image_sectors p \<le> plan_sectors p" and "unat (mk_dir (p_bpb p)) = plan_meta p - unat (p_rds p)"
    and "unat (spf (p_bpb p)) = plan_spf p"
proof -
  let ?b = "p_bpb p" and ?S = "unat (b_SecPerClust (p_bpb p))"
  show sp: "unat (spf ?b) = plan_spf p" by (simp add: spf_def plan_spf_def)
  have fits: "plan_meta p + unat (p_cls p) * ?S \<le> plan_sectors p" and c: "mincls (p_fat p) \<le> p_cls p"
    using assms by (simp_all add: plan_ok_def Let_def)
  have "1 \<le> p_cls p" using c by (rule order_trans [rotated]) (simp add: mincls_def)
  then have "1 \<le> unat (p_cls p)" by (simp add: word_le_nat_alt)
  then have "1 * ?S \<le> unat (p_cls p) * ?S" by (rule mult_le_mono1)
  with fits have le: "plan_meta p + ?S \<le> plan_sectors p" by linarith
  have "plan_sectors p < 2 ^ 32" unfolding plan_sectors_def by (rule unat_u32_less)
  with le have lt: "plan_meta p + ?S < 2 ^ 32" by (rule order.strict_trans1)
  have m: "unat (spf ?b * b_FATs ?b) = plan_spf p * unat (b_FATs ?b)"
    using lt by (subst unat_mult_small) (auto simp: sp plan_meta_def)
  have d: "unat (mk_dir ?b) = unat (b_ResSectors ?b) + plan_spf p * unat (b_FATs ?b)"
    unfolding mk_dir_def using lt by (subst unat_add_small) (auto simp: m plan_meta_def)
  then show "unat (mk_dir ?b) = plan_meta p - unat (p_rds p)" by (simp add: plan_meta_def)
  have r: "p_fat p = 32 \<Longrightarrow> unat (p_rds p) = 0"
    using assms by (auto simp: plan_ok_def Let_def root_secs_def bps_values_def)
  show eq: "image_sectors p = plan_meta p + (if p_fat p = 32 then ?S else 0)"
    unfolding image_sectors_def using lt r by (subst unat_add_small) (auto simp: d plan_meta_def)
  show "image_sectors p \<le> plan_sectors p" using le by (simp add: eq)
qed

lemma write_image_on:
  assumes ok: "boot_ok o1 p" and bps: "0 < unat (b_BytesPerSec (p_bpb p))" "unat (b_BytesPerSec (p_bpb p)) dvd blen phys"
    and ph: "0 < blen phys"
  shows "\<exists>ok s'. write_image o1 p t usec phys s = Some (ok, s') \<and>
    (ok \<longrightarrow> dev s' = image_on o1 p t usec (pos s) (image_sectors p * unat (b_BytesPerSec (p_bpb p))) (dev s))"
proof -
  let ?P = "unat (b_BytesPerSec (p_bpb p))" and ?n = "image_sectors p"
  have w0: "written o1 p t usec (pos s) (dev s) 0 phys 0 s" using bps ph by (simp add: written_def Let_def)
  have fp: "boot_pos o1 p (of_nat 0) 0"
    by (auto simp: boot_pos_def boot_index_def boot_again_def split: option.split boot_file.split)
  have n: "0 + ?n \<le> 0xffffffff" using unat_u32_less by (simp add: image_sectors_def less_Suc_eq_le [symmetric])
  obtain ok phys' img s1 where ws: "write_sectors ?n o1 p t usec 0 0 phys 0 s = Some ((ok, phys', img), s1)"
    and w: "ok \<longrightarrow> written o1 p t usec (pos s) (dev s) ?n phys' img s1 \<and> blen phys' = blen phys"
    using write_sectors_written [OF assms(1) w0 fp n] by auto
  have wi: "write_image o1 p t usec phys s = (if \<not> ok then Some (False, s1)
     else if img \<noteq> 0 then dwrite img 0 phys' s1 else Some (True, s1))"
    unfolding write_image_def image_sectors_def [symmetric] ws by simp
  show ?thesis
  proof (cases "ok \<and> img \<noteq> 0")
    case True
    with w have w1: "img \<le> ?n * ?P" "img < blen phys'" "pos s1 = pos s + (?n * ?P - img)"
      "dev s1 = image_on o1 p t usec (pos s) (?n * ?P - img) (dev s)"
      "\<And>j. j < img \<Longrightarrow> bdat phys' j = image_byte o1 p t usec (?n * ?P - img + j)"
      by (simp_all add: written_def Let_def)
    obtain ok2 s2 where dw: "dwrite img 0 phys' s1 = Some (ok2, s2)"
      using dwrite_tot [of 0 img phys' s1] w1(2) by auto
    have "dev s2 = image_on o1 p t usec (pos s) (?n * ?P) (dev s)" if ok2
    proof -
      note dt = dwrite_True [OF dw [unfolded that [THEN eq_True [THEN iffD2]]]]
      have "dev s2 = image_on o1 p t usec (pos s) (?n * ?P - img + img) (dev s)"
        unfolding dt(1) [OF True [THEN conjunct2]] w1(3,4) using w1(5) by (intro image_on_blit) simp
      then show ?thesis using w1(1) by simp
    qed
    then show ?thesis using True dw unfolding wi by simp
  next
    case False
    then show ?thesis using w unfolding wi by (cases ok) (auto simp: written_def Let_def)
  qed
qed

lemma getchunksize_dvd:
  assumes "getchunksize m = Some c" "n \<in> bps_values"
  shows "unat n dvd c" and "0 < c"
proof -
  have c: "c = m" "m > 4096" "(m - 1) AND m = 0" using assms(1) by (auto simp: getchunksize_def split: if_splits)
  then obtain k where k: "m = 2 ^ k" using nat_power_of_two by (metis gr_implies_not0 not_gr_zero)
  have "(2 :: nat) ^ 12 < 2 ^ k" using c(2) k by simp
  then have "12 \<le> k" by (metis less_imp_le_nat nat_power_less_imp_less zero_less_numeral)
  moreover obtain i where "unat n = 2 ^ i" "i \<le> 12"
  proof -
    have "unat n = 2 ^ 9 \<or> unat n = 2 ^ 10 \<or> unat n = 2 ^ 11 \<or> unat n = 2 ^ 12"
      using assms(2) by (auto simp: bps_values_def)
    then show ?thesis using that [of 9] that [of 10] that [of 11] that [of 12] by auto
  qed
  ultimately show "unat n dvd c" by (simp add: c(1) k le_imp_power_dvd)
  show "0 < c" using c by simp
qed

lemma mkfs_write_on:
  assumes "plan_ok p" "boot_ok o1 p" "getchunksize (os_maxphys os1) = Some c"
    and t: "(if o_timestamp_set o1 then (os_gmtime os1 (o_timestamp o1), 0) else os_now os1) = (t, usec)"
  shows "\<exists>r s'. mkfs_write os1 o1 p s = Some (r, s') \<and> (r = 0 \<or> r = -1) \<and>
    (r = 0 \<longrightarrow> dev s' = image_on o1 p t usec (pos s) (image_sectors p * unat (b_BytesPerSec (p_bpb p))) (dev s))"
proof -
  have bps: "b_BytesPerSec (p_bpb p) \<in> bps_values" using assms(1) by (simp add: plan_ok_def Let_def)
  then have P: "0 < unat (b_BytesPerSec (p_bpb p))" by (auto simp: bps_values_def)
  obtain m s1 where m: "malloc c s = (m, s1)" by force
  then have s1: "pos s1 = pos s" "dev s1 = dev s" and len: "\<And>b. m = Some b \<Longrightarrow> blen b = c"
    by (auto simp: malloc_def split: prod.splits if_splits)
  note mw = mkfs_write_def t prod.case assms(3) bind.bind_lunit m
  show ?thesis
  proof (cases m)
    case None
    then show ?thesis unfolding mw by simp
  next
    case (Some phys)
    with len getchunksize_dvd [OF assms(3) bps] have ph: "unat (b_BytesPerSec (p_bpb p)) dvd blen phys" "0 < blen phys"
      by simp_all
    obtain ok s2 where "write_image o1 p t usec phys s1 = Some (ok, s2)"
      "ok \<longrightarrow> dev s2 = image_on o1 p t usec (pos s) (image_sectors p * unat (b_BytesPerSec (p_bpb p))) (dev s)"
      using write_image_on [OF assms(2) P ph, of t usec s1] s1 by auto
    then show ?thesis unfolding mw Some by simp
  qed
qed

text \<open>The device that is formatted: the given one, or a new one of zeros.\<close>

definition mkfs_target :: "msdos_options \<Rightarrow> env \<Rightarrow> buf" where
  "mkfs_target o1 s = (if o_create_size o1 = 0 then dev s else \<lparr>blen = unat (o_create_size o1), bdat = \<lambda>_. 0\<rparr>)"

definition mkfs_time :: "os \<Rightarrow> msdos_options \<Rightarrow> tm \<times> u32" where
  "mkfs_time os1 o1 = (if o_timestamp_set o1 then (os_gmtime os1 (o_timestamp o1), 0) else os_now os1)"

definition mkfs_image :: "os \<Rightarrow> msdos_options \<Rightarrow> plan \<Rightarrow> buf \<Rightarrow> buf" where
  "mkfs_image os1 o1 p d = image_on o1 p (fst (mkfs_time os1 o1)) (snd (mkfs_time os1 o1)) (unat (o_offset o1))
     (image_sectors p * unat (b_BytesPerSec (p_bpb p))) d"

lemma mkfs_open_target:
  assumes "mkfs_open os1 o1 s = (True, s1)"
  shows "dev s1 = mkfs_target o1 s" and "pos s1 = unat (o_offset o1)"
    and "o_no_create o1 \<Longrightarrow> o_create_size o1 = 0"
  using assms
  by (auto simp: mkfs_open_def mkfs_target_def lseek_def Let_def split: if_splits prod.splits)

lemma mkfs_msdos_cases:
  assumes "getchunksize (os_maxphys os1) = Some c" "\<not> o_align o1"
  shows "\<exists>r s'. mkfs_msdos os1 o1 s = Some (r, s') \<and> (r = 0 \<or> r = -1) \<and>
    (r = 0 \<longrightarrow> (\<exists>p. mk_plan o1 (os_blksszget os1) (os_blkgetsize64 os1) = Some p \<and>
       dev s' = (if o_no_create o1 then dev s else mkfs_image os1 o1 p (mkfs_target o1 s))))"
proof -
  obtain ok s1 where op: "mkfs_open os1 o1 s = (ok, s1)" by force
  note ms = mkfs_msdos_def op prod.case
  show ?thesis
  proof (cases "ok \<and> (\<exists>p. mk_plan o1 (os_blksszget os1) (os_blkgetsize64 os1) = Some p)")
    case False
    then show ?thesis unfolding ms by (cases ok) (auto split: option.split)
  next
    case True
    then obtain p where ok and pl: "mk_plan o1 (os_blksszget os1) (os_blkgetsize64 os1) = Some p" by blast
    have s1: "dev s1 = mkfs_target o1 s" "pos s1 = unat (o_offset o1)"
      "o_no_create o1 \<Longrightarrow> mkfs_target o1 s = dev s"
      using mkfs_open_target [of os1 o1 s s1] op \<open>ok\<close> by (auto simp: mkfs_target_def)
    have p: "plan_ok p" "boot_ok o1 p" using postD [OF mk_plan_post [OF assms(2)] pl] by simp_all
    have t: "(if o_timestamp_set o1 then (os_gmtime os1 (o_timestamp o1), 0) else os_now os1)
        = (fst (mkfs_time os1 o1), snd (mkfs_time os1 o1))"
      by (simp add: mkfs_time_def)
    obtain r s' where "mkfs_write os1 o1 p s1 = Some (r, s')" "r = 0 \<or> r = -1"
      "r = 0 \<longrightarrow> dev s' = mkfs_image os1 o1 p (mkfs_target o1 s)"
      using mkfs_write_on [OF p assms(1) t, of s1] by (auto simp: s1 mkfs_image_def)
    with \<open>ok\<close> pl s1 show ?thesis unfolding ms by (cases "o_no_create o1") auto
  qed
qed

lemma write_sectors_numeral:
  "write_sectors (numeral k) o1 p t usec lsn fpos phys img s =
    (let bps = unat (b_BytesPerSec (p_bpb p)); n = pred_numeral k
     in case boot_read o1 p lsn fpos of
       Inl _ \<Rightarrow> Some ((False, phys, img), s)
     | Inr (sec, fpos) \<Rightarrow>
         if blen phys < img + bps then None
         else do {
           let phys = phys\<lparr>bdat := blit (mk_sector o1 p t usec lsn sec) 0 bps (bdat phys) img\<rparr>;
           let img = img + bps;
           if img \<ge> blen phys then do {
             (ok, s) \<leftarrow> dwrite (blen phys) 0 phys s;
             if \<not> ok then Some ((False, phys, img), s)
             else write_sectors n o1 p t usec (lsn + 1) fpos phys 0 s }
           else write_sectors n o1 p t usec (lsn + 1) fpos phys img s })"
  unfolding numeral_eq_Suc write_sectors.simps Let_def ..

text \<open>A platform, and a small request: 40 sectors with one FAT and one sector of root directory.\<close>

definition sample_os :: os where
  "sample_os = \<lparr>os_open = True, os_ftruncate = True, os_fstat = True, os_sigaction = True,
     os_blksszget = Some 512, os_blkgetsize64 = Some 20480, os_maxphys = 131072,
     os_gmtime = (\<lambda>_. \<lparr>tm_sec = 0, tm_min = 0, tm_hour = 0, tm_mday = 1, tm_mon = 0, tm_year = 80\<rparr>),
     os_now = (\<lparr>tm_sec = 0, tm_min = 0, tm_hour = 0, tm_mday = 1, tm_mon = 0, tm_year = 80\<rparr>, 0)\<rparr>"

definition small_request :: msdos_options where
  "small_request = zero_options\<lparr>o_num_FAT := 1, o_directory_entries := 16\<rparr>"

definition small_plan :: plan where
  "small_plan = \<lparr>p_fat = 12, p_bpb = (fmt 512 1 1 1 16 40 240 1 63 64), p_rds = 1, p_bss = 1, p_cls = 37\<rparr>"

lemma small_plan: "mk_plan small_request (Some 512) (Some 20480) = Some small_plan"
  by (simp add: mk_plan_eval small_request_def small_plan_def)

lemma small_request_simps [simp]:
  "o_offset small_request = 0" "o_block_size small_request = 0" "o_create_size small_request = 0"
  "o_OEM_string small_request = None" "o_no_create small_request = False" "o_timestamp_set small_request = False"
  "o_bootstrap small_request = None" "o_align small_request = False"
  by (simp_all add: small_request_def zero_options_def)

lemma sample_os_simps [simp]:
  "os_open sample_os" "os_ftruncate sample_os" "os_fstat sample_os" "os_sigaction sample_os"
  "os_blksszget sample_os = Some 512" "os_blkgetsize64 sample_os = Some 20480" "os_maxphys sample_os = 131072"
  by (simp_all add: sample_os_def)

lemma sample_chunksize: "getchunksize 131072 = Some 131072"
  by (simp add: getchunksize_def)

lemma small_plan_simps [simp]:
  "b_BytesPerSec (p_bpb small_plan) = 512" "p_fat small_plan = 12" "p_rds small_plan = 1"
  "mk_dir (p_bpb small_plan) = 2"
  by (simp_all add: small_plan_def fmt_def mk_dir_def spf_def)

lemma small_run: "\<exists>s'. mkfs_msdos sample_os small_request (sample_env \<lparr>blen = 20480, bdat = \<lambda>_. 7\<rparr>) = Some (0, s')"
  apply (simp add: mkfs_msdos_def mkfs_open_def sample_env_def small_plan)
  apply (simp add: mkfs_write_def sample_chunksize malloc_def pop_fault_def write_image_def split: prod.split)
  apply (simp add: write_sectors_numeral boot_read_def dwrite_def pop_fault_def)
  done

text \<open>
  C6: when the chunk size can be computed (the assertions of \<^verbatim>\<open>getchunksize()\<close> hold) and without the
  alignment option, newfs_msdos returns, with 0 or -1, and never leaves its buffer. When it returns 0, the
  parameters were accepted and the device holds the image of the plan at the requested offset: every
  sector is what \<open>mk_sector\<close> says, on top of the bootstrap, however the sectors were
  collected into chunks, and every other byte of the device is as before. With the no-create option
  the device is unchanged.
\<close>

theorem mkfs_writes_image:
  assumes "getchunksize (os_maxphys os1) = Some c" and "\<not> o_align o1"
  shows "\<exists>r s'. mkfs_msdos os1 o1 s = Some (r, s') \<and> (r = 0 \<or> r = -1) \<and>
    (r = 0 \<longrightarrow> (\<exists>p. mk_plan o1 (os_blksszget os1) (os_blkgetsize64 os1) = Some p \<and>
       dev s' = (if o_no_create o1 then dev s else mkfs_image os1 o1 p (mkfs_target o1 s))))"
  using assms by (rule mkfs_msdos_cases)

theorem mkfs_writes_image_witness:
  "\<exists>s' p. mkfs_msdos sample_os small_request (sample_env \<lparr>blen = 20480, bdat = \<lambda>_. 7\<rparr>) = Some (0, s') \<and>
     p_cls p = 37 \<and>
     dev s' = mkfs_image sample_os small_request p \<lparr>blen = 20480, bdat = \<lambda>_. 7\<rparr>"
proof -
  let ?s = "sample_env \<lparr>blen = 20480, bdat = \<lambda>_. 7\<rparr>"
  obtain s' where run: "mkfs_msdos sample_os small_request ?s = Some (0, s')" using small_run by blast
  have "getchunksize (os_maxphys sample_os) = Some 131072" "\<not> o_align small_request"
    by (simp_all add: sample_chunksize)
  from mkfs_writes_image [OF this, of ?s] run small_plan
  have "dev s' = mkfs_image sample_os small_request small_plan (mkfs_target small_request ?s)" by auto
  moreover have "mkfs_target small_request ?s = \<lparr>blen = 20480, bdat = \<lambda>_. 7\<rparr>" "p_cls small_plan = 37"
    by (simp_all add: mkfs_target_def sample_env_def small_plan_def)
  ultimately show ?thesis using run by (intro exI [of _ s'] exI [of _ small_plan]) simp
qed

end
