(* ===== verification/Newfs_Boot.thy ===== *)
theory Newfs_Boot
  imports Mkfs_Write
begin

text \<open>
  newfs_msdos and fsck_msdosfs together: what the checker sees of a file system that newfs_msdos has
  just made.
\<close>

section \<open>The boot sector\<close>

lemma le16_sum:
  assumes "(u :: u32) \<le> 0xffff"
  shows "ucast (ucast u :: byte) + push_bit 8 (ucast (ucast (drop_bit 8 u) :: byte)) = u"
proof -
  have z: "drop_bit 16 u = 0" "drop_bit 24 u = 0"
    using assms by (simp_all add: drop_bit_eq_div word_le_nat_alt word_unat_eq_iff unat_div_distrib)
  have "ucast (ucast u :: byte) + push_bit 8 (ucast (ucast (drop_bit 8 u) :: byte))
     + push_bit 16 (ucast (ucast (drop_bit 16 u) :: byte)) + push_bit 24 (ucast (ucast (drop_bit 24 u) :: byte)) = u"
    by (simp only: byte_sum4_or u32_split_bytes')
  then show ?thesis by (simp add: z)
qed

lemma le8_small: "(u :: u32) < 0x100 \<Longrightarrow> ucast (ucast u :: byte) = u"
  by (simp add: word_unat_eq_iff unsigned_ucast_eq take_bit_nat_eq_self word_less_nat_alt unsigned_take_bit_eq)

lemma le32_sum:
  "ucast (ucast u :: byte) + push_bit 8 (ucast (ucast (drop_bit 8 u) :: byte))
     + push_bit 16 (ucast (ucast (drop_bit 16 u) :: byte)) + push_bit 24 (ucast (ucast (drop_bit 24 u) :: byte))
   = (u :: u32)"
  by (simp only: byte_sum4_or u32_split_bytes')

lemma put_bytes_in: "i \<le> k \<Longrightarrow> k < i + length cs \<Longrightarrow> put_bytes i cs f k = cs ! (k - i)"
  by (simp add: put_bytes_def)

lemma put_bytes_out: "k < i \<or> i + length cs \<le> k \<Longrightarrow> put_bytes i cs f k = f k"
  by (auto simp: put_bytes_def)

lemma length_label [simp]: "length (mklabel l) = 11" "length (setstr l n) = n" "length bootcode = 84"
  "length (le16_bytes w) = 2" "length (le32_bytes v) = 4" "length (bsbpb_bytes b) = 25" "length (bsxbpb_bytes b) = 16"
  "length (fat_name u) = 5"
  by (auto simp: mklabel_def setstr_def bootcode_def le16_bytes_def le32_bytes_def bsbpb_bytes_def bsxbpb_bytes_def
      fat_name_def Let_def)

lemma boot_sector_bpb:
  assumes "11 \<le> k" "k < 36"
  shows "boot_sector o1 fat1 b t usec img k = bsbpb_bytes b ! (k - 11)"
  using assms by (simp add: boot_sector_def Let_def put_bytes_in put_bytes_out)

lemma boot_sector_xbpb:
  assumes "36 \<le> k" "k < 52"
  shows "boot_sector o1 32 b t usec img k = bsxbpb_bytes b ! (k - 36)"
  using assms by (simp add: boot_sector_def Let_def put_bytes_in put_bytes_out)

lemma boot_sector_signature:
  assumes "o_bootstrap o1 = None"
  shows "boot_sector o1 fat1 b t usec img 510 = 0x55" "boot_sector o1 fat1 b t usec img 511 = 0xaa"
    "boot_sector o1 fat1 b t usec (\<lambda>_. 0) 508 = 0" "boot_sector o1 fat1 b t usec (\<lambda>_. 0) 509 = 0"
  using assms by (simp_all add: boot_sector_def Let_def put_bytes_in put_bytes_out)

lemma bpb_fields:
  fixes b :: bpb
  assumes "\<forall>k\<in>{11..<36}. block k = bsbpb_bytes b ! (k - 11)"
  shows "b_BytesPerSec b \<le> 0xffff \<Longrightarrow> b2 block 11 = b_BytesPerSec b"
    "b_SecPerClust b < 0x100 \<Longrightarrow> ucast (block 13) = b_SecPerClust b"
    "b_ResSectors b \<le> 0xffff \<Longrightarrow> b2 block 14 = b_ResSectors b"
    "b_FATs b < 0x100 \<Longrightarrow> ucast (block 16) = b_FATs b"
    "b_RootDirEnts b \<le> 0xffff \<Longrightarrow> b2 block 17 = b_RootDirEnts b"
    "b_Sectors b \<le> 0xffff \<Longrightarrow> b2 block 19 = b_Sectors b"
    "b_Media b < 0x100 \<Longrightarrow> ucast (block 21) = b_Media b"
    "b_FATsecs b \<le> 0xffff \<Longrightarrow> b2 block 22 = b_FATsecs b"
    "b_SecPerTrack b \<le> 0xffff \<Longrightarrow> b2 block 24 = b_SecPerTrack b"
    "b_Heads b \<le> 0xffff \<Longrightarrow> b2 block 26 = b_Heads b"
    "b4 block 28 = b_HiddenSecs b" "b4 block 32 = b_HugeSectors b"
  by (simp_all add: b2_def b4_def assms [rule_format] bsbpb_bytes_def le16_bytes_def le32_bytes_def le16_sum le32_sum le8_small)

text \<open>
  The boot block that the checker should derive from a plan.
\<close>

definition bpb_view :: "plan \<Rightarrow> bootblock" where
  "bpb_view p = (let b = p_bpb p in zero_boot\<lparr>ValidFat := -1, bpbBytesPerSec := b_BytesPerSec b,
     bpbSecPerClust := b_SecPerClust b, bpbResSectors := b_ResSectors b, bpbFATs := b_FATs b,
     bpbRootDirEnts := b_RootDirEnts b, flags := (if p_fat p = 32 then 1 else 0), bpbSectors := b_Sectors b,
     bpbMedia := b_Media b, bpbFATsmall := b_FATsecs b, SecPerTrack := b_SecPerTrack b, bpbHeads := b_Heads b,
     bpbHiddenSecs := b_HiddenSecs b, bpbHugeSectors := b_HugeSectors b, NumSectors := of_nat (plan_sectors p)\<rparr>)"

lemma powerof2_values: "w \<in> bps_values \<Longrightarrow> powerof2 w" "w \<in> spc_values \<Longrightarrow> powerof2 w"
  by (auto simp: bps_values_def spc_values_def powerof2_def)

lemma readboot_bpb_view:
  assumes ok: "plan_ok p" and block: "\<forall>k\<in>{11..<36}. block k = bsbpb_bytes (p_bpb p) ! (k - 11)"
  shows "readboot_bpb block = (True, bpb_view p)"
proof -
  let ?b = "p_bpb p"
  note pk = plan_okD [OF ok]
  have bps: "512 \<le> b_BytesPerSec ?b" "b_BytesPerSec ?b \<le> 4096" "b_BytesPerSec ?b \<le> 0xffff"
    using bps_nat [OF pk(2)] by (auto simp: word_le_nat_alt)
  have spc: "b_SecPerClust ?b \<noteq> 0" "b_SecPerClust ?b < 0x100"
    using spc_nat [OF pk(3)] by (auto simp: word_less_nat_alt)
  have fats: "b_FATs ?b \<noteq> 0" "b_FATs ?b < 0x100" using pk(4,5) by (auto simp: word_less_nat_alt)
  have res: "1 \<le> b_ResSectors ?b" using pk(6) by (simp add: word_le_nat_alt)
  have fs: "b_FATsecs ?b \<le> 0xffff" "p_fat p = 32 \<Longrightarrow> b_FATsecs ?b = 0"
    using ok by (cases "p_fat p = 32"; simp add: plan_ok_def Let_def)+
  have big: "p_fat p = 32 \<Longrightarrow> b_Sectors ?b = 0 \<and> b_HugeSectors ?b \<noteq> 0"
    using plan_fat32_large [OF ok] pk(16) by (auto simp: plan_sectors_def word_le_nat_alt split: if_splits)
  have sec: "b_HugeSectors ?b = 0 \<Longrightarrow> b_Sectors ?b \<noteq> 0"
    using plan_sectors_pos(1) [OF ok] by (auto simp: plan_sectors_def split: if_splits)
  note num = plan_sectors_pos(2) [OF ok pk(15)]
  note f = bpb_fields [of block ?b, OF block]
  note d = f(1) [OF bps(3)] f(2) [OF spc(2)] f(3) [OF pk(7)] f(4) [OF fats(2)] f(5) [OF pk(9)] f(6) [OF pk(16)]
    f(7) [OF pk(17)] f(8) [OF fs(1)] f(9) [OF pk(18)] f(10) [OF pk(19)] f(11) f(12)
  show ?thesis
  proof (cases "p_fat p = 32")
    case True
    with pk(10) have "b_RootDirEnts ?b = 0" by simp
    with True show ?thesis
      unfolding readboot_bpb_def d bpb_view_def num Let_def zero_boot_def
      using bps spc fats res fs(2) [OF True] big [OF True] powerof2_values(1) [OF pk(2)] powerof2_values(2) [OF pk(3)]
      by (simp add: not_less is_fat32_def linorder_not_le [symmetric])
  next
    case False
    with pk(10) have "b_RootDirEnts ?b \<noteq> 0" by simp
    with False show ?thesis
      unfolding readboot_bpb_def d bpb_view_def num Let_def zero_boot_def
      using bps spc fats res sec pk(15) powerof2_values(1) [OF pk(2)] powerof2_values(2) [OF pk(3)]
      by (auto simp add: not_less is_fat32_def linorder_not_le [symmetric])
  qed
qed

lemma unat_root_sectors:
  assumes "(e :: u32) \<le> 0xffff" "p \<in> bps_values"
  shows "unat ((e * 32 + p - 1) div p) = (unat e * 32 + unat p - 1) div unat p"
proof -
  have e: "unat e \<le> 0xffff" using assms(1) by (simp add: word_le_nat_alt)
  have p: "1 \<le> unat p" "unat p \<le> 4096" using bps_nat [OF assms(2)] by auto
  have "unat (e * 32) = unat e * 32" using e by (subst unat_mult_small) auto
  then have s: "unat (e * 32 + p) = unat e * 32 + unat p" using e p by (subst unat_add_small) auto
  then have "e * 32 + p \<noteq> 0" using p by (metis add_is_0 le_zero_eq unat_0 zero_neq_one)
  then have "unat (e * 32 + p - 1) = unat e * 32 + unat p - 1" using s by (simp add: unat_minus_one)
  then show ?thesis by (simp add: unat_div_distrib)
qed

text \<open>What the plan and the boot block have to share.\<close>

definition same_volume :: "plan \<Rightarrow> bootblock \<Rightarrow> bool" where
  "same_volume p boot \<longleftrightarrow> (let b = p_bpb p in
     bpbBytesPerSec boot = b_BytesPerSec b \<and> bpbSecPerClust boot = b_SecPerClust b \<and>
     bpbResSectors boot = b_ResSectors b \<and> bpbFATs boot = b_FATs b \<and> bpbRootDirEnts boot = b_RootDirEnts b \<and>
     unat (NumSectors boot) = plan_sectors p \<and> unat (FATsecs boot) = plan_spf p \<and>
     (is_fat32 boot \<longleftrightarrow> p_fat p = 32) \<and> (p_fat p = 32 \<longrightarrow> bpbRootClust boot = 2))"

lemma first_cluster_view:
  assumes ok: "plan_ok p" and sv: "same_volume p boot"
  shows "unat (first_cluster boot) = plan_meta p"
proof -
  note pk = plan_okD [OF ok]
  let ?r = "unat ((bpbRootDirEnts boot * 32 + bpbBytesPerSec boot - 1) div bpbBytesPerSec boot)"
  have "plan_meta p \<le> plan_sectors p" using pk(13) by simp
  also have "\<dots> < 2 ^ 32" unfolding plan_sectors_def by (rule unat_u32_less)
  finally have lt: "plan_meta p < 2 ^ 32" .
  have r: "?r = unat (p_rds p)"
    using sv pk(8) unat_root_sectors [OF pk(9,2)] by (simp add: same_volume_def Let_def root_secs_def)
  have rs: "unat (bpbResSectors boot) = unat (b_ResSectors (p_bpb p))" using sv by (simp add: same_volume_def Let_def)
  have m: "unat (bpbFATs boot * FATsecs boot) = plan_spf p * unat (b_FATs (p_bpb p))"
    using sv lt by (subst unat_mult_small) (auto simp: same_volume_def Let_def plan_meta_def mult.commute)
  have "unat ((bpbRootDirEnts boot * 32 + bpbBytesPerSec boot - 1) div bpbBytesPerSec boot + bpbResSectors boot)
     = unat (p_rds p) + unat (b_ResSectors (p_bpb p))"
    using lt unfolding rs [symmetric] r [symmetric] by (intro unat_add_small) (simp add: r rs plan_meta_def)
  then show ?thesis
    unfolding first_cluster_def using lt
    by (subst unat_add_small) (auto simp: m plan_meta_def)
qed

definition fat_mask :: "u32 \<Rightarrow> cl_t" where
  "fat_mask fat1 = (if fat1 = 12 then CLUST12_MASK else if fat1 = 16 then CLUST16_MASK else CLUST32_MASK)"

text \<open>
  The number of clusters of the plan is the one the volume has room for, and it is not one of the two
  numbers on which the programs disagree.
\<close>

definition exact_clusters :: "plan \<Rightarrow> bool" where
  "exact_clusters p \<longleftrightarrow>
     unat (p_cls p) = (plan_sectors p - plan_meta p) div unat (b_SecPerClust (p_bpb p)) \<and>
     \<not> (p_fat p = 16 \<and> p_cls p = 0xff5) \<and> \<not> (p_fat p = 32 \<and> p_cls p = 0xfff5)"

lemma fat_entries_view:
  assumes ok: "plan_ok p" and sv: "same_volume p boot" and m: "ClustMask boot = fat_mask (p_fat p)"
    and sz: "plan_spf p * unat (b_BytesPerSec (p_bpb p)) < 2 ^ 32"
  shows "unat (fat_entries boot) = plan_entries p"
proof -
  let ?P = "unat (b_BytesPerSec (p_bpb p))"
  note pk = plan_okD [OF ok]
  have f: "unat (FATsecs boot * bpbBytesPerSec boot) = plan_spf p * ?P"
    using sv sz by (subst unat_mult_small) (auto simp: same_volume_def Let_def)
  consider "p_fat p = 12" | "p_fat p = 16" | "p_fat p = 32" using pk(1) by auto
  then show ?thesis
  proof cases
    case 1
    then have "1 \<le> b_FATsecs (p_bpb p)" "b_FATsecs (p_bpb p) \<le> 0xffff" using ok by (simp_all add: plan_ok_def Let_def)
    then have "plan_spf p \<le> 0xffff" by (auto simp: plan_spf_def word_le_nat_alt)
    moreover have "?P \<le> 4096" using bps_nat [OF pk(2)] by auto
    ultimately have "plan_spf p * ?P \<le> 0xffff * 4096" by (rule mult_le_mono)
    then have "unat (FATsecs boot * bpbBytesPerSec boot * 2) = plan_spf p * ?P * 2"
      by (subst unat_mult_small) (auto simp: f)
    then show ?thesis using 1 m by (simp add: fat_entries_def fat_mask_def plan_entries_def unat_div_distrib)
  next
    case 2
    then show ?thesis
      using m by (simp add: fat_entries_def fat_mask_def plan_entries_def unat_div_distrib f)
  next
    case 3
    then show ?thesis
      using m by (simp add: fat_entries_def fat_mask_def plan_entries_def unat_div_distrib f)
  qed
qed

lemma readboot_geometry_view:
  assumes ok: "plan_ok p" and sv: "same_volume p boot" and ex: "exact_clusters p"
    and sz: "plan_spf p * unat (b_BytesPerSec (p_bpb p)) < 2 ^ 32"
  shows "readboot_geometry boot = (True, boot\<lparr>FirstCluster := of_nat (plan_meta p), NumClusters := p_cls p + 2,
     ClustMask := fat_mask (p_fat p), NumFatEntries := of_nat (plan_entries p),
     ClusterSize := b_BytesPerSec (p_bpb p) * b_SecPerClust (p_bpb p), NumFiles := 1, NumFree := 0\<rparr>)"
proof -
  note pk = plan_okD [OF ok]
  let ?fc = "first_cluster boot" and ?S = "bpbSecPerClust boot" and ?n = "NumSectors boot"
  have S: "unat ?S = unat (b_SecPerClust (p_bpb p))" "1 \<le> unat ?S" and n: "unat ?n = plan_sectors p"
    and F: "unat (bpbFATs boot) = unat (b_FATs (p_bpb p))" and fs: "unat (FATsecs boot) = plan_spf p"
    and same: "bpbBytesPerSec boot = b_BytesPerSec (p_bpb p)" "?S = b_SecPerClust (p_bpb p)"
    and f32: "is_fat32 boot \<longleftrightarrow> p_fat p = 32" "p_fat p = 32 \<Longrightarrow> bpbRootClust boot = 2"
    using sv spc_nat [OF pk(3)] by (simp_all add: same_volume_def Let_def)
  have nl: "unat ?n < 2 ^ 32" by (rule unat_u32_less)
  have fc: "unat ?fc = plan_meta p" by (rule first_cluster_view [OF ok sv])
  have cls: "1 \<le> unat (p_cls p)" using pk(11) by (auto simp: word_le_nat_alt mincls_def split: if_splits)
  have "1 * unat ?S \<le> unat (p_cls p) * unat ?S" using cls by (rule mult_le_mono1)
  then have fit: "plan_meta p + unat ?S \<le> plan_sectors p" using pk(13) unfolding S(1) by linarith
  have "unat (?fc + ?S) = plan_meta p + unat ?S" using fit nl n by (subst unat_add_small) (auto simp: fc)
  then have c1: "\<not> ?fc + ?S > ?n" using fit by (simp add: not_less word_le_nat_alt n)
  have nc: "(?n - ?fc) div ?S = p_cls p"
  proof -
    have "unat ((?n - ?fc) div ?S) = unat (p_cls p)"
      using fit ex by (simp add: unat_div_distrib unat_sub word_le_nat_alt fc n S(1) exact_clusters_def)
    then show ?thesis by (simp add: word_unat_eq_iff)
  qed
  have spf1: "1 \<le> plan_spf p"
    using pk(14) cls by (cases "plan_spf p") (auto simp: plan_entries_def)
  have c0: "\<not> (FATsecs boot < 1 \<or> FATsecs boot > 0xffffffff div bpbFATs boot)"
  proof -
    have "plan_spf p * unat (b_FATs (p_bpb p)) \<le> 0xffffffff"
      using fit nl n by (simp add: plan_meta_def)
    then have "plan_spf p \<le> 0xffffffff div unat (b_FATs (p_bpb p))"
      using pk(4) by (simp add: less_eq_div_iff_mult_less_eq)
    then show ?thesis using spf1 by (simp add: not_less word_le_nat_alt word_less_nat_alt unat_div_distrib fs F)
  qed
  have fcw: "?fc = of_nat (plan_meta p)" by (simp add: fc [symmetric])
  let ?b = "boot\<lparr>FirstCluster := ?fc, NumClusters := p_cls p\<rparr>"
  have cm: "readboot_clustmask ?b = Some (fat_mask (p_fat p))"
    using pk(1) pk(11,12) ex f32
    by (auto simp: readboot_clustmask_def is_fat32_def fat_mask_def mincls_def maxcls_def exact_clusters_def
        word_le_nat_alt word_less_nat_alt word_unat_eq_iff)
  have ent: "unat (fat_entries (?b\<lparr>ClustMask := fat_mask (p_fat p)\<rparr>)) = plan_entries p"
    using sv by (intro fat_entries_view [OF ok _ _ sz]) (simp_all add: same_volume_def is_fat32_def)
  then have entw: "fat_entries (?b\<lparr>ClustMask := fat_mask (p_fat p)\<rparr>) = of_nat (plan_entries p)" by (simp flip: ent)
  have c2: "\<not> fat_entries (?b\<lparr>ClustMask := fat_mask (p_fat p)\<rparr>) < p_cls p"
    using pk(14) by (simp add: not_less word_le_nat_alt ent)
  show ?thesis
    unfolding readboot_geometry_def Let_def using c0 c1 nc cm c2 entw fcw by (simp add: same)
qed

section \<open>The fresh device\<close>

definition volume_image :: "msdos_options \<Rightarrow> plan \<Rightarrow> tm \<Rightarrow> u32 \<Rightarrow> buf \<Rightarrow> buf" where
  "volume_image o1 p t usec d = image_on o1 p t usec 0 (image_sectors p * unat (b_BytesPerSec (p_bpb p))) d"

lemma mkfs_image_volume:
  "o_offset o1 = 0 \<Longrightarrow> mkfs_image os1 o1 p d = volume_image o1 p (fst (mkfs_time os1 o1)) (snd (mkfs_time os1 o1)) d"
  by (simp add: mkfs_image_def volume_image_def)

lemma volume_image_sector:
  assumes "lsn < image_sectors p" "k < unat (b_BytesPerSec (p_bpb p))"
  shows "bdat (volume_image o1 p t usec d) (lsn * unat (b_BytesPerSec (p_bpb p)) + k)
    = mk_sector o1 p t usec (of_nat lsn) (boot_img o1 p (of_nat lsn)) k"
proof -
  let ?P = "unat (b_BytesPerSec (p_bpb p))"
  have "lsn * ?P + k < (lsn + 1) * ?P" using assms(2) by simp
  also have "\<dots> \<le> image_sectors p * ?P" using assms(1) by (intro mult_le_mono1) simp
  finally show ?thesis
    using image_byte_sector [OF assms(2)] by (simp add: volume_image_def image_on_def)
qed

lemma blen_volume_image [simp]: "blen (volume_image o1 p t usec d) = blen d"
  by (simp add: volume_image_def image_on_def)

lemma volume_boot_sector:
  assumes "plan_ok p" "k < 512"
  shows "bdat (volume_image o1 p t usec d) k = boot_sector o1 (p_fat p) (p_bpb p) t usec (boot_img o1 p 0) k"
proof -
  have "0 < image_sectors p" using image_sectors_eq(1) [OF assms(1)] plan_okD(6) [OF assms(1)] by (simp add: plan_meta_def)
  moreover have "k < unat (b_BytesPerSec (p_bpb p))" using assms(2) bps_nat [OF plan_okD(2) [OF assms(1)]] by auto
  ultimately show ?thesis
    using volume_image_sector [of 0 p k] by (simp add: mk_sector_def Let_def)
qed

text \<open>
  The FSInfo block as newfs_msdos places it by default: sector size 512, followed by the backup. The
  copy of the FSInfo block, which the code does not check, lies in the reserved sectors as well.
\<close>

definition default_info :: "plan \<Rightarrow> bool" where
  "default_info p \<longleftrightarrow> b_BytesPerSec (p_bpb p) = 512 \<and> b_FSInfo (p_bpb p) \<noteq> 0 \<and> b_FSInfo (p_bpb p) \<noteq> 0xffff \<and>
     b_Backup (p_bpb p) = b_FSInfo (p_bpb p) + 1 \<and> b_Backup (p_bpb p) \<noteq> 0xffff \<and>
     unat (b_Backup (p_bpb p)) + unat (b_FSInfo (p_bpb p)) < unat (b_ResSectors (p_bpb p))"

lemma volume_fsinfo:
  assumes ok: "plan_ok p" "p_fat p = 32" "default_info p" and b: "o_bootstrap o1 = None"
    and d: "plan_sectors p * unat (b_BytesPerSec (p_bpb p)) \<le> blen d"
  defines "i \<equiv> unat (b_FSInfo (p_bpb p)) * 512"
  shows "i + 8192 \<le> blen d"
    and "k < 512 \<Longrightarrow> bdat (volume_image o1 p t usec d) (i + k) = fsinfo_sector (\<lambda>_. 0) k"
    and "k < 512 \<Longrightarrow> bdat (volume_image o1 p t usec d) (i + 512 + k) = boot_sector o1 32 (p_bpb p) t usec (\<lambda>_. 0) k"
proof -
  let ?b = "p_bpb p" and ?i = "b_FSInfo (p_bpb p)"
  note pk = plan_okD [OF ok(1)]
  have P: "unat (b_BytesPerSec ?b) = 512" using ok(3) by (simp add: default_info_def)
  have di: "?i \<noteq> 0" "?i \<noteq> 0xffff" "b_Backup ?b = ?i + 1" "b_Backup ?b \<noteq> 0xffff"
    using ok(3) unfolding default_info_def by blast+
  have lt: "?i < b_ResSectors ?b" "b_Backup ?b < b_ResSectors ?b" using ok di unfolding plan_ok_def Let_def by blast+
  have u: "unat (?i + 1) = unat ?i + 1" using lt(1) by (rule unat_plus1)
  have bk: "unat ?i + 1 < unat (b_ResSectors ?b)" using lt(2) di(3) u by (simp add: word_less_nat_alt)
  have im: "unat (b_ResSectors ?b) \<le> image_sectors p"
    using image_sectors_eq(1) [OF ok(1)] by (simp add: plan_meta_def)
  have w: "of_nat (unat ?i) = ?i" "of_nat (unat ?i + 1) = ?i + 1" by simp_all
  have ne: "?i \<noteq> ?i + 1" "?i + 1 \<noteq> 0" using u by (metis add_cancel_right_right zero_neq_one, metis add_is_0 unat_0 zero_neq_one)
  have bi: "boot_img o1 p l = (\<lambda>_. 0)" for l by (simp add: boot_img_def b)
  show "bdat (volume_image o1 p t usec d) (i + k) = fsinfo_sector (\<lambda>_. 0) k" if "k < 512"
    using volume_image_sector [of "unat ?i" p k o1 t usec d] that bk im di ne ok(2)
    by (simp add: P i_def mk_sector_def Let_def bi)
  show "bdat (volume_image o1 p t usec d) (i + 512 + k) = boot_sector o1 32 ?b t usec (\<lambda>_. 0) k" if "k < 512"
    using volume_image_sector [of "unat ?i + 1" p k o1 t usec d] that bk im di ok(2)
    by (simp add: P i_def mk_sector_def Let_def bi w add.commute [of 512])
  have "1 \<le> unat (b_SecPerClust ?b)" using spc_nat [OF pk(3)] by simp
  then have "unat (p_cls p) * 1 \<le> unat (p_cls p) * unat (b_SecPerClust ?b)" by (rule mult_le_mono2)
  moreover have "0xfff5 \<le> unat (p_cls p)" using pk(11) ok(2) by (simp add: mincls_def word_le_nat_alt)
  ultimately have "unat ?i + 16 \<le> plan_sectors p" using pk(13) bk unfolding plan_meta_def by linarith
  then have "(unat ?i + 16) * 512 \<le> plan_sectors p * 512" by (rule mult_le_mono1)
  then show "i + 8192 \<le> blen d" using d by (simp add: P i_def)
qed

lemma fsinfo_sector_good:
  assumes "\<And>k. k < 512 \<Longrightarrow> f k = fsinfo_sector (\<lambda>_. 0) k"
    and "f 0x3fc = 0" "f 0x3fd = 0" "f 0x3fe = 0x55" "f 0x3ff = 0xaa"
  shows "\<not> fsinfo_bad f" and "b4 f 0x1e8 = 0xffffffff" and "b4 f 0x1ec = 0xffffffff"
  using assms
  by (simp_all add: fsinfo_bad_def mem_eq_def upt_rec b4_def fsinfo_sector_def put_bytes_def le32_bytes_def)

text \<open>What the checker should know about a fresh volume.\<close>

definition info_view :: "plan \<Rightarrow> bootblock" where
  "info_view p = (if p_fat p = 32 then (bpb_view p)\<lparr>FATsecs := of_nat (plan_spf p), bpbRootClust := 2,
       bpbFSInfo := b_FSInfo (p_bpb p), bpbBackup := b_Backup (p_bpb p), FSFree := 0xffffffff, FSNext := 0xffffffff\<rparr>
     else (bpb_view p)\<lparr>FATsecs := of_nat (plan_spf p)\<rparr>)"

definition fsck_view :: "plan \<Rightarrow> bootblock" where
  "fsck_view p = (info_view p)\<lparr>FirstCluster := of_nat (plan_meta p), NumClusters := p_cls p + 2,
     ClustMask := fat_mask (p_fat p), NumFatEntries := of_nat (plan_entries p),
     ClusterSize := b_BytesPerSec (p_bpb p) * b_SecPerClust (p_bpb p), NumFiles := 1, NumFree := 0\<rparr>"

lemma same_volume_info:
  assumes "plan_ok p"
  shows "same_volume p (info_view p)"
proof -
  have "plan_sectors p < 2 ^ 32" "plan_spf p < 2 ^ 32" unfolding plan_sectors_def plan_spf_def by (rule unat_u32_less)+
  then show ?thesis
    by (simp add: same_volume_def info_view_def bpb_view_def Let_def is_fat32_def zero_boot_def unat_of_nat take_bit_nat_eq_self)
qed

lemma xbpb_fields:
  assumes "\<forall>k\<in>{36..<52}. block k = bsxbpb_bytes b ! (k - 36)"
  shows "b4 block 36 = b_BigFATsecs b" "block 40 = 0" "block 42 = 0" "block 43 = 0" "b4 block 44 = b_RootClust b"
    "b_FSInfo b \<le> 0xffff \<Longrightarrow> b2 block 48 = b_FSInfo b" "b_Backup b \<le> 0xffff \<Longrightarrow> b2 block 50 = b_Backup b"
  by (simp_all add: b2_def b4_def assms [rule_format] bsxbpb_bytes_def le16_bytes_def le32_bytes_def le16_sum le32_sum)

lemma boot_sector_oem:
  assumes "o_bootstrap o1 = None" "k < 8"
  shows "boot_sector o1 fat1 b t usec img (3 + k) = setstr (case o_OEM_string o1 of Some s \<Rightarrow> s | None \<Rightarrow> BSD44) 8 ! k"
  using assms by (simp add: boot_sector_def Let_def put_bytes_in put_bytes_out nth_append)

definition not_exfat :: "msdos_options \<Rightarrow> bool" where
  "not_exfat o1 \<longleftrightarrow> setstr (case o_OEM_string o1 of Some s \<Rightarrow> s | None \<Rightarrow> BSD44) 8 \<noteq> EXFAT_NAME"

lemma mem_eq_oem:
  assumes "\<And>k. k < 512 \<Longrightarrow> block k = boot_sector o1 fat1 b t usec img k" "o_bootstrap o1 = None" "not_exfat o1"
  shows "\<not> mem_eq block 3 EXFAT_NAME"
proof
  let ?o = "setstr (case o_OEM_string o1 of Some s \<Rightarrow> s | None \<Rightarrow> BSD44) 8"
  assume "mem_eq block 3 EXFAT_NAME"
  then have "map (\<lambda>k. block (3 + k)) [0..<8] = EXFAT_NAME" by (simp add: mem_eq_def upt_rec)
  moreover have "map (\<lambda>k. block (3 + k)) [0..<8] = ?o"
    using assms(1) boot_sector_oem [OF assms(2)] by (intro nth_equalityI) (simp_all add: add.commute)
  ultimately show False using assms(3) by (simp add: not_exfat_def)
qed

definition fresh_volume :: "msdos_options \<Rightarrow> plan \<Rightarrow> buf \<Rightarrow> bool" where
  "fresh_volume o1 p d \<longleftrightarrow> plan_ok p \<and> exact_clusters p \<and> o_bootstrap o1 = None \<and> 4096 \<le> blen d \<and>
     plan_sectors p * unat (b_BytesPerSec (p_bpb p)) \<le> blen d \<and>
     (p_fat p = 32 \<longrightarrow> default_info p \<and> not_exfat o1 \<and> plan_spf p * unat (b_BytesPerSec (p_bpb p)) < 2 ^ 32)"

lemma fresh_fat_size:
  assumes "fresh_volume o1 p d"
  shows "plan_spf p * unat (b_BytesPerSec (p_bpb p)) < 2 ^ 32"
proof (cases "p_fat p = 32")
  case False
  have ok: "plan_ok p" using assms by (simp add: fresh_volume_def)
  with False have "1 \<le> b_FATsecs (p_bpb p)" "b_FATsecs (p_bpb p) \<le> 0xffff" by (simp_all add: plan_ok_def Let_def)
  then have "plan_spf p \<le> 0xffff" by (auto simp: plan_spf_def word_le_nat_alt)
  moreover have "unat (b_BytesPerSec (p_bpb p)) \<le> 4096" using bps_nat [OF plan_okD(2) [OF ok]] by auto
  ultimately have "plan_spf p * unat (b_BytesPerSec (p_bpb p)) \<le> 0xffff * 4096" by (rule mult_le_mono)
  then show ?thesis by simp
qed (use assms in \<open>simp add: fresh_volume_def\<close>)

lemma readboot_fat32_view:
  assumes f: "fresh_volume o1 p d" and dev: "dev s = volume_image o1 p t usec d" and io: "io_faults s = []"
    and block: "\<And>k. k < 512 \<Longrightarrow> block k = boot_sector o1 (p_fat p) (p_bpb p) t usec img k"
  shows "\<exists>q. readboot_fat32 block (bpb_view p) s = Some ((FSOK, info_view p), s\<lparr>io_faults := [], pos := q\<rparr>)"
proof (cases "p_fat p = 32")
  case False
  then have "\<not> is_fat32 (bpb_view p)" by (simp add: bpb_view_def Let_def is_fat32_def zero_boot_def)
  moreover have "bpbFATsmall (bpb_view p) = of_nat (plan_spf p)"
    using f False by (auto simp: bpb_view_def Let_def plan_spf_def fresh_volume_def plan_ok_def)
  ultimately have "readboot_fat32 block (bpb_view p) s = Some ((FSOK, info_view p), s)"
    using False by (simp add: readboot_fat32_def info_view_def)
  moreover have "s = s\<lparr>io_faults := [], pos := pos s\<rparr>" using io by simp
  ultimately show ?thesis by metis
next
  case True
  let ?b = "p_bpb p" and ?v = "bpb_view p" and ?i = "b_FSInfo (p_bpb p)"
  have ok: "plan_ok p" and di: "default_info p" and b: "o_bootstrap o1 = None" and ne: "not_exfat o1"
    and sz: "plan_sectors p * unat (b_BytesPerSec ?b) \<le> blen d"
    using f True by (simp_all add: fresh_volume_def)
  have P: "b_BytesPerSec ?b = 512" and i0: "?i \<noteq> 0" using di by (simp_all add: default_info_def)
  have pl: "b_RootClust ?b = 2" "b_FATsecs ?b = 0" "?i \<le> 0xffff" "b_Backup ?b \<le> 0xffff"
    using ok True plan_okD(7) [OF ok] by (auto simp: plan_ok_def Let_def)
  have x: "\<forall>k\<in>{36..<52}. block k = bsxbpb_bytes ?b ! (k - 36)" using block True by (simp add: boot_sector_xbpb)
  note xf = xbpb_fields [OF x]
  have v: "is_fat32 ?v" "ValidFat ?v = -1" "bpbBytesPerSec ?v = 512"
    using True P by (simp_all add: bpb_view_def Let_def is_fat32_def zero_boot_def)
  define v2 where "v2 = ?v\<lparr>FATsecs := b_BigFATsecs ?b, bpbRootClust := 2, bpbFSInfo := ?i, bpbBackup := b_Backup ?b\<rparr>"
  have r32: "readboot_fat32 block ?v s = readboot_fsinfo v2 s"
    using mem_eq_oem [OF block b ne] xf pl i0 v by (simp add: readboot_fat32_def v2_def Let_def)
  have off: "fsinfo_off v2 = unat ?i * 512"
  proof -
    have "unat ?i \<le> 0xffff" using pl(3) by (simp add: word_le_nat_alt)
    then have "unat (?i * 512) = unat ?i * 512" by (subst unat_mult_small) auto
    then show ?thesis by (simp add: fsinfo_off_def v2_def v)
  qed
  note vf = volume_fsinfo [OF ok True di b sz]
  have rd: "seek_read (fsinfo_off v2) 8192 0 \<lparr>blen = 8192, bdat = junk s\<rparr> s =
      Some ((True, \<lparr>blen = 8192, bdat = blit (bdat (dev s)) (unat ?i * 512) 8192 (junk s) 0\<rparr>),
        s\<lparr>io_faults := [], pos := unat ?i * 512 + 8192\<rparr>)"
    unfolding off using vf(1) by (subst seek_read_nofault) (simp_all add: io dev)
  let ?f = "blit (bdat (dev s)) (unat ?i * 512) 8192 (junk s) 0"
  have fk: "?f k = bdat (volume_image o1 p t usec d) (unat ?i * 512 + k)" if "k < 8192" for k
    using that by (simp add: dev add.commute)
  have s1: "\<And>k. k < 512 \<Longrightarrow> ?f k = fsinfo_sector (\<lambda>_. 0) k" using fk vf(2) by simp
  have s2: "?f (512 + k) = boot_sector o1 32 ?b t usec (\<lambda>_. 0) k" if "k < 512" for k
    using fk [of "512 + k"] vf(3) [OF that] that by (simp add: add.assoc)
  have s3: "?f 0x3fc = 0" "?f 0x3fd = 0" "?f 0x3fe = 0x55" "?f 0x3ff = 0xaa"
    using s2 [of 508] s2 [of 509] s2 [of 510] s2 [of 511] boot_sector_signature [OF b] by simp_all
  note good = fsinfo_sector_good [OF s1 s3]
  have iv: "v2\<lparr>FSFree := 0xffffffff, FSNext := 0xffffffff\<rparr> = info_view p"
    using True pl(2) by (simp add: v2_def info_view_def plan_spf_def)
  have "readboot_fsinfo v2 s = Some ((FSOK, info_view p), s\<lparr>io_faults := [], pos := unat ?i * 512 + 8192\<rparr>)"
    unfolding readboot_fsinfo_def rd using good iv by simp
  then show ?thesis unfolding r32 by (rule exI)
qed

lemma readboot_fresh:
  assumes f: "fresh_volume o1 p d" and dev: "dev s = volume_image o1 p t usec d" and io: "io_faults s = []" "pos s = 0"
  shows "\<exists>q. readboot s = Some ((FSOK, fsck_view p), s\<lparr>io_faults := [], pos := q\<rparr>)"
proof -
  have ok: "plan_ok p" "exact_clusters p" and b: "o_bootstrap o1 = None" and len: "4096 \<le> blen d"
    using f by (simp_all add: fresh_volume_def)
  let ?blk = "blit (bdat (dev s)) 0 4096 (junk s) 0"
  let ?s = "s\<lparr>io_faults := [], pos := 4096\<rparr>"
  have rd: "dread 4096 0 \<lparr>blen = 4096, bdat = junk s\<rparr> s = Some ((True, \<lparr>blen = 4096, bdat = ?blk\<rparr>), ?s)"
    using len by (simp add: dread_def pop_fault_def io dev)
  have bk: "?blk k = boot_sector o1 (p_fat p) (p_bpb p) t usec (boot_img o1 p 0) k" if "k < 512" for k
    using that volume_boot_sector [OF ok(1) that, of o1 t usec d] by (simp add: dev)
  have sig: "?blk 510 = 0x55" "?blk 511 = 0xaa"
    using bk [of 510] bk [of 511] boot_sector_signature [OF b] by simp_all
  have bpb: "readboot_bpb ?blk = (True, bpb_view p)"
    by (rule readboot_bpb_view [OF ok(1)]) (use bk in \<open>simp add: boot_sector_bpb\<close>)
  obtain q where f32: "readboot_fat32 ?blk (bpb_view p) ?s = Some ((FSOK, info_view p), ?s\<lparr>io_faults := [], pos := q\<rparr>)"
    using readboot_fat32_view [OF f, of ?s t usec ?blk, OF _ _ bk] dev by auto
  have geo: "readboot_geometry (info_view p) = (True, fsck_view p)"
    unfolding fsck_view_def
    by (rule readboot_geometry_view [OF ok(1) same_volume_info [OF ok(1)] ok(2) fresh_fat_size [OF f]])
  have "readboot s = Some ((FSOK, fsck_view p), s\<lparr>io_faults := [], pos := q\<rparr>)"
    unfolding readboot_def rd using sig bpb f32 geo by simp
  then show ?thesis by (rule exI)
qed

end
