(* ===== verification/Fsck_Scan.thy ===== *)
theory Fsck_Scan
  imports Fsck_Chain
begin

text \<open>
  The scan of \<open>readfat\<close>. \<open>scanned V v0 k w H\<close> is the invariant of the loop after the clusters
  below \<open>k\<close> have been visited, for the table \<open>v0\<close> that was read, the current table \<open>w\<close> and the
  current set of heads \<open>H\<close>: entries change only by being cut to an end mark, visited entries are in
  range, no two visited clusters share a successor, and the heads are the clusters that are neither
  unused nor anybody's successor. \<open>scan_entry_ok\<close> shows it for one entry, \<open>readfat_scan_ok\<close> for
  the loop.
\<close>

section \<open>The loop invariant\<close>


definition scanned :: "(cl_t \<Rightarrow> bool) \<Rightarrow> (cl_t \<Rightarrow> cl_t) \<Rightarrow> nat \<Rightarrow> (cl_t \<Rightarrow> cl_t) \<Rightarrow> nat set \<Rightarrow> bool" where
  "scanned V v0 k w H \<longleftrightarrow>
     (\<forall>c. V c \<and> k \<le> unat c \<longrightarrow> w c = v0 c) \<and>
     (\<forall>c. V c \<and> unat c < k \<longrightarrow>
        (w c = v0 c \<or> w c = CLUST_EOF \<and> v0 c \<noteq> CLUST_FREE \<and> v0 c < CLUST_RSRVD) \<and>
        (V (w c) \<or> w c = CLUST_FREE \<or> w c \<ge> CLUST_RSRVD)) \<and>
     (\<forall>c d. V c \<and> V d \<and> unat c < k \<and> unat d < k \<and> w c = w d \<and> V (w c) \<longrightarrow> c = d) \<and>
     (\<forall>x. V x \<longrightarrow> (unat x \<in> H \<longleftrightarrow>
        (\<forall>c. V c \<and> unat c < k \<longrightarrow> w c \<noteq> x) \<and>
        \<not> (unat x < k \<and> (w x = CLUST_FREE \<or> w x = CLUST_BAD))))"

lemma unat_less_Suc: "unat (c :: cl_t) = k \<Longrightarrow> unat d < Suc k \<longleftrightarrow> unat d < k \<or> d = c"
  by (auto simp: less_Suc_eq unsigned_word_eqI)

lemma scanned_start: "\<forall>x. V x \<longrightarrow> unat x \<in> H \<Longrightarrow> scanned V v0 0 v0 H"
  by (simp add: scanned_def)

lemma scannedI:
  assumes "\<And>x. V x \<Longrightarrow> k \<le> unat x \<Longrightarrow> w x = v0 x"
    and "\<And>x. V x \<Longrightarrow> unat x < k \<Longrightarrow> w x = v0 x \<or> w x = CLUST_EOF \<and> v0 x \<noteq> CLUST_FREE \<and> v0 x < CLUST_RSRVD"
    and "\<And>x. V x \<Longrightarrow> unat x < k \<Longrightarrow> V (w x) \<or> w x = CLUST_FREE \<or> w x \<ge> CLUST_RSRVD"
    and "\<And>x y. V x \<Longrightarrow> V y \<Longrightarrow> unat x < k \<Longrightarrow> unat y < k \<Longrightarrow> w x = w y \<Longrightarrow> V (w x) \<Longrightarrow> x = y"
    and "\<And>x. V x \<Longrightarrow> unat x \<in> H \<longleftrightarrow> (\<forall>c. V c \<and> unat c < k \<longrightarrow> w c \<noteq> x) \<and>
        \<not> (unat x < k \<and> (w x = CLUST_FREE \<or> w x = CLUST_BAD))"
  shows "scanned V v0 k w H"
  using assms unfolding scanned_def by blast

lemma scannedD:
  assumes "scanned V v0 k w H"
  shows "\<And>x. V x \<Longrightarrow> k \<le> unat x \<Longrightarrow> w x = v0 x"
    and "\<And>x. V x \<Longrightarrow> unat x < k \<Longrightarrow> w x = v0 x \<or> w x = CLUST_EOF \<and> v0 x \<noteq> CLUST_FREE \<and> v0 x < CLUST_RSRVD"
    and "\<And>x. V x \<Longrightarrow> unat x < k \<Longrightarrow> V (w x) \<or> w x = CLUST_FREE \<or> w x \<ge> CLUST_RSRVD"
    and "\<And>x y. V x \<Longrightarrow> V y \<Longrightarrow> unat x < k \<Longrightarrow> unat y < k \<Longrightarrow> w x = w y \<Longrightarrow> V (w x) \<Longrightarrow> x = y"
    and "\<And>x. V x \<Longrightarrow> unat x \<in> H \<longleftrightarrow> (\<forall>c. V c \<and> unat c < k \<longrightarrow> w c \<noteq> x) \<and>
        \<not> (unat x < k \<and> (w x = CLUST_FREE \<or> w x = CLUST_BAD))"
  using assms unfolding scanned_def by blast+

text \<open>One more cluster \<open>c\<close>, whose entry in the new view is fine and breaks nothing.\<close>

lemma scanned_Suc:
  assumes S: "scanned V v0 k w H" and c: "V c" "unat c = k"
    and same: "\<And>x. V x \<Longrightarrow> x \<noteq> c \<Longrightarrow> w' x = w x"
    and new: "w' c = w c \<or> w' c = CLUST_EOF \<and> w c \<noteq> CLUST_FREE \<and> w c < CLUST_RSRVD"
    and ok: "V (w' c) \<or> w' c = CLUST_FREE \<or> w' c \<ge> CLUST_RSRVD"
    and fresh: "V (w' c) \<Longrightarrow> unat (w' c) \<in> H"
    and heads: "\<And>x. V x \<Longrightarrow> unat x \<in> H' \<longleftrightarrow> unat x \<in> H \<and> w' c \<noteq> x \<and>
      \<not> (x = c \<and> (w' c = CLUST_FREE \<or> w' c = CLUST_BAD))"
  shows "scanned V v0 (Suc k) w' H'"
proof (rule scannedI)
  note D = scannedD [OF S]
  have lt: "unat x < Suc k \<longleftrightarrow> unat x < k \<or> x = c" for x by (rule unat_less_Suc [OF c(2)])
  have wc: "w c = v0 c" using D(1) [OF c(1)] c(2) by simp
  have ne: "unat x < k \<Longrightarrow> x \<noteq> c" for x using c(2) by blast
  show "w' x = v0 x" if "V x" "Suc k \<le> unat x" for x
  proof -
    have "x \<noteq> c" "k \<le> unat x" using that(2) c(2) by auto
    then show ?thesis using same D(1) that(1) by metis
  qed
  show "w' x = v0 x \<or> w' x = CLUST_EOF \<and> v0 x \<noteq> CLUST_FREE \<and> v0 x < CLUST_RSRVD"
    if "V x" "unat x < Suc k" for x
    using wc D(2) [OF that(1)] same [OF that(1)] new that(2) lt by metis
  show "V (w' x) \<or> w' x = CLUST_FREE \<or> w' x \<ge> CLUST_RSRVD" if "V x" "unat x < Suc k" for x
    using D(3) [OF that(1)] same [OF that(1)] ok that(2) lt by metis
  have old: "w' x \<noteq> w' c" if "V x" "unat x < k" "V (w' c)" for x
    using D(5) [OF that(3)] fresh [OF that(3)] same [OF that(1) ne [OF that(2)]] that(1,2) by metis
  show "x = y" if "V x" "V y" "unat x < Suc k" "unat y < Suc k" "w' x = w' y" "V (w' x)" for x y
  proof (cases "x = c \<or> y = c")
    case True
    then show ?thesis using old that lt by metis
  next
    case False
    then show ?thesis using D(4) [OF that(1,2)] same that lt by metis
  qed
  show "unat x \<in> H' \<longleftrightarrow> (\<forall>d. V d \<and> unat d < Suc k \<longrightarrow> w' d \<noteq> x) \<and>
        \<not> (unat x < Suc k \<and> (w' x = CLUST_FREE \<or> w' x = CLUST_BAD))" if "V x" for x
  proof -
    have "(\<forall>d. V d \<and> unat d < Suc k \<longrightarrow> w' d \<noteq> x) \<longleftrightarrow> (\<forall>d. V d \<and> unat d < k \<longrightarrow> w d \<noteq> x) \<and> w' c \<noteq> x"
      using same ne lt c(1) by metis
    moreover have "unat x < Suc k \<and> (w' x = CLUST_FREE \<or> w' x = CLUST_BAD) \<longleftrightarrow>
        unat x < k \<and> (w x = CLUST_FREE \<or> w x = CLUST_BAD) \<or> x = c \<and> (w' c = CLUST_FREE \<or> w' c = CLUST_BAD)"
      using same [OF that] ne lt by metis
    ultimately show ?thesis unfolding heads [OF that] D(5) [OF that] by blast
  qed
qed


section \<open>One step of the scan\<close>

definition scan_ok :: "'a fsck_scheme \<Rightarrow> bool" where
  "scan_ok s \<longleftrightarrow> table_inv s \<and> answers_yes s \<and>
     unat (NumClusters (boot s)) \<le> bm_cap (headbitmap (fat s))"

text \<open>What the scan leaves alone, and how the counters move when an entry reads \<open>v\<close>.\<close>

definition scan_moves :: "cl_t \<Rightarrow> 'a fsck_scheme \<Rightarrow> 'a fsck_scheme \<Rightarrow> bool" where
  "scan_moves v s t \<longleftrightarrow> valid_cl t = valid_cl s \<and> NumClusters (boot t) = NumClusters (boot s) \<and>
     fsck.more t = fsck.more s \<and>
     NumFree (boot t) = NumFree (boot s) + (if v = CLUST_FREE then 1 else 0) \<and>
     NumBad (boot t) = NumBad (boot s) + (if v = CLUST_BAD then 1 else 0)"

lemma scan_ok_frame:
  assumes "scan_ok s" "tbl_frame s t" "table_inv t"
  shows "scan_ok t"
  using assms frame_simps [OF assms(2)] answers_yes_frame [OF assms(2)] by (simp add: scan_ok_def)

lemma scan_ok_cap: "scan_ok s \<Longrightarrow> valid_cl s c \<Longrightarrow> unat c < bm_cap (headbitmap (fat s))"
  by (auto simp: scan_ok_def valid_cl_def word_less_nat_alt)

lemma valid_below_reserved:
  assumes "table_inv s" "valid_cl s c"
  shows "c < CLUST_RSRVD" "c \<noteq> CLUST_FREE" "c \<noteq> CLUST_BAD" "c \<noteq> CLUST_EOF"
proof -
  show a: "c < CLUST_RSRVD" using valid_cl_bound [OF assms] by (simp add: word_less_nat_alt)
  show "c \<noteq> CLUST_FREE" using assms(2) FREE_not_valid by blast
  show "c \<noteq> CLUST_BAD" "c \<noteq> CLUST_EOF" using a by auto
qed

lemma clear_if_head_ok:
  assumes "unat c < bm_cap (headbitmap (fat s))"
  shows "\<exists>lb. clear_if_head c s = Some (s\<lparr>fat := (fat s)\<lparr>headbitmap := lb\<rparr>\<rparr>) \<and>
    heads lb = fat_heads s - {unat c} \<and> bm_cap lb = bm_cap (headbitmap (fat s))"
proof (cases "unat c \<in> fat_heads s")
  case True
  then obtain lb where "bitmap_clear (headbitmap (fat s)) c = Some lb" "heads lb = fat_heads s - {unat c}"
    "bm_cap lb = bm_cap (headbitmap (fat s))" by (metis bitmap_clear_heads)
  with True show ?thesis
    by (auto simp: clear_if_head_def fat_is_cl_head_def fat_clear_cl_head_def bitmap_get_heads [OF assms])
next
  case False
  then show ?thesis
    by (intro exI [of _ "headbitmap (fat s)"])
      (simp add: clear_if_head_def fat_is_cl_head_def bitmap_get_heads [OF assms])
qed

lemma scan_truncate_ok:
  assumes ok: "scan_ok s" and c: "valid_cl s c"
  shows "\<exists>t. scan_truncate c ret s = Some (ret OR FSFATMOD, t) \<and> scan_ok t \<and>
    valid_cl t = valid_cl s \<and> boot t = boot s \<and> fsck.more t = fsck.more s \<and> fat_heads t = fat_heads s \<and>
    (\<forall>d. valid_cl s d \<longrightarrow> fat_view t d = (if d = c then CLUST_EOF else fat_view s d))"
proof -
  have y: "answers_yes s" "table_inv s" "\<not> rdonly s" using ok by (auto simp: scan_ok_def answers_yes_def)
  obtain t where t: "fat_set_cl_next c CLUST_EOF s = Some (FSOK, t)" "table_inv t" "tbl_frame s t"
    "\<forall>d. valid_cl s d \<longrightarrow> fat_view t d = (if d = c then CLUST_EOF else fat_view s d)"
    using fat_set_law [OF y(2) c y(3), of CLUST_EOF] by auto
  then show ?thesis
    using scan_ok_frame [OF ok t(3,2)] frame_simps [OF t(3)] tbl.frame_usable [OF t(3)]
    by (intro exI [of _ t]) (simp add: scan_truncate_def ask_yes [OF y(1)])
qed

lemma scan_ok_bitmap:
  assumes "scan_ok s" "bm_cap lb = bm_cap (headbitmap (fat s))" "NumClusters b = NumClusters (boot s)"
  shows "scan_ok (s\<lparr>fat := (fat s)\<lparr>headbitmap := lb\<rparr>, boot := b\<rparr>)"
proof -
  have "same_table s (s\<lparr>fat := (fat s)\<lparr>headbitmap := lb\<rparr>, boot := b\<rparr>)"
    using assms(3) by (simp add: same_table_def)
  from same_table_simps [OF this] assms show ?thesis by (simp add: scan_ok_def answers_yes_def)
qed


text \<open>The step after the entry has been read, in the four cases of the code.\<close>

lemma scan_step_unused:
  assumes ok: "scan_ok u" and c: "valid_cl u c" "unat c = k"
    and S: "scanned (valid_cl u) v0 k (fat_view u) (fat_heads u)"
    and e: "fat_view u c = CLUST_FREE \<or> fat_view u c = CLUST_BAD"
    and b: "NumClusters b = NumClusters (boot u)"
  shows "\<exists>lb. clear_if_head c (u\<lparr>boot := b0\<rparr>) = Some (u\<lparr>boot := b0, fat := (fat u)\<lparr>headbitmap := lb\<rparr>\<rparr>) \<and>
    scan_ok (u\<lparr>fat := (fat u)\<lparr>headbitmap := lb\<rparr>, boot := b\<rparr>) \<and>
    scanned (valid_cl u) v0 (Suc k) (fat_view (u\<lparr>fat := (fat u)\<lparr>headbitmap := lb\<rparr>, boot := b\<rparr>)) (heads lb)"
proof -
  have inv: "table_inv u" using ok by (simp add: scan_ok_def)
  have cap: "unat c < bm_cap (headbitmap (fat (u\<lparr>boot := b0\<rparr>)))" using scan_ok_cap [OF ok c(1)] by simp
  obtain lb where lb: "clear_if_head c (u\<lparr>boot := b0\<rparr>) = Some (u\<lparr>boot := b0, fat := (fat u)\<lparr>headbitmap := lb\<rparr>\<rparr>)"
    "heads lb = fat_heads u - {unat c}" "bm_cap lb = bm_cap (headbitmap (fat u))"
    using clear_if_head_ok [OF cap] by auto
  have "same_table u (u\<lparr>fat := (fat u)\<lparr>headbitmap := lb\<rparr>, boot := b\<rparr>)" using b by (simp add: same_table_def)
  note v = same_table_simps(2) [OF this]
  have nv: "\<not> valid_cl u (fat_view u c)" using e valid_below_reserved [OF inv] by blast
  have "scanned (valid_cl u) v0 (Suc k) (fat_view u) (heads lb)"
    using e nv by (intro scanned_Suc [OF S c]) (auto simp: lb(2) dest: unsigned_word_eqI)
  with lb v scan_ok_bitmap [OF ok lb(3) b] show ?thesis by auto
qed

definition entry_result :: "(cl_t \<Rightarrow> cl_t) \<Rightarrow> nat \<Rightarrow> cl_t \<Rightarrow> cint \<Rightarrow> 'a fsck_scheme \<Rightarrow>
    (cint \<times> 'a fsck_scheme) option \<Rightarrow> bool" where
  "entry_result v0 k c ret s res \<longleftrightarrow>
     (\<exists>r t. res = Some (r, t) \<and> scan_ok t \<and> scan_moves (v0 c) s t \<and>
        scanned (valid_cl s) v0 (Suc k) (fat_view t) (fat_heads t) \<and>
        (\<forall>d. valid_cl s d \<and> d \<noteq> c \<longrightarrow> fat_view t d = fat_view s d) \<and>
        r = (if fat_view t c = v0 c then ret else ret OR FSFATMOD))"

lemma scan_entry_unused:
  assumes ok: "scan_ok u" and c: "valid_cl u c" "unat c = k"
    and S: "scanned (valid_cl u) v0 k (fat_view u) (fat_heads u)" and v0: "fat_view u c = v0 c"
    and e: "v0 c = CLUST_FREE \<or> v0 c = CLUST_BAD"
  shows "entry_result v0 k c ret u (scan_entry c (v0 c) ret u)"
proof -
  define b0 where "b0 = (if v0 c = CLUST_FREE \<and> FSNext (boot u) = 0 then (boot u)\<lparr>FSNext := c\<rparr> else boot u)"
  define b where "b = (if v0 c = CLUST_FREE then b0\<lparr>NumFree := NumFree b0 + 1\<rparr> else b0\<lparr>NumBad := NumBad b0 + 1\<rparr>)"
  have nb: "NumClusters b = NumClusters (boot u)" by (simp add: b_def b0_def)
  from scan_step_unused [OF ok c S _ nb, of b0] v0 e obtain lb where
    lb: "clear_if_head c (u\<lparr>boot := b0\<rparr>) = Some (u\<lparr>boot := b0, fat := (fat u)\<lparr>headbitmap := lb\<rparr>\<rparr>)"
    and t: "scan_ok (u\<lparr>fat := (fat u)\<lparr>headbitmap := lb\<rparr>, boot := b\<rparr>)"
      "scanned (valid_cl u) v0 (Suc k) (fat_view (u\<lparr>fat := (fat u)\<lparr>headbitmap := lb\<rparr>, boot := b\<rparr>)) (heads lb)"
    by metis
  let ?t = "u\<lparr>fat := (fat u)\<lparr>headbitmap := lb\<rparr>, boot := b\<rparr>"
  have same: "same_table u ?t" using nb by (simp add: same_table_def)
  have "scan_entry c (v0 c) ret u = Some (ret, ?t)"
  proof (cases "v0 c = CLUST_FREE")
    case True
    then have "(if FSNext (boot u) = 0 then u\<lparr>boot := (boot u)\<lparr>FSNext := c\<rparr>\<rparr> else u) = u\<lparr>boot := b0\<rparr>"
      by (simp add: b0_def)
    with lb True show ?thesis by (simp add: scan_entry_def b_def)
  next
    case False
    then have "u\<lparr>boot := b0\<rparr> = u" "b0 = boot u" by (simp_all add: b0_def)
    with lb False e show ?thesis by (simp add: scan_entry_def b_def)
  qed
  moreover have "scan_moves (v0 c) u ?t"
    using same_table_simps(1) [OF same] e by (auto simp: scan_moves_def b_def b0_def)
  ultimately show ?thesis using t v0 same_table_simps(2) [OF same] by (simp add: entry_result_def)
qed

lemma scan_entry_cut:
  assumes ok: "scan_ok u" and c: "valid_cl u c" "unat c = k"
    and S: "scanned (valid_cl u) v0 k (fat_view u) (fat_heads u)" and v0: "fat_view u c = v0 c"
    and e: "v0 c \<noteq> CLUST_FREE" "v0 c < CLUST_RSRVD" "valid_cl u (v0 c) \<Longrightarrow> unat (v0 c) \<notin> fat_heads u"
  shows "entry_result v0 k c ret u (scan_entry c (v0 c) ret u)"
proof -
  have nb: "v0 c \<noteq> CLUST_BAD" using e(2) by auto
  obtain t where t: "scan_truncate c ret u = Some (ret OR FSFATMOD, t)" "scan_ok t" "valid_cl t = valid_cl u"
    "boot t = boot u" "fsck.more t = fsck.more u" "fat_heads t = fat_heads u"
    "\<And>d. valid_cl u d \<Longrightarrow> fat_view t d = (if d = c then CLUST_EOF else fat_view u d)"
    using scan_truncate_ok [OF ok c(1), of ret] by blast
  have "bitmap_get (headbitmap (fat u)) (v0 c) = Some False" if "valid_cl u (v0 c)"
    using bitmap_get_heads [OF scan_ok_cap [OF ok that]] e(3) that by simp
  then have "scan_entry c (v0 c) ret u = Some (ret OR FSFATMOD, t)"
    using t(1) e nb by (simp add: scan_entry_def fat_is_cl_head_def)
  moreover have wc: "fat_view t c = CLUST_EOF" using t(7) [OF c(1)] by simp
  moreover have "scanned (valid_cl u) v0 (Suc k) (fat_view t) (fat_heads t)"
    using e v0 EOF_not_valid by (intro scanned_Suc [OF S c]) (auto simp: t(6,7) wc)
  moreover have "fat_view t c \<noteq> v0 c" using wc e(2) by auto
  moreover have "scan_moves (v0 c) u t" using t(3-5) e nb by (simp add: scan_moves_def)
  ultimately show ?thesis using t(2,7) by (simp add: entry_result_def)
qed

lemma scan_entry_link:
  assumes ok: "scan_ok u" and c: "valid_cl u c" "unat c = k"
    and S: "scanned (valid_cl u) v0 k (fat_view u) (fat_heads u)" and v0: "fat_view u c = v0 c"
    and e: "valid_cl u (v0 c)" "unat (v0 c) \<in> fat_heads u"
  shows "entry_result v0 k c ret u (scan_entry c (v0 c) ret u)"
proof -
  have inv: "table_inv u" using ok by (simp add: scan_ok_def)
  note R = valid_below_reserved [OF inv e(1)]
  obtain lb where lb: "bitmap_clear (headbitmap (fat u)) (v0 c) = Some lb"
    "heads lb = fat_heads u - {unat (v0 c)}" "bm_cap lb = bm_cap (headbitmap (fat u))"
    using bitmap_clear_heads [OF e(2)] by metis
  let ?t = "u\<lparr>fat := (fat u)\<lparr>headbitmap := lb\<rparr>\<rparr>"
  have same: "same_table u ?t" by simp
  have g: "bitmap_get (headbitmap (fat u)) (v0 c) = Some True"
    using bitmap_get_heads [OF scan_ok_cap [OF ok e(1)]] e(2) by simp
  have "scan_entry c (v0 c) ret u = Some (ret, ?t)"
    using g lb(1) e(1) R by (simp add: scan_entry_def fat_is_cl_head_def fat_clear_cl_head_def)
  moreover have "scanned (valid_cl u) v0 (Suc k) (fat_view u) (heads lb)"
    using e v0 R by (intro scanned_Suc [OF S c]) (auto simp: lb(2) dest: unsigned_word_eqI)
  moreover have "scan_ok ?t" using scan_ok_bitmap [OF ok lb(3), of "boot u"] by simp
  moreover have "scan_moves (v0 c) u ?t"
    using same_table_simps(1) [OF same] R by (simp add: scan_moves_def)
  ultimately show ?thesis using v0 same_table_simps(2) [OF same] by (simp add: entry_result_def)
qed

lemma scan_entry_ok:
  assumes ok: "scan_ok u" and c: "valid_cl u c" "unat c = k"
    and S: "scanned (valid_cl u) v0 k (fat_view u) (fat_heads u)" and v0: "fat_view u c = v0 c"
  shows "entry_result v0 k c ret u (scan_entry c (v0 c) ret u)"
proof -
  have inv: "table_inv u" using ok by (simp add: scan_ok_def)
  consider (unused) "v0 c = CLUST_FREE \<or> v0 c = CLUST_BAD"
    | (cut) "v0 c \<noteq> CLUST_FREE" "v0 c < CLUST_RSRVD" "valid_cl u (v0 c) \<Longrightarrow> unat (v0 c) \<notin> fat_heads u"
    | (link) "valid_cl u (v0 c)" "unat (v0 c) \<in> fat_heads u"
    | (last) "v0 c \<noteq> CLUST_FREE" "v0 c \<noteq> CLUST_BAD" "\<not> valid_cl u (v0 c)" "\<not> v0 c < CLUST_RSRVD"
    using valid_below_reserved [OF inv] by metis
  then show ?thesis
  proof cases
    case unused
    then show ?thesis by (rule scan_entry_unused [OF assms])
  next
    case cut
    then show ?thesis by (intro scan_entry_cut [OF assms])
  next
    case link
    then show ?thesis by (rule scan_entry_link [OF assms])
  next
    case last
    have "scan_entry c (v0 c) ret u = Some (ret, u)" using last by (simp add: scan_entry_def)
    moreover have "scanned (valid_cl u) v0 (Suc k) (fat_view u) (fat_heads u)"
      using last v0 by (intro scanned_Suc [OF S c]) auto
    moreover have "scan_moves (v0 c) u u" using last by (simp add: scan_moves_def)
    ultimately show ?thesis using ok v0 by (simp add: entry_result_def)
  qed
qed

lemma scan_step_ok:
  assumes ok: "scan_ok s" and c: "valid_cl s c" "unat c = k"
    and S: "scanned (valid_cl s) v0 k (fat_view s) (fat_heads s)"
  shows "entry_result v0 k c ret s (scan_step c ret s)"
proof -
  have inv: "table_inv s" using ok by (simp add: scan_ok_def)
  have v0: "fat_view s c = v0 c" using scannedD(1) [OF S c(1)] c(2) by simp
  obtain u where u: "fat_get_cl_next c s = Some (v0 c, u)" "table_inv u" "tbl_frame s u" "fat_view u = fat_view s"
    using fat_get_law [OF inv c(1)] v0 by auto
  note f = frame_simps [OF u(3)] and vu = tbl.frame_usable [OF u(3)]
  have "entry_result v0 k c ret u (scan_entry c (v0 c) ret u)"
    using c S v0 vu u(4) f by (intro scan_entry_ok scan_ok_frame [OF ok u(3,2)]) simp_all
  then show ?thesis using u(1,4) vu f by (simp add: scan_step_def entry_result_def scan_moves_def)
qed


section \<open>The whole scan\<close>

lemma readfat_scan_ok:
  assumes "scan_ok s" "scanned (valid_cl s) v0 k (fat_view s) (fat_heads s)"
    and "2 \<le> k" "k \<le> unat (NumClusters (boot s))"
  shows "\<exists>r t. readfat_scan (map of_nat [k..<unat (NumClusters (boot s))]) ret s = Some (r, t) \<and>
    scan_ok t \<and> valid_cl t = valid_cl s \<and> fsck.more t = fsck.more s \<and>
    scanned (valid_cl s) v0 (unat (NumClusters (boot s))) (fat_view t) (fat_heads t) \<and>
    (\<forall>d. valid_cl s d \<and> unat d < k \<longrightarrow> fat_view t d = fat_view s d) \<and>
    NumFree (boot t) = NumFree (boot s) +
      of_nat (length (filter (\<lambda>c. v0 c = CLUST_FREE) (map of_nat [k..<unat (NumClusters (boot s))]))) \<and>
    NumBad (boot t) = NumBad (boot s) +
      of_nat (length (filter (\<lambda>c. v0 c = CLUST_BAD) (map of_nat [k..<unat (NumClusters (boot s))]))) \<and>
    r = (if \<forall>c\<in>set (map of_nat [k..<unat (NumClusters (boot s))]). fat_view t c = v0 c
         then ret else ret OR FSFATMOD)"
  using assms
proof (induction "unat (NumClusters (boot s)) - k" arbitrary: k s ret)
  case 0
  then show ?case by simp
next
  case (Suc m)
  let ?n = "unat (NumClusters (boot s))" and ?c = "of_nat k :: cl_t"
  have kn: "k < ?n" using Suc.hyps(2) by linarith
  have "?n < 2 ^ LENGTH(32)" by (rule unsigned_less)
  then have uc: "unat ?c = k" using kn by (simp add: unsigned_of_nat take_bit_nat_eq_self)
  have vc: "valid_cl s ?c" using kn Suc.prems(3) uc by (simp add: valid_cl_def word_le_nat_alt word_less_nat_alt)
  obtain r t where t: "scan_step ?c ret s = Some (r, t)" "scan_ok t" "scan_moves (v0 ?c) s t"
    "scanned (valid_cl s) v0 (Suc k) (fat_view t) (fat_heads t)"
    "\<And>d. valid_cl s d \<Longrightarrow> d \<noteq> ?c \<Longrightarrow> fat_view t d = fat_view s d"
    "r = (if fat_view t ?c = v0 ?c then ret else ret OR FSFATMOD)"
    using scan_step_ok [OF Suc.prems(1) vc uc Suc.prems(2), of ret] unfolding entry_result_def by blast
  have m: "valid_cl t = valid_cl s" "NumClusters (boot t) = NumClusters (boot s)" "fsck.more t = fsck.more s"
    "NumFree (boot t) = NumFree (boot s) + (if v0 ?c = CLUST_FREE then 1 else 0)"
    "NumBad (boot t) = NumBad (boot s) + (if v0 ?c = CLUST_BAD then 1 else 0)"
    using t(3) by (simp_all add: scan_moves_def)
  have h: "m = unat (NumClusters (boot t)) - Suc k" "scanned (valid_cl t) v0 (Suc k) (fat_view t) (fat_heads t)"
    "2 \<le> Suc k" "Suc k \<le> unat (NumClusters (boot t))"
    using Suc.hyps(2) Suc.prems(3) kn t(4) m(1,2) by simp_all
  obtain r' u where
    u: "readfat_scan (map of_nat [Suc k..<?n]) r t = Some (r', u)" "scan_ok u" "valid_cl u = valid_cl s"
    "fsck.more u = fsck.more t"
    "scanned (valid_cl s) v0 ?n (fat_view u) (fat_heads u)"
    "\<And>d. valid_cl s d \<Longrightarrow> unat d < Suc k \<Longrightarrow> fat_view u d = fat_view t d"
    "NumFree (boot u) = NumFree (boot t) + of_nat (length (filter (\<lambda>c. v0 c = CLUST_FREE) (map of_nat [Suc k..<?n])))"
    "NumBad (boot u) = NumBad (boot t) + of_nat (length (filter (\<lambda>c. v0 c = CLUST_BAD) (map of_nat [Suc k..<?n])))"
    "r' = (if \<forall>c\<in>set (map of_nat [Suc k..<?n]). fat_view u c = v0 c then r else r OR FSFATMOD)"
    using Suc.hyps(1) [OF h(1) t(2) h(2-4), of r] unfolding m(1,2) by blast
  have split: "map of_nat [k..<?n] = ?c # map of_nat [Suc k..<?n]" using kn by (simp add: upt_conv_Cons)
  have uk: "fat_view u ?c = fat_view t ?c" using u(6) [OF vc] uc by simp
  have "fat_view u d = fat_view s d" if "valid_cl s d" "unat d < k" for d
    using u(6) [OF that(1)] t(5) [OF that(1)] that(2) uc by fastforce
  moreover have "r' = (if \<forall>c\<in>set (?c # map of_nat [Suc k..<?n]). fat_view u c = v0 c then ret else ret OR FSFATMOD)"
    unfolding u(9) t(6) using uk by (simp add: or.assoc)
  ultimately show ?case
    unfolding split using t(1) u(1-5,7,8) m(3-5) by (intro exI [of _ r'] exI [of _ u]) simp
qed

text \<open>The invariant at the end of the loop, read as facts about all valid clusters.\<close>

lemma scanned_all:
  assumes "scanned (valid_cl s) v0 (unat (NumClusters (boot s))) w H"
  shows "\<And>c. valid_cl s c \<Longrightarrow> w c = v0 c \<or> w c = CLUST_EOF \<and> v0 c \<noteq> CLUST_FREE \<and> v0 c < CLUST_RSRVD"
    and "\<And>c. valid_cl s c \<Longrightarrow> valid_cl s (w c) \<or> w c = CLUST_FREE \<or> w c \<ge> CLUST_RSRVD"
    and "\<And>c d. valid_cl s c \<Longrightarrow> valid_cl s d \<Longrightarrow> w c = w d \<Longrightarrow> valid_cl s (w c) \<Longrightarrow> c = d"
    and "\<And>x. valid_cl s x \<Longrightarrow> unat x \<in> H \<longleftrightarrow>
      (\<forall>c. valid_cl s c \<longrightarrow> w c \<noteq> x) \<and> w x \<noteq> CLUST_FREE \<and> w x \<noteq> CLUST_BAD"
proof -
  have lt: "unat c < unat (NumClusters (boot s))" if "valid_cl s c" for c
    using that by (simp add: valid_cl_def word_less_nat_alt)
  note D = scannedD [OF assms]
  show "w c = v0 c \<or> w c = CLUST_EOF \<and> v0 c \<noteq> CLUST_FREE \<and> v0 c < CLUST_RSRVD" if "valid_cl s c" for c
    by (rule D(2) [OF that lt [OF that]])
  show "valid_cl s (w c) \<or> w c = CLUST_FREE \<or> w c \<ge> CLUST_RSRVD" if "valid_cl s c" for c
    by (rule D(3) [OF that lt [OF that]])
  show "c = d" if "valid_cl s c" "valid_cl s d" "w c = w d" "valid_cl s (w c)" for c d
    by (rule D(4) [OF that(1,2) lt lt that(3,4)]) (rule that)+
  show "unat x \<in> H \<longleftrightarrow> (\<forall>c. valid_cl s c \<longrightarrow> w c \<noteq> x) \<and> w x \<noteq> CLUST_FREE \<and> w x \<noteq> CLUST_BAD"
    if "valid_cl s x" for x
    using D(5) [OF that] lt that by blast
qed

lemma clusters_set: "set (clusters (boot s)) = {c. valid_cl s c}"
proof (rule set_eqI)
  fix c :: cl_t
  have "c \<in> of_nat ` {2..<unat (NumClusters (boot s))} \<longleftrightarrow> unat c \<in> {2..<unat (NumClusters (boot s))}"
  proof
    assume "c \<in> of_nat ` {2..<unat (NumClusters (boot s))}"
    then obtain k where k: "c = of_nat k" "k \<in> {2..<unat (NumClusters (boot s))}" by blast
    moreover have "k < 2 ^ LENGTH(32)"
      using k(2) unsigned_less [of "NumClusters (boot s)"] less_trans by fastforce
    ultimately show "unat c \<in> {2..<unat (NumClusters (boot s))}"
      by (simp add: unsigned_of_nat take_bit_nat_eq_self)
  next
    assume "unat c \<in> {2..<unat (NumClusters (boot s))}"
    then show "c \<in> of_nat ` {2..<unat (NumClusters (boot s))}" by (intro image_eqI [of _ _ "unat c"]) simp_all
  qed
  then show "c \<in> set (clusters (boot s)) \<longleftrightarrow> c \<in> {c. valid_cl s c}"
    by (simp add: clusters_def valid_cl_def word_le_nat_alt word_less_nat_alt)
qed

lemma readfat_scan_all:
  assumes ok: "scan_ok s" and all: "\<forall>c. valid_cl s c \<longrightarrow> unat c \<in> fat_heads s"
  shows "\<exists>r t. readfat_scan (clusters (boot s)) ret s = Some (r, t) \<and> scan_ok t \<and> valid_cl t = valid_cl s \<and>
    scanned (valid_cl s) (fat_view s) (unat (NumClusters (boot s))) (fat_view t) (fat_heads t) \<and>
    NumFree (boot t) = NumFree (boot s) +
      of_nat (length (filter (\<lambda>c. fat_view s c = CLUST_FREE) (clusters (boot s)))) \<and>
    r = (if \<forall>c. valid_cl s c \<longrightarrow> fat_view t c = fat_view s c then ret else ret OR FSFATMOD)"
proof (cases "2 \<le> unat (NumClusters (boot s))")
  case True
  have "scanned (valid_cl s) (fat_view s) 2 (fat_view s) (fat_heads s)"
    using all by (auto simp: scanned_def valid_cl_def word_le_nat_alt)
  from readfat_scan_ok [OF ok this order_refl True, of ret] obtain r t where
    t: "readfat_scan (clusters (boot s)) ret s = Some (r, t)" "scan_ok t" "valid_cl t = valid_cl s"
    "scanned (valid_cl s) (fat_view s) (unat (NumClusters (boot s))) (fat_view t) (fat_heads t)"
    "NumFree (boot t) = NumFree (boot s) + of_nat (length (filter (\<lambda>c. fat_view s c = CLUST_FREE) (clusters (boot s))))"
    "r = (if \<forall>c\<in>set (clusters (boot s)). fat_view t c = fat_view s c then ret else ret OR FSFATMOD)"
    unfolding clusters_def [symmetric] by blast
  moreover have "(\<forall>c\<in>set (clusters (boot s)). fat_view t c = fat_view s c) =
      (\<forall>c. valid_cl s c \<longrightarrow> fat_view t c = fat_view s c)"
    unfolding clusters_set by blast
  ultimately show ?thesis by auto
next
  case False
  then have none: "\<not> valid_cl s c" for c
    by (auto simp: valid_cl_def word_le_nat_alt word_less_nat_alt)
  then have "scanned (valid_cl s) (fat_view s) (unat (NumClusters (boot s))) (fat_view s) (fat_heads s)"
    by (simp add: scanned_def)
  with False ok none show ?thesis by (simp add: clusters_def)
qed

text \<open>
  C2: the scan of \<^verbatim>\<open>readfat()\<close>, with repairs accepted, always ends, and leaves a table in which
  entries have changed only by being cut to an end mark, every entry is free, reserved, an end mark
  or a valid cluster, and no cluster has two predecessors. The head bitmap then holds exactly the
  clusters in use that have no predecessor, the free count is the number of free entries, and
  \<^verbatim>\<open>FSFATMOD\<close> is reported exactly when an entry was changed.
\<close>

theorem scan_finds_heads:
  assumes "scan_ok s" and "\<forall>c. valid_cl s c \<longrightarrow> unat c \<in> fat_heads s"
  shows "\<exists>r t. readfat_scan (clusters (boot s)) ret s = Some (r, t) \<and>
    (\<forall>c. valid_cl s c \<longrightarrow> fat_view t c = fat_view s c \<or> fat_view t c = CLUST_EOF) \<and>
    (\<forall>c. valid_cl s c \<longrightarrow> valid_cl s (fat_view t c) \<or> fat_view t c = CLUST_FREE \<or> fat_view t c \<ge> CLUST_RSRVD) \<and>
    (\<forall>c d. valid_cl s c \<and> valid_cl s d \<and> fat_view t c = fat_view t d \<and> valid_cl s (fat_view t c) \<longrightarrow> c = d) \<and>
    (\<forall>x. valid_cl s x \<longrightarrow> (unat x \<in> fat_heads t \<longleftrightarrow> (\<forall>c. valid_cl s c \<longrightarrow> fat_view t c \<noteq> x) \<and>
       fat_view t x \<noteq> CLUST_FREE \<and> fat_view t x \<noteq> CLUST_BAD)) \<and>
    NumFree (boot t) = NumFree (boot s) +
      of_nat (length (filter (\<lambda>c. fat_view s c = CLUST_FREE) (clusters (boot s)))) \<and>
    r = (if \<forall>c. valid_cl s c \<longrightarrow> fat_view t c = fat_view s c then ret else ret OR FSFATMOD)"
proof -
  obtain r t where t: "readfat_scan (clusters (boot s)) ret s = Some (r, t)"
    "scanned (valid_cl s) (fat_view s) (unat (NumClusters (boot s))) (fat_view t) (fat_heads t)"
    "NumFree (boot t) = NumFree (boot s) + of_nat (length (filter (\<lambda>c. fat_view s c = CLUST_FREE) (clusters (boot s))))"
    "r = (if \<forall>c. valid_cl s c \<longrightarrow> fat_view t c = fat_view s c then ret else ret OR FSFATMOD)"
    using readfat_scan_all [OF assms, of ret] by blast
  show ?thesis
    using t(1,3,4) scanned_all [OF t(2)] by (intro exI [of _ r] exI [of _ t]) blast
qed

lemma sample_scan_ok: "scan_ok (sample_fsck (-1))" "valid_cl (sample_fsck (-1)) c \<Longrightarrow> unat c \<in> fat_heads (sample_fsck (-1))"
  by (auto simp: scan_ok_def sample_inv sample_opts sample_heads sample_valid)
    (simp add: bm_cap_def sample_simps)

lemma sample_scan_head:
  assumes "\<And>c. valid_cl (sample_fsck (-1)) c \<Longrightarrow>
      w c = fat_view (sample_fsck (-1)) c \<or> w c = CLUST_EOF"
    and "\<And>x. valid_cl (sample_fsck (-1)) x \<Longrightarrow> unat x \<in> H \<longleftrightarrow>
       (\<forall>c. valid_cl (sample_fsck (-1)) c \<longrightarrow> w c \<noteq> x) \<and> w x \<noteq> CLUST_FREE \<and> w x \<noteq> CLUST_BAD"
  shows "2 \<in> H"
proof -
  have "w 2 = 3 \<or> w 2 = CLUST_EOF" "w 3 = CLUST_EOF" "w 4 = 0 \<or> w 4 = CLUST_EOF" "w 5 = 5 \<or> w 5 = CLUST_EOF"
    using assms(1) [of 2] assms(1) [of 3] assms(1) [of 4] assms(1) [of 5] by (auto simp: sample_valid sample_view)
  then show ?thesis using assms(2) [of 2] by (auto simp: sample_valid)
qed

theorem scan_finds_heads_witness:
  "\<exists>r t. readfat_scan (clusters (boot (sample_fsck (-1)))) FSOK (sample_fsck (-1)) = Some (r, t) \<and>
     2 \<in> fat_heads t"
proof -
  have all: "\<forall>c. valid_cl (sample_fsck (-1)) c \<longrightarrow> unat c \<in> fat_heads (sample_fsck (-1))"
    using sample_scan_ok(2) by blast
  obtain r t where t: "readfat_scan (clusters (boot (sample_fsck (-1)))) FSOK (sample_fsck (-1)) = Some (r, t)"
    "\<And>c. valid_cl (sample_fsck (-1)) c \<Longrightarrow> fat_view t c = fat_view (sample_fsck (-1)) c \<or> fat_view t c = CLUST_EOF"
    "\<And>x. valid_cl (sample_fsck (-1)) x \<Longrightarrow> unat x \<in> fat_heads t \<longleftrightarrow>
       (\<forall>c. valid_cl (sample_fsck (-1)) c \<longrightarrow> fat_view t c \<noteq> x) \<and>
       fat_view t x \<noteq> CLUST_FREE \<and> fat_view t x \<noteq> CLUST_BAD"
    using scan_finds_heads [OF sample_scan_ok(1) all, of FSOK] by blast
  have "2 \<in> fat_heads t" by (rule sample_scan_head [of "fat_view t"]) (fact t)+
  with t(1) show ?thesis by blast
qed

text \<open>
  C13: after the scan of a writable volume with all repairs accepted, \<^verbatim>\<open>checkchain()\<close> returns on every valid cluster that is
  still a head, with \<^verbatim>\<open>FSOK\<close> or \<^verbatim>\<open>FSFATMOD\<close>: no chain that a directory entry or the search for lost
  chains can start from runs into a cycle, because the scan has cut every second link to a cluster.
\<close>

theorem scan_breaks_cycles:
  assumes "scan_ok s" and "\<forall>c. valid_cl s c \<longrightarrow> unat c \<in> fat_heads s"
  shows "\<exists>r t. readfat_scan (clusters (boot s)) ret s = Some (r, t) \<and>
    (\<forall>h. valid_cl t h \<and> unat h \<in> fat_heads t \<longrightarrow>
      (\<exists>q n u. checkchain h t = Some ((q, n), u) \<and> q \<in> {FSOK, FSFATMOD}))"
proof -
  obtain r t where t: "readfat_scan (clusters (boot s)) ret s = Some (r, t)" "scan_ok t" "valid_cl t = valid_cl s"
    "scanned (valid_cl s) (fat_view s) (unat (NumClusters (boot s))) (fat_view t) (fat_heads t)"
    using readfat_scan_all [OF assms, of ret] by blast
  note A = scanned_all [OF t(4)]
  have "\<exists>q n u. checkchain h t = Some ((q, n), u) \<and> q \<in> {FSOK, FSFATMOD}"
    if h: "valid_cl t h" "unat h \<in> fat_heads t" for h
  proof -
    have vh: "valid_cl s h" using h(1) t(3) by simp
    have nopred: "fat_view t x \<noteq> h" if "valid_cl s x" for x using A(4) [OF vh] h(2) that by blast
    obtain ds e where "chain (fat_view t) (valid_cl s) h (h # ds) e"
      using head_chain_exists [of "valid_cl s" "fat_view t" h] A(3) nopred vh by blast
    then have "chain (fat_view t) (valid_cl t) h (h # ds) e" using t(3) by simp
    with t(2) h(2) show ?thesis by (intro checkchain_returns) (auto simp: scan_ok_def)
  qed
  with t(1) show ?thesis by blast
qed

theorem scan_breaks_cycles_witness:
  "\<exists>r t. readfat_scan (clusters (boot (sample_fsck (-1)))) FSOK (sample_fsck (-1)) = Some (r, t) \<and>
     (\<exists>q n u. checkchain 2 t = Some ((q, n), u))"
proof -
  have all: "\<forall>c. valid_cl (sample_fsck (-1)) c \<longrightarrow> unat c \<in> fat_heads (sample_fsck (-1))"
    using sample_scan_ok(2) by blast
  obtain r t where t: "readfat_scan (clusters (boot (sample_fsck (-1)))) FSOK (sample_fsck (-1)) = Some (r, t)"
    "\<forall>h. valid_cl t h \<and> unat h \<in> fat_heads t \<longrightarrow> (\<exists>q n u. checkchain h t = Some ((q, n), u) \<and> q \<in> {FSOK, FSFATMOD})"
    using scan_breaks_cycles [OF sample_scan_ok(1) all, of FSOK] by blast
  obtain r' t' where u': "readfat_scan (clusters (boot (sample_fsck (-1)))) FSOK (sample_fsck (-1)) = Some (r', t')"
    "valid_cl t' = valid_cl (sample_fsck (-1))" "scanned (valid_cl (sample_fsck (-1))) (fat_view (sample_fsck (-1)))
      (unat (NumClusters (boot (sample_fsck (-1))))) (fat_view t') (fat_heads t')"
    using readfat_scan_all [OF sample_scan_ok(1) all, of FSOK] by blast
  have "t' = t" using t(1) u'(1) by simp
  note u = u'(2,3) [unfolded this]
  have "2 \<in> fat_heads t"
    by (rule sample_scan_head [of "fat_view t"]) (use scanned_all(1) [OF u(2)] scanned_all(4) [OF u(2)] in blast)+
  then have "valid_cl t 2 \<and> unat (2 :: cl_t) \<in> fat_heads t" using u(1) by (simp add: sample_valid)
  with t show ?thesis by blast
qed

end
