(* ===== verification/Fsck_Dir.thy ===== *)
theory Fsck_Dir
  imports Fsck_Scan
begin

text \<open>
  The parts of dir.c below the directory scan: the tree of directory entries and the stack of
  unread directories, deletion of directory slots on disk and in the buffer, and the checks of a
  single entry (\<open>checksize\<close>, \<open>check_subdirectory\<close>).

  The state \<open>dirs\<close> extends the checker's state by the file-scope variables of dir.c. A
  \<^verbatim>\<open>struct dosDirEntry *\<close> is an index into \<open>deheap\<close>, \<open>None\<close> the null pointer; the recycled entries
  are linked through their \<open>de_next\<close> field from \<open>freede\<close> as in the code. A \<^verbatim>\<open>dirTodoNode\<close> carries
  nothing but a directory, so the stack is a list of directories and the recycled nodes are a
  number. A heap buffer behind a file-scope pointer is \<open>Null\<close>, \<open>Live\<close> or already \<open>Freed\<close>: using a
  buffer that is not live, or freeing one twice, has no value. \<^verbatim>\<open>DIREMPTY\<close> and \<^verbatim>\<open>DIREMPWARN\<close> are the
  bits 1 and 2 of \<open>de_fsckflags\<close>.
\<close>

record dosDirEntry =
  de_parent :: "nat option"
  de_next :: "nat option"
  de_child :: "nat option"
  de_name :: "byte list"
  de_lname :: "byte list"
  de_flags :: byte
  de_head :: cl_t
  de_size :: u32
  de_fsckflags :: u32

datatype ptr = Null | Freed | Live buf

record dirs = fsck +
  longName :: "byte list"
  buffer :: ptr
  delbuf :: ptr
  deheap :: "dosDirEntry list"
  freede :: "nat option"
  freedt :: nat
  pendingDirectories :: "nat list"
  rootDir :: "nat option"
  lostDir :: "nat option"
  lfbuf :: ptr
  lfcl :: cl_t
  lfoff :: nat

abbreviation (input) SLOT_EMPTY :: byte where "SLOT_EMPTY \<equiv> 0x00"
abbreviation (input) SLOT_E5 :: byte where "SLOT_E5 \<equiv> 0x05"
abbreviation (input) SLOT_DELETED :: byte where "SLOT_DELETED \<equiv> 0xe5"
abbreviation (input) ATTR_VOLUME :: byte where "ATTR_VOLUME \<equiv> 0x08"
abbreviation (input) ATTR_DIRECTORY :: byte where "ATTR_DIRECTORY \<equiv> 0x10"
abbreviation (input) ATTR_WIN95 :: byte where "ATTR_WIN95 \<equiv> 0x0f"
abbreviation (input) LRFIRST :: byte where "LRFIRST \<equiv> 0x40"
abbreviation (input) LRNOMASK :: byte where "LRNOMASK \<equiv> 0x1f"
abbreviation (input) DOSLONGNAMELEN :: nat where "DOSLONGNAMELEN \<equiv> 256"
abbreviation (input) DIREMPTY :: u32 where "DIREMPTY \<equiv> 1"
abbreviation (input) DIREMPWARN :: u32 where "DIREMPWARN \<equiv> 2"

definition live :: "ptr \<Rightarrow> buf option" where
  "live p = (case p of Live b \<Rightarrow> Some b | _ \<Rightarrow> None)"

definition free_ptr :: "ptr \<Rightarrow> ptr option" where
  "free_ptr p = (case p of Null \<Rightarrow> Some Null | Freed \<Rightarrow> None | Live _ \<Rightarrow> Some Freed)"

section \<open>Directory entries in memory\<close>

definition zero_de :: dosDirEntry where
  "zero_de = \<lparr>de_parent = None, de_next = None, de_child = None, de_name = replicate 13 0,
     de_lname = replicate DOSLONGNAMELEN 0, de_flags = 0, de_head = 0, de_size = 0, de_fsckflags = 0\<rparr>"

definition get_de :: "nat \<Rightarrow> dirs \<Rightarrow> dosDirEntry option" where
  "get_de d s = (if d < length (deheap s) then Some (deheap s ! d) else None)"

definition upd_de :: "nat \<Rightarrow> (dosDirEntry \<Rightarrow> dosDirEntry) \<Rightarrow> dirs \<Rightarrow> dirs option" where
  "upd_de d f s = (if d < length (deheap s) then Some (s\<lparr>deheap := (deheap s)[d := f (deheap s ! d)]\<rparr>)
                   else None)"

text \<open>The callers of \<open>newDosDirEntry\<close> overwrite the whole entry at once.\<close>

definition newDosDirEntry :: "dirs \<Rightarrow> (nat option \<times> dirs) option" where
  "newDosDirEntry s =
    (case freede s of
       None \<Rightarrow> (case malloc 1 s of
           (None, s) \<Rightarrow> Some (None, s)
         | (Some _, s) \<Rightarrow> Some (Some (length (deheap s)), s\<lparr>deheap := deheap s @ [zero_de]\<rparr>))
     | Some d \<Rightarrow> do { e \<leftarrow> get_de d s; Some (Some d, s\<lparr>freede := de_next e\<rparr>) })"

definition freeDosDirEntry :: "nat \<Rightarrow> dirs \<Rightarrow> dirs option" where
  "freeDosDirEntry d s = do {
     s \<leftarrow> upd_de d (\<lambda>e. e\<lparr>de_next := freede s\<rparr>) s;
     Some (s\<lparr>freede := Some d\<rparr>) }"

definition newDirTodo :: "dirs \<Rightarrow> bool \<times> dirs" where
  "newDirTodo s =
    (if freedt s = 0 then (case malloc 1 s of (b, s) \<Rightarrow> (b \<noteq> None, s))
     else (True, s\<lparr>freedt := freedt s - 1\<rparr>))"

definition freeDirTodo :: "dirs \<Rightarrow> dirs" where
  "freeDirTodo s = s\<lparr>freedt := freedt s + 1\<rparr>"

text \<open>The C string at the start of an array; without a terminator in the array it has no value.\<close>

definition cstr :: "byte list \<Rightarrow> byte list option" where
  "cstr a = (if 0 \<in> set a then Some (takeWhile (\<lambda>b. b \<noteq> 0) a) else None)"

text \<open>
  \<open>fullpath\<close>: the path is built from the right end of a static array of \<open>maxpath + 1\<close> bytes
  (\<^verbatim>\<open>MAXPATHLEN\<close> of the platform); \<open>acc\<close> is what stands between \<^verbatim>\<open>cp\<close> and the terminator.
\<close>

partial_function (option) fullpath_loop :: "nat \<Rightarrow> nat \<Rightarrow> byte list \<Rightarrow> dirs \<Rightarrow> byte list option" where
  "fullpath_loop maxpath d acc s = do {
     e \<leftarrow> get_de d s;
     np \<leftarrow> cstr (if de_lname e ! 0 \<noteq> 0 then de_lname e else de_name e);
     if maxpath - length acc \<le> 1 + length np then Some (0x3f # acc)
     else case de_parent e of
       None \<Rightarrow> Some (np @ acc)
     | Some q \<Rightarrow> fullpath_loop maxpath q (0x2f # np @ acc) s }"

definition fullpath :: "nat \<Rightarrow> nat \<Rightarrow> dirs \<Rightarrow> byte list option" where
  "fullpath maxpath d s = fullpath_loop maxpath d [] s"

definition calcShortSum :: "(nat \<Rightarrow> byte) \<Rightarrow> byte" where
  "calcShortSum p = fold (\<lambda>i sum. (push_bit 7 sum OR drop_bit 1 sum) + p i) [0..<11] 0"

section \<open>Setting up and tearing down\<close>

definition resetDosDirSection :: "dirs \<Rightarrow> (cint \<times> dirs) option" where
  "resetDosDirSection s =
    (let b = boot s;
         rootdir_size = unat (bpbRootDirEnts b * 32);
         cluster_size = unat (bpbSecPerClust b * bpbBytesPerSec b)
     in case malloc (max rootdir_size cluster_size) s of
       (None, s) \<Rightarrow> Some (FSFATAL, s\<lparr>buffer := Null\<rparr>)
     | (Some bf, s) \<Rightarrow> (let s = s\<lparr>buffer := Live bf\<rparr> in case malloc cluster_size s of
         (None, s) \<Rightarrow> Some (FSFATAL, s\<lparr>delbuf := Null, buffer := Freed\<rparr>)
       | (Some db, s) \<Rightarrow> (let s = s\<lparr>delbuf := Live db\<rparr> in do {
           (rd, s) \<leftarrow> newDosDirEntry s;
           case rd of
             None \<Rightarrow> Some (FSFATAL, s\<lparr>rootDir := None, buffer := Freed, delbuf := Freed\<rparr>)
           | Some r \<Rightarrow> do {
               s \<leftarrow> upd_de r (\<lambda>_. zero_de) (s\<lparr>rootDir := Some r\<rparr>);
               if is_fat32 (boot s) then do {
                 h \<leftarrow> fat_is_cl_head (bpbRootClust (boot s)) s;
                 if \<not> h then Some (FSFATAL, s)
                 else do {
                   s \<leftarrow> upd_de r (\<lambda>e. e\<lparr>de_head := bpbRootClust (boot s)\<rparr>) s;
                   Some (FSOK, s) } }
               else Some (FSOK, s) } })))"

partial_function (option) free_tree :: "nat option \<Rightarrow> dirs \<Rightarrow> (unit \<times> dirs) option" where
  "free_tree dp s =
    (case dp of
       None \<Rightarrow> Some ((), s)
     | Some d \<Rightarrow> do {
         e \<leftarrow> get_de d s;
         case de_child e of
           Some c \<Rightarrow> do {
             s \<leftarrow> upd_de d (\<lambda>e. e\<lparr>de_child := None\<rparr>) s;
             free_tree (Some c) s }
         | None \<Rightarrow> do {
             let nd = (case de_next e of None \<Rightarrow> de_parent e | Some x \<Rightarrow> Some x);
             s \<leftarrow> freeDosDirEntry d s;
             free_tree nd s } })"

definition finishDosDirSection :: "dirs \<Rightarrow> (unit \<times> dirs) option" where
  "finishDosDirSection s = do {
     let s = (freeDirTodo ^^ length (pendingDirectories s)) s;
     let s = s\<lparr>pendingDirectories := []\<rparr>;
     (_, s) \<leftarrow> free_tree (rootDir s) s;
     _ \<leftarrow> free_ptr (buffer s);
     _ \<leftarrow> free_ptr (delbuf s);
     Some ((), s\<lparr>rootDir := None, lostDir := None, buffer := Null, delbuf := Null\<rparr>) }"

section \<open>Deleting slots\<close>

text \<open>\<^verbatim>\<open>for (; s < e; s += 32) *s = SLOT_DELETED\<close> in a buffer.\<close>

definition mark_slots :: "nat \<Rightarrow> nat \<Rightarrow> buf \<Rightarrow> buf option" where
  "mark_slots o1 e b =
    (if o1 < e \<and> blen b \<le> o1 + 32 * ((e - 1 - o1) div 32) then None
     else Some (b\<lparr>bdat := (\<lambda>k. if o1 \<le> k \<and> k < e \<and> (k - o1) mod 32 = 0 then SLOT_DELETED
                              else bdat b k)\<rparr>))"

definition mark_buffer :: "nat \<Rightarrow> nat \<Rightarrow> dirs \<Rightarrow> dirs option" where
  "mark_buffer o1 e s = do {
     b \<leftarrow> live (buffer s);
     b \<leftarrow> mark_slots o1 e b;
     Some (s\<lparr>buffer := Live b\<rparr>) }"

text \<open>The first byte of a cluster; the sector number is computed in 32 bits.\<close>

definition cluster_off :: "bootblock \<Rightarrow> cl_t \<Rightarrow> nat" where
  "cluster_off b cl =
     unat ((cl - CLUST_FIRST) * bpbSecPerClust b + FirstCluster b) * unat (bpbBytesPerSec b)"

partial_function (option) delete_loop ::
  "nat \<Rightarrow> cl_t \<Rightarrow> cl_t \<Rightarrow> nat \<Rightarrow> bool \<Rightarrow> nat \<Rightarrow> dirs \<Rightarrow> (cint \<times> dirs) option" where
  "delete_loop o1 startcl endcl endoff notlast clsz s =
    (if \<not> fat_is_valid_cl s startcl then Some (FSOK, s)
     else if startcl = endcl \<and> notlast then Some (FSOK, s)
     else do {
       let e = (if startcl = endcl then endoff else clsz);
       let off = cluster_off (boot s) startcl;
       db \<leftarrow> live (delbuf s);
       ((ok, db), s) \<leftarrow> seek_read off clsz 0 db s;
       let s = s\<lparr>delbuf := Live db\<rparr>;
       if \<not> ok then Some (FSFATAL, s)
       else do {
         db \<leftarrow> mark_slots o1 e db;
         (ok, s) \<leftarrow> seek_write off clsz 0 db (s\<lparr>delbuf := Live db\<rparr>);
         if \<not> ok then Some (FSFATAL, s)
         else if startcl = endcl then Some (FSOK, s)
         else do {
           (nxt, s) \<leftarrow> fat_get_cl_next startcl s;
           delete_loop 0 nxt endcl endoff notlast clsz s } } })"

definition delete :: "cl_t \<Rightarrow> nat \<Rightarrow> cl_t \<Rightarrow> nat \<Rightarrow> bool \<Rightarrow> dirs \<Rightarrow> (cint \<times> dirs) option" where
  "delete startcl startoff endcl endoff notlast s =
     delete_loop startoff startcl endcl endoff notlast
       (unat (bpbSecPerClust (boot s) * bpbBytesPerSec (boot s))) s"

definition removede :: "nat \<Rightarrow> nat \<Rightarrow> cl_t \<Rightarrow> cl_t \<Rightarrow> cl_t \<Rightarrow> dirs \<Rightarrow> (cint \<times> dirs) option" where
  "removede start end1 startcl endcl curcl s =
    (case ask False s of (yes, s) \<Rightarrow>
       if \<not> yes then Some (FSERROR, s)
       else do {
         (r, start, s) \<leftarrow>
           (if startcl \<noteq> curcl then do {
              (r, s) \<leftarrow> delete startcl start endcl end1 (endcl = curcl) s;
              Some (r, 0, s) }
            else Some (FSOK, start, s));
         if r = FSFATAL then Some (FSFATAL, s)
         else do {
           s \<leftarrow> (if endcl = curcl \<or> startcl < CLUST_FIRST then mark_buffer start end1 s else Some s);
           Some (FSDIRMOD, s) } })"

section \<open>Checking one entry\<close>

text \<open>Stores into the slot at offset \<open>p\<close> of \<open>buffer\<close>.\<close>

primrec pokes :: "(nat \<times> byte) list \<Rightarrow> nat \<Rightarrow> dirs \<Rightarrow> dirs option" where
  "pokes [] p s = Some s"
| "pokes (kv # kvs) p s = do {
     b \<leftarrow> live (buffer s);
     b \<leftarrow> st (p + fst kv) (snd kv) b;
     pokes kvs p (s\<lparr>buffer := Live b\<rparr>) }"

definition poke_size :: "u32 \<Rightarrow> (nat \<times> byte) list" where
  "poke_size v = [(28, ucast v), (29, ucast (drop_bit 8 v)), (30, ucast (drop_bit 16 v)), (31, ucast (drop_bit 24 v))]"

definition poke_head :: "bootblock \<Rightarrow> cl_t \<Rightarrow> (nat \<times> byte) list" where
  "poke_head b v = [(26, ucast v), (27, ucast (drop_bit 8 v))] @
     (if ClustMask b = CLUST32_MASK then [(20, ucast (drop_bit 16 v)), (21, ucast (drop_bit 24 v))] else [])"

text \<open>
  The loop of \<open>checksize\<close> that looks for the last cluster to keep: \<^verbatim>\<open>sz\<close> is a 32-bit sum.
\<close>

partial_function (option) drop_walk :: "cl_t \<Rightarrow> u32 \<Rightarrow> u32 \<Rightarrow> 'a fsck_scheme \<Rightarrow> (cl_t \<times> 'a fsck_scheme) option"
where
  "drop_walk cl sz filesize s =
    (let sz = sz + ClusterSize (boot s)
     in if sz < filesize then do {
          (cl, s) \<leftarrow> fat_get_cl_next cl s;
          drop_walk cl sz filesize s }
        else Some (cl, s))"

definition drop_superfluous :: "cl_t \<Rightarrow> u32 \<Rightarrow> 'a fsck_scheme \<Rightarrow> (cint \<times> 'a fsck_scheme) option" where
  "drop_superfluous hd1 filesize s = do {
     (cl, s) \<leftarrow> drop_walk hd1 0 filesize s;
     (nxt, s) \<leftarrow> fat_get_cl_next cl s;
     (_, s) \<leftarrow> clearchain nxt s;
     (r, s) \<leftarrow> fat_set_cl_next cl CLUST_EOF s;
     Some (FSFATMOD OR r, s) }"

definition checksize_size :: "nat \<Rightarrow> dosDirEntry \<Rightarrow> u64 \<Rightarrow> dirs \<Rightarrow> ((cint \<times> dosDirEntry) \<times> dirs) option" where
  "checksize_size p de physicalSize s =
    (if physicalSize < ucast (de_size de) then
       (case ask True s of (yes, s) \<Rightarrow>
          if yes then do {
            s \<leftarrow> pokes (poke_size (ucast physicalSize)) p s;
            Some ((FSDIRMOD, de\<lparr>de_size := ucast physicalSize\<rparr>), s) }
          else Some ((FSERROR, de), s))
     else if physicalSize - ucast (de_size de) \<ge> ucast (ClusterSize (boot s)) then
       (case ask True s of (yes, s) \<Rightarrow>
          if yes then do {
            (r, s) \<leftarrow> drop_superfluous (de_head de) (de_size de) s;
            Some ((r, de), s) }
          else Some ((FSERROR, de), s))
     else Some ((FSOK, de), s))"

definition checksize :: "nat \<Rightarrow> dosDirEntry \<Rightarrow> dirs \<Rightarrow> ((cint \<times> dosDirEntry) \<times> dirs) option" where
  "checksize p de s =
    (if de_head de = CLUST_FREE then checksize_size p de 0 s
     else do {
       ok \<leftarrow> (if fat_is_valid_cl s (de_head de) then fat_is_cl_head (de_head de) s else Some False);
       if \<not> ok then
         (case ask True s of (yes, s) \<Rightarrow>
            if yes then do {
              s \<leftarrow> pokes (poke_size 0 @ poke_head (boot s) 0) p s;
              Some ((FSDIRMOD, de\<lparr>de_size := 0, de_head := CLUST_FREE\<rparr>), s) }
            else Some ((FSERROR, de), s))
       else do {
         ((ret, chainsize), s) \<leftarrow> checkchain (de_head de) s;
         if ret = FSERROR then Some ((FSERROR, de), s)
         else checksize_size p de (chainsize * ucast (ClusterSize (boot s))) s } })"

abbreviation (input) dot_name :: "byte list" where
  "dot_name \<equiv> [0x2e, 0x20, 0x20, 0x20, 0x20, 0x20, 0x20, 0x20, 0x20, 0x20, 0x20]"

abbreviation (input) dotdot_name :: "byte list" where
  "dotdot_name \<equiv> [0x2e, 0x2e, 0x20, 0x20, 0x20, 0x20, 0x20, 0x20, 0x20, 0x20, 0x20]"

definition root_off :: "bootblock \<Rightarrow> nat" where
  "root_off b = unat (bpbResSectors b + bpbFATs b * FATsecs b) * unat (bpbBytesPerSec b)"

definition check_subdirectory :: "dosDirEntry \<Rightarrow> 'a fsck_scheme \<Rightarrow> (cint \<times> 'a fsck_scheme) option" where
  "check_subdirectory de s =
    (let b = boot s; cl = de_head de; n = unat (bpbBytesPerSec b)
     in if de_parent de \<noteq> None \<and> \<not> fat_is_valid_cl s cl then Some (FSERROR, s)
     else
       (let off = (if \<not> is_fat32 b \<and> de_parent de = None then root_off b else cluster_off b cl)
        in case malloc n s of
          (None, s) \<Rightarrow> Some (FSFATAL, s)
        | (Some bf, s) \<Rightarrow> do {
            ((ok, bf), s) \<leftarrow> seek_read off n 0 bf s;
            if \<not> ok then Some (FSFATAL, s)
            else do {
              cp \<leftarrow> first_bytes 64 bf;
              Some ((if mem_eq cp 0 dot_name \<and> cp 11 AND ATTR_DIRECTORY = ATTR_DIRECTORY then 0 else FSERROR)
                    OR (if mem_eq cp 32 dotdot_name \<and> cp 43 AND ATTR_DIRECTORY = ATTR_DIRECTORY then 0
                        else FSERROR), s) } }))"

end
