(* ===== verification/Fsck_ReadDir.thy ===== *)
theory Fsck_ReadDir
  imports Fsck_Dir
begin

text \<open>
  \<open>readDosDirSection\<close> and \<open>handleDirTree\<close> of dir.c. The local variables of the scan are the record
  \<open>scan\<close>; the pointers \<^verbatim>\<open>vallfn\<close>, \<^verbatim>\<open>invlfn\<close> and \<^verbatim>\<open>empty\<close> into the buffer are offsets, \<open>None\<close> the null
  pointer. The body of the loop over the slots is cut at its comments into the pieces below. A piece
  says how control leaves it: \<open>Fall\<close> through to the next piece, \<open>Cont\<close> for \<^verbatim>\<open>continue\<close>, \<open>Ret\<close> for
  \<^verbatim>\<open>return\<close>.
\<close>

record scan =
  cur_cl :: cl_t
  valcl :: cl_t
  invcl :: cl_t
  empcl :: cl_t
  vallfn :: "nat option"
  invlfn :: "nat option"
  empty_p :: "nat option"
  lidx :: u32
  shortSum :: int
  rmod :: cint

datatype flow = Fall | Cont | Ret cint

type_synonym step = "((flow \<times> scan) \<times> dirs) option"

abbreviation (input) THISMOD :: cint where "THISMOD \<equiv> 0x8000"

definition flag :: "cint \<Rightarrow> scan \<Rightarrow> scan" where
  "flag m sc = sc\<lparr>rmod := rmod sc OR m\<rparr>"

definition slot :: "nat \<Rightarrow> dirs \<Rightarrow> (nat \<Rightarrow> byte) option" where
  "slot p s = do {
     b \<leftarrow> live (buffer s);
     if p + 32 \<le> blen b then Some (\<lambda>k. bdat b (p + k)) else None }"

section \<open>Slots after the end of the directory\<close>

definition entry_extend :: "nat \<Rightarrow> nat \<Rightarrow> scan \<Rightarrow> dirs \<Rightarrow> step" where
  "entry_extend d p sc s =
    (case ask True s of (yes, s) \<Rightarrow>
       if yes then do {
         s \<leftarrow> upd_de d (\<lambda>e. e\<lparr>de_fsckflags := de_fsckflags e AND NOT DIREMPTY\<rparr>) s;
         em \<leftarrow> empty_p sc;
         (r, s) \<leftarrow> delete (empcl sc) em (cur_cl sc) p True s;
         if r = FSFATAL then Some ((Ret FSFATAL, sc), s)
         else do {
           s \<leftarrow> mark_buffer (if empcl sc = cur_cl sc then em else 0) p s;
           Some ((Fall, flag (THISMOD OR FSDIRMOD) sc), s) } }
       else case ask False s of (yes, s) \<Rightarrow>
         if yes then do {
           s \<leftarrow> upd_de d (\<lambda>e. e\<lparr>de_fsckflags := de_fsckflags e OR DIREMPWARN\<rparr>) s;
           Some ((Fall, sc), s) }
         else Some ((Fall, sc), s))"

definition entry_after_end :: "nat \<Rightarrow> nat \<Rightarrow> scan \<Rightarrow> dirs \<Rightarrow> step" where
  "entry_after_end d p sc s = do {
     e \<leftarrow> get_de d s;
     if de_fsckflags e AND DIREMPTY = 0 then Some ((Fall, sc), s)
     else do {
       ((f, sc), s) \<leftarrow> (if de_fsckflags e AND DIREMPWARN = 0 then entry_extend d p sc s
                       else Some ((Fall, sc), s));
       case f of
         Ret r \<Rightarrow> Some ((Ret r, sc), s)
       | _ \<Rightarrow> do {
           e \<leftarrow> get_de d s;
           if de_fsckflags e AND DIREMPWARN \<noteq> 0 then do {
             s \<leftarrow> pokes [(0, SLOT_DELETED)] p s;
             Some ((Cont, flag (THISMOD OR FSDIRMOD) sc), s) }
           else Some ((Fall, (if de_fsckflags e AND DIREMPTY \<noteq> 0 then flag FSERROR sc else sc)
                               \<lparr>empty_p := None\<rparr>), s) } } }"

section \<open>Long name records\<close>

text \<open>
  \<open>lfn_copy n k t rec ln\<close>: at most \<open>n\<close> more characters from offset \<open>k\<close> of the record to offset \<open>t\<close>
  of \<open>longName\<close>; the loop also stops at the end of \<open>longName\<close> and at a zero character.
\<close>

primrec lfn_copy ::
  "nat \<Rightarrow> nat \<Rightarrow> nat \<Rightarrow> (nat \<Rightarrow> byte) \<Rightarrow> byte list \<Rightarrow> nat \<times> nat \<times> byte list" where
  "lfn_copy 0 k t rec ln = (k, t, ln)"
| "lfn_copy (Suc n) k t rec ln =
    (if \<not> t < DOSLONGNAMELEN then (k, t, ln)
     else if rec k = 0 \<and> rec (k + 1) = 0 then (k, t, ln)
     else lfn_copy n (k + 2) (t + 1) rec (ln[t := if rec (k + 1) \<noteq> 0 then 0x3f else rec k]))"

definition lfn_chars :: "nat \<Rightarrow> (nat \<Rightarrow> byte) \<Rightarrow> byte list \<Rightarrow> nat \<times> byte list" where
  "lfn_chars t rec ln =
    (case lfn_copy 5 1 t rec ln of (k, t, ln) \<Rightarrow>
       case (if k \<ge> 11 then lfn_copy 6 14 t rec ln else (k, t, ln)) of (k, t, ln) \<Rightarrow>
         case (if k \<ge> 26 then lfn_copy 2 28 t rec ln else (k, t, ln)) of (_, t, ln) \<Rightarrow> (t, ln))"

text \<open>\<^verbatim>\<open>if (!invlfn) { invlfn = vallfn; invcl = c; } vallfn = NULL;\<close>\<close>

definition invalidate :: "cl_t \<Rightarrow> scan \<Rightarrow> scan" where
  "invalidate c sc =
    (if invlfn sc = None then sc\<lparr>invlfn := vallfn sc, invcl := c\<rparr> else sc)\<lparr>vallfn := None\<rparr>"

definition lfn_sequence :: "nat \<Rightarrow> (nat \<Rightarrow> byte) \<Rightarrow> scan \<Rightarrow> dirs \<Rightarrow> scan \<times> dirs" where
  "lfn_sequence p rec sc s =
    (if rec 0 AND LRFIRST \<noteq> 0 then
       (let sc = (if shortSum sc \<noteq> -1 \<and> invlfn sc = None
                  then sc\<lparr>invlfn := vallfn sc, invcl := valcl sc\<rparr> else sc)
        in (sc\<lparr>shortSum := uint (rec 13), vallfn := Some p, valcl := cur_cl sc\<rparr>,
            s\<lparr>longName := replicate DOSLONGNAMELEN 0\<rparr>))
     else if shortSum sc \<noteq> uint (rec 13) \<or> lidx sc \<noteq> ucast (rec 0 AND LRNOMASK) then
       (let sc = (if invlfn sc = None then sc\<lparr>invlfn := vallfn sc, invcl := valcl sc\<rparr> else sc);
            sc = (if invlfn sc = None then sc\<lparr>invlfn := Some p, invcl := cur_cl sc\<rparr> else sc)
        in (sc\<lparr>vallfn := None\<rparr>, s))
     else (sc, s))"

definition entry_lfn :: "nat \<Rightarrow> (nat \<Rightarrow> byte) \<Rightarrow> scan \<Rightarrow> dirs \<Rightarrow> scan \<times> dirs" where
  "entry_lfn p rec sc s =
    (case lfn_sequence p rec sc s of (sc, s) \<Rightarrow>
       let sc = sc\<lparr>lidx := ucast (rec 0 AND LRNOMASK)\<rparr>
       in if lidx sc = 0 then (invalidate (valcl sc) sc, s)
       else
         (let sc = sc\<lparr>lidx := lidx sc - 1\<rparr>
          in case lfn_chars (unat (lidx sc * 13)) rec (longName s) of (t, ln) \<Rightarrow>
            let s = s\<lparr>longName := ln\<rparr>;
                sc = (if t \<ge> DOSLONGNAMELEN then invalidate (valcl sc) sc else sc);
                sc = (if rec 26 \<noteq> 0 \<or> rec 27 \<noteq> 0 then invalidate (cur_cl sc) sc else sc)
            in (sc, s)))"

section \<open>Short names\<close>

text \<open>\<open>strip_spaces n name\<close>: blanks before position \<open>n\<close> become terminators, from the right.\<close>

primrec strip_spaces :: "nat \<Rightarrow> byte list \<Rightarrow> nat \<times> byte list" where
  "strip_spaces 0 nm = (0, nm)"
| "strip_spaces (Suc k) nm = (if nm ! k = 0x20 then strip_spaces k (nm[k := 0]) else (Suc k, nm))"

definition name_base :: "(nat \<Rightarrow> byte) \<Rightarrow> nat \<times> byte list" where
  "name_base p =
    (case strip_spaces 8 (map p [0..<8] @ replicate 5 0) of (n, nm) \<Rightarrow>
       (if n = 0 \<or> nm ! (n - 1) \<noteq> 0 then n else n - 1,
        if nm ! 0 = SLOT_E5 then nm[0 := 0xe5] else nm))"

definition name_ext :: "(nat \<Rightarrow> byte) \<Rightarrow> nat \<Rightarrow> byte list \<Rightarrow> byte list" where
  "name_ext p k nm =
    (let (k, nm) = (if p 8 \<noteq> 0x20 then (k + 1, nm[k := 0x2e]) else (k, nm));
         nm = nm[k := p 8, k + 1 := p 9, k + 2 := p 10, k + 3 := 0]
     in snd (strip_spaces (k + 3) nm))"

section \<open>One slot\<close>

definition entry_volume :: "nat \<Rightarrow> scan \<Rightarrow> dirs \<Rightarrow> step" where
  "entry_volume p sc s =
    (if vallfn sc \<noteq> None \<or> invlfn sc \<noteq> None then do {
       (r, s) \<leftarrow> (case invlfn sc of
                    Some i \<Rightarrow> removede i p (invcl sc) (- 1) 0 s
                  | None \<Rightarrow> removede (the (vallfn sc)) p (valcl sc) (- 1) 0 s);
       Some ((Cont, (flag r sc)\<lparr>vallfn := None, invlfn := None\<rparr>), s) }
     else Some ((Cont, sc), s))"

definition entry_head :: "bootblock \<Rightarrow> (nat \<Rightarrow> byte) \<Rightarrow> cl_t" where
  "entry_head b p =
    (let h = ucast (p 26) OR push_bit 8 (ucast (p 27))
     in if ClustMask b = CLUST32_MASK
        then h OR (push_bit 16 (ucast (p 20)) OR push_bit 24 (ucast (p 21))) else h)"

definition entry_size :: "(nat \<Rightarrow> byte) \<Rightarrow> u32" where
  "entry_size p = ucast (p 28) OR push_bit 8 (ucast (p 29)) OR push_bit 16 (ucast (p 30))
                  OR push_bit 24 (ucast (p 31))"

definition entry_parse ::
  "nat \<Rightarrow> (nat \<Rightarrow> byte) \<Rightarrow> byte list \<Rightarrow> scan \<Rightarrow> dirs \<Rightarrow> ((dosDirEntry \<times> scan) \<times> dirs) option" where
  "entry_parse d p nm sc s =
    (let sc = (if vallfn sc \<noteq> None \<and> shortSum sc \<noteq> uint (calcShortSum p)
               then invalidate (valcl sc) sc else sc);
         de = zero_de\<lparr>de_flags := p 11, de_name := nm, de_head := entry_head (boot s) p,
                     de_size := entry_size p\<rparr>
     in do {
       (de, sc, s) \<leftarrow>
         (if vallfn sc \<noteq> None then do {
            l \<leftarrow> cstr (longName s);
            Some (de\<lparr>de_lname := l @ replicate (DOSLONGNAMELEN - length l) 0\<rparr>, sc\<lparr>shortSum := -1\<rparr>,
                  s\<lparr>longName := (longName s)[0 := 0]\<rparr>) }
          else Some (de, sc, s));
       e \<leftarrow> get_de d s;
       Some ((de\<lparr>de_parent := Some d, de_next := de_child e\<rparr>, sc), s) })"

definition entry_invlfn :: "nat \<Rightarrow> scan \<Rightarrow> dirs \<Rightarrow> step" where
  "entry_invlfn p sc s =
    (case invlfn sc of
       None \<Rightarrow> Some ((Fall, sc\<lparr>vallfn := None, invlfn := None\<rparr>), s)
     | Some i \<Rightarrow> do {
         (k, s) \<leftarrow> (case vallfn sc of
                      Some v \<Rightarrow> removede i v (invcl sc) (valcl sc) (cur_cl sc) s
                    | None \<Rightarrow> removede i p (invcl sc) (cur_cl sc) (cur_cl sc) s);
         let sc = flag k sc;
         if has (rmod sc) FSFATAL then Some ((Ret FSFATAL, sc), s)
         else
           (let inner = (case vallfn sc of Some v \<Rightarrow> valcl sc = cur_cl sc \<and> v \<noteq> 0 | None \<Rightarrow> p \<noteq> 0);
                sc = (if inner \<and> has k FSDIRMOD then flag THISMOD sc else sc)
            in Some ((Fall, sc\<lparr>vallfn := None, invlfn := None\<rparr>), s)) })"

definition is_dir :: "dosDirEntry \<Rightarrow> bool" where
  "is_dir de \<longleftrightarrow> de_flags de AND ATTR_DIRECTORY \<noteq> 0"

definition is_dot :: "dosDirEntry \<Rightarrow> bool" where
  "is_dot de \<longleftrightarrow> takeWhile (\<lambda>b. b \<noteq> 0) (de_name de) = [0x2e]"

definition is_dotdot :: "dosDirEntry \<Rightarrow> bool" where
  "is_dotdot de \<longleftrightarrow> takeWhile (\<lambda>b. b \<noteq> 0) (de_name de) = [0x2e, 0x2e]"

definition entry_sane :: "nat \<Rightarrow> dosDirEntry \<Rightarrow> scan \<Rightarrow> dirs \<Rightarrow> ((flow \<times> dosDirEntry \<times> scan) \<times> dirs) option" where
  "entry_sane p de sc s =
    (if is_dir de \<and> (is_dot de \<or> is_dotdot de) then Some ((Fall, de, sc), s)
     else if de_size de = 0 \<and> \<not> is_dir de then Some ((Fall, de, sc), s)
     else do {
       ok \<leftarrow> (if fat_is_valid_cl s (de_head de) then fat_is_cl_head (de_head de) s else Some False);
       if ok then Some ((Fall, de, sc), s)
       else if is_dir de then
         (case ask False s of (yes, s) \<Rightarrow>
            if yes then do {
              s \<leftarrow> pokes [(0, SLOT_DELETED)] p s;
              Some ((Cont, de, flag (THISMOD OR FSDIRMOD) sc), s) }
            else Some ((Cont, de, flag FSERROR sc), s))
       else
         (case ask True s of (yes, s) \<Rightarrow>
            if yes then do {
              s \<leftarrow> pokes (poke_size 0 @ poke_head (boot s) 0) p s;
              Some ((Fall, de\<lparr>de_size := 0, de_head := 0\<rparr>, flag (THISMOD OR FSDIRMOD) sc), s) }
            else Some ((Fall, de, flag FSERROR sc), s)) })"

text \<open>A correction of the slot that the user may refuse.\<close>

definition correct :: "bool \<Rightarrow> (nat \<times> byte) list \<Rightarrow> nat \<Rightarrow> scan \<Rightarrow> dirs \<Rightarrow> ((bool \<times> scan) \<times> dirs) option" where
  "correct dflt kvs p sc s =
    (case ask dflt s of (yes, s) \<Rightarrow>
       if yes then do { s \<leftarrow> pokes kvs p s; Some ((True, flag (THISMOD OR FSDIRMOD) sc), s) }
       else Some ((False, flag FSERROR sc), s))"

definition entry_dot :: "nat \<Rightarrow> nat \<Rightarrow> dosDirEntry \<Rightarrow> scan \<Rightarrow> dirs \<Rightarrow> step" where
  "entry_dot d p de sc s = do {
     e \<leftarrow> get_de d s;
     if de_head de \<noteq> de_head e then do {
       ((_, sc), s) \<leftarrow> correct True (poke_head (boot s) (de_head e)) p sc s;
       Some ((Cont, sc), s) }
     else Some ((Cont, sc), s) }"

definition entry_dotdot :: "nat \<Rightarrow> nat \<Rightarrow> dosDirEntry \<Rightarrow> scan \<Rightarrow> dirs \<Rightarrow> step" where
  "entry_dotdot d p de sc s = do {
     e \<leftarrow> get_de d s;
     case de_parent e of
       None \<Rightarrow> Some ((Cont, sc), s)
     | Some q \<Rightarrow> do {
         pe \<leftarrow> get_de q s;
         let wanted = (if de_parent pe = None then 0 else de_head pe);
         if de_head de \<noteq> wanted then do {
           ((_, sc), s) \<leftarrow> correct True (poke_head (boot s) wanted) p sc s;
           Some ((Cont, sc), s) }
         else Some ((Cont, sc), s) } }"

definition entry_push :: "nat \<Rightarrow> dosDirEntry \<Rightarrow> scan \<Rightarrow> dirs \<Rightarrow> step" where
  "entry_push d de sc s = do {
     (n, s) \<leftarrow> newDosDirEntry s;
     case n of
       None \<Rightarrow> Some ((Ret FSFATAL, sc), s)
     | Some n \<Rightarrow> do {
         s \<leftarrow> upd_de n (\<lambda>_. de) s;
         s \<leftarrow> upd_de d (\<lambda>e. e\<lparr>de_child := Some n\<rparr>) s;
         case newDirTodo s of (ok, s) \<Rightarrow>
           if \<not> ok then Some ((Ret FSFATAL, sc), s)
           else Some ((Fall, sc), s\<lparr>pendingDirectories := n # pendingDirectories s\<rparr>) } }"

definition entry_subdir :: "nat \<Rightarrow> nat \<Rightarrow> dosDirEntry \<Rightarrow> scan \<Rightarrow> dirs \<Rightarrow> step" where
  "entry_subdir d p de sc s = do {
     e \<leftarrow> get_de d s;
     if de_head de = de_head e then do {
       ((_, sc), s) \<leftarrow> correct True [(0, SLOT_DELETED)] p sc s;
       Some ((Cont, sc), s) }
     else do {
       (r, s) \<leftarrow> check_subdirectory de s;
       if r AND FSERROR = FSERROR then do {
         ((_, sc), s) \<leftarrow> correct True [(0, SLOT_DELETED)] p sc s;
         Some ((Cont, sc), s) }
       else entry_push d de sc s } }"

definition entry_directory :: "nat \<Rightarrow> nat \<Rightarrow> dosDirEntry \<Rightarrow> scan \<Rightarrow> dirs \<Rightarrow> step" where
  "entry_directory d p de sc s = do {
     (de, sc, s) \<leftarrow>
       (if de_size de \<noteq> 0 then do {
          ((fixed, sc), s) \<leftarrow> correct True (poke_size 0) p sc s;
          Some (if fixed then de\<lparr>de_size := 0\<rparr> else de, sc, s) }
        else Some (de, sc, s));
     if is_dot de then entry_dot d p de sc s
     else if is_dotdot de then entry_dotdot d p de sc s
     else entry_subdir d p de sc s }"

definition entry_file :: "nat \<Rightarrow> dosDirEntry \<Rightarrow> scan \<Rightarrow> dirs \<Rightarrow> step" where
  "entry_file p de sc s =
    (if has (rmod sc) FSERROR then Some ((Fall, sc), s)
     else do {
       ((k, _), s) \<leftarrow> checksize p de s;
       let sc = flag k sc;
       Some ((Fall, if has k FSDIRMOD then flag THISMOD sc else sc), s) })"

text \<open>From the parsed entry to the end of the loop body.\<close>

definition entry_checked :: "nat \<Rightarrow> nat \<Rightarrow> dosDirEntry \<Rightarrow> scan \<Rightarrow> dirs \<Rightarrow> step" where
  "entry_checked d p de sc s = do {
     ((f, de, sc), s) \<leftarrow> entry_sane p de sc s;
     case f of
       Fall \<Rightarrow> do {
         ((f, sc), s) \<leftarrow> (if is_dir de then entry_directory d p de sc s else entry_file p de sc s);
         case f of
           Fall \<Rightarrow> Some ((Fall, sc), s\<lparr>boot := (boot s)\<lparr>NumFiles := NumFiles (boot s) + 1\<rparr>\<rparr>)
         | _ \<Rightarrow> Some ((f, sc), s) }
     | _ \<Rightarrow> Some ((f, sc), s) }"

definition entry_short :: "nat \<Rightarrow> nat \<Rightarrow> (nat \<Rightarrow> byte) \<Rightarrow> scan \<Rightarrow> dirs \<Rightarrow> step" where
  "entry_short d p rec sc s =
    (case name_base rec of (k, nm) \<Rightarrow>
       if rec 11 AND ATTR_VOLUME \<noteq> 0 then entry_volume p sc s
       else do {
         ((de, sc), s) \<leftarrow> entry_parse d rec (name_ext rec k nm) sc s;
         ((f, sc), s) \<leftarrow> entry_invlfn p sc s;
         case f of
           Ret r \<Rightarrow> Some ((Ret r, sc), s)
         | _ \<Rightarrow> entry_checked d p de sc s })"

definition dir_entry :: "nat \<Rightarrow> nat \<Rightarrow> scan \<Rightarrow> dirs \<Rightarrow> step" where
  "dir_entry d p sc s = do {
     e \<leftarrow> get_de d s;
     rec \<leftarrow> slot p s;
     if de_fsckflags e AND DIREMPWARN \<noteq> 0 then do {
       s \<leftarrow> pokes [(0, SLOT_EMPTY)] p s;
       Some ((Cont, sc), s) }
     else if rec 0 = SLOT_EMPTY then do {
       s \<leftarrow> upd_de d (\<lambda>e. e\<lparr>de_fsckflags := de_fsckflags e OR DIREMPTY\<rparr>) s;
       Some ((Cont, sc\<lparr>empty_p := Some p, empcl := cur_cl sc\<rparr>), s) }
     else if rec 0 = SLOT_DELETED then Some ((Cont, sc), s)
     else do {
       ((f, sc), s) \<leftarrow> entry_after_end d p sc s;
       case f of
         Fall \<Rightarrow>
           if rec 11 = ATTR_WIN95 then (case entry_lfn p rec sc s of (sc, s) \<Rightarrow> Some ((Cont, sc), s))
           else entry_short d p rec sc s
       | _ \<Rightarrow> Some ((f, sc), s) } }"

primrec dir_entries :: "nat \<Rightarrow> nat \<Rightarrow> nat \<Rightarrow> scan \<Rightarrow> dirs \<Rightarrow> step" where
  "dir_entries 0 d p sc s = Some ((Fall, sc), s)"
| "dir_entries (Suc n) d p sc s = do {
     ((f, sc), s) \<leftarrow> dir_entry d p sc s;
     case f of
       Ret r \<Rightarrow> Some ((Ret r, sc), s)
     | _ \<Rightarrow> dir_entries n d (p + 32) sc s }"

section \<open>A directory\<close>

definition buffer_read :: "nat \<Rightarrow> nat \<Rightarrow> dirs \<Rightarrow> (bool \<times> dirs) option" where
  "buffer_read off n s = do {
     b \<leftarrow> live (buffer s);
     ((ok, b), s) \<leftarrow> seek_read off n 0 b s;
     Some (ok, s\<lparr>buffer := Live b\<rparr>) }"

definition buffer_write :: "nat \<Rightarrow> nat \<Rightarrow> dirs \<Rightarrow> (bool \<times> dirs) option" where
  "buffer_write off n s = do {
     b \<leftarrow> live (buffer s);
     seek_write off n 0 b s }"

text \<open>The \<^verbatim>\<open>do ... while\<close> loop over the clusters; the root of FAT12/FAT16 is one turn.\<close>

partial_function (option) dir_clusters :: "nat \<Rightarrow> bool \<Rightarrow> nat \<Rightarrow> nat \<Rightarrow> scan \<Rightarrow> dirs \<Rightarrow> step" where
  "dir_clusters d is_legacyroot iosize entries sc s = do {
     let off = (if is_legacyroot then root_off (boot s) else cluster_off (boot s) (cur_cl sc));
     (ok, s) \<leftarrow> buffer_read off iosize s;
     if \<not> ok then Some ((Ret FSFATAL, sc), s)
     else do {
       ((f, sc), s) \<leftarrow> dir_entries entries d 0 sc s;
       case f of
         Ret r \<Rightarrow> Some ((Ret r, sc), s)
       | _ \<Rightarrow>
         if is_legacyroot then Some ((Fall, sc), s)
         else do {
           (ok, s) \<leftarrow> (if has (rmod sc) THISMOD then buffer_write off iosize s else Some (True, s));
           if \<not> ok then Some ((Ret FSFATAL, sc), s)
           else do {
             let sc = sc\<lparr>rmod := rmod sc AND NOT THISMOD\<rparr>;
             (cl, s) \<leftarrow> fat_get_cl_next (cur_cl sc) s;
             let sc = sc\<lparr>cur_cl := cl\<rparr>;
             if fat_is_valid_cl s cl then dir_clusters d is_legacyroot iosize entries sc s
             else Some ((Fall, sc), s) } } } }"

definition dir_finish :: "bool \<Rightarrow> nat \<Rightarrow> nat \<Rightarrow> scan \<Rightarrow> dirs \<Rightarrow> (cint \<times> dirs) option" where
  "dir_finish is_legacyroot iosize entries sc s = do {
     (sc, s) \<leftarrow>
       (if invlfn sc \<noteq> None \<or> vallfn sc \<noteq> None then do {
          (r, s) \<leftarrow> (case invlfn sc of
                       Some i \<Rightarrow> removede i (entries * 32) (invcl sc) (- 1) 0 s
                     | None \<Rightarrow> removede (the (vallfn sc)) (entries * 32) (valcl sc) (- 1) 0 s);
          Some (flag r sc, s) }
        else Some (sc, s));
     (ok, s) \<leftarrow> (if has (rmod sc) FSDIRMOD \<and> is_legacyroot
                  then buffer_write (root_off (boot s)) iosize s else Some (True, s));
     if \<not> ok then Some (FSFATAL, s) else Some (rmod sc AND NOT THISMOD, s) }"

definition scan0 :: "cl_t \<Rightarrow> cint \<Rightarrow> scan" where
  "scan0 cl m = \<lparr>cur_cl = cl, valcl = - 1, invcl = - 1, empcl = - 1, vallfn = None, invlfn = None,
     empty_p = None, lidx = 0, shortSum = -1, rmod = m\<rparr>"

definition readDosDirSection :: "nat \<Rightarrow> dirs \<Rightarrow> (cint \<times> dirs) option" where
  "readDosDirSection d s = do {
     e \<leftarrow> get_de d s;
     if de_parent e \<noteq> None \<and> \<not> fat_is_valid_cl s (de_head e) then Some (FSOK, s)
     else do {
       let is_legacyroot = (de_parent e = None \<and> \<not> is_fat32 (boot s));
       let iosize = (if is_legacyroot then unat (bpbRootDirEnts (boot s) * 32)
                     else unat (bpbSecPerClust (boot s) * bpbBytesPerSec (boot s)));
       let entries = (if is_legacyroot then unat (bpbRootDirEnts (boot s)) else iosize div 32);
       (m, s) \<leftarrow> (if is_legacyroot then Some (FSOK, s)
                  else do { ((r, _), s) \<leftarrow> checkchain (de_head e) s; Some (r, s) });
       ((f, sc), s) \<leftarrow> dir_clusters d is_legacyroot iosize entries (scan0 (de_head e) m) s;
       case f of
         Ret r \<Rightarrow> Some (r, s)
       | _ \<Rightarrow> dir_finish is_legacyroot iosize entries sc s } }"

section \<open>The tree\<close>

partial_function (option) dir_todo :: "cint \<Rightarrow> dirs \<Rightarrow> (cint \<times> dirs) option" where
  "dir_todo m s =
    (case pendingDirectories s of
       [] \<Rightarrow> Some (m, s)
     | d # ds \<Rightarrow> do {
         (r, s) \<leftarrow> readDosDirSection d ((freeDirTodo s)\<lparr>pendingDirectories := ds\<rparr>);
         if has (m OR r) FSFATAL then Some (FSFATAL, s) else dir_todo (m OR r) s })"

definition handleDirTree :: "dirs \<Rightarrow> (cint \<times> dirs) option" where
  "handleDirTree s = do {
     d \<leftarrow> rootDir s;
     (m, s) \<leftarrow> readDosDirSection d s;
     if has m FSFATAL then Some (FSFATAL, s) else dir_todo m s }"

end
