(* ===== verification/Fsck_Lost.thy ===== *)
theory Fsck_Lost
  imports Fsck_ReadDir
begin

text \<open>
  Lost chains: \<open>reconnect\<close> and \<open>finishlf\<close> of dir.c, \<open>checklost\<close> of fat.c. The 32-bit computation of
  \<^verbatim>\<open>lfoff\<close> is kept.
\<close>

section \<open>reconnect()\<close>

definition LOSTDIR :: "byte list" where
  "LOSTDIR = [0x4c, 0x4f, 0x53, 0x54, 0x2e, 0x44, 0x49, 0x52]"

partial_function (option) find_lost :: "nat option \<Rightarrow> dirs \<Rightarrow> nat option option" where
  "find_lost dp s =
    (case dp of
       None \<Rightarrow> Some None
     | Some d \<Rightarrow> do {
         e \<leftarrow> get_de d s;
         if takeWhile (\<lambda>b. b \<noteq> 0) (de_name e) = LOSTDIR then Some (Some d)
         else find_lost (de_next e) s })"

text \<open>\<^verbatim>\<open>for (; p < lfbuf + boot->ClusterSize; p += 32)\<close>: the first slot from \<open>p\<close> on that can be used.\<close>

function find_slot :: "nat \<Rightarrow> nat \<Rightarrow> buf \<Rightarrow> nat option" where
  "find_slot p n b =
    (if p < n then do {
       v \<leftarrow> ld b p;
       if v = SLOT_EMPTY \<or> v = SLOT_DELETED then Some p else find_slot (p + 32) n b }
     else Some p)"
  by pat_completeness auto
termination
  by (relation "measure (\<lambda>(p, n, b). n - p)") auto

text \<open>
  The \<^verbatim>\<open>while (1)\<close> loop: \<open>p\<close> is the position in \<^verbatim>\<open>lfbuf\<close>, \<open>None\<close> when nothing has been read yet. The
  result is a usable slot, or the value that \<open>reconnect\<close> returns.
\<close>

definition lost_next :: "nat \<Rightarrow> nat option \<Rightarrow> dirs \<Rightarrow> (cl_t \<times> dirs) option" where
  "lost_next ld1 p s =
    (case p of
       Some _ \<Rightarrow> fat_get_cl_next (lfcl s) s
     | None \<Rightarrow> do { e \<leftarrow> get_de ld1 s; Some (de_head e, s) })"

definition lost_off :: "bootblock \<Rightarrow> cl_t \<Rightarrow> nat" where
  "lost_off b c = unat ((c - CLUST_FIRST) * ClusterSize b + FirstCluster b * bpbBytesPerSec b)"

partial_function (option) lost_slot :: "nat \<Rightarrow> nat option \<Rightarrow> dirs \<Rightarrow> ((cint + nat) \<times> dirs) option" where
  "lost_slot ld1 p s = do {
     bf \<leftarrow> live (lfbuf s);
     let n = unat (ClusterSize (boot s));
     p \<leftarrow> (case p of None \<Rightarrow> Some None | Some p \<Rightarrow> map_option Some (find_slot p n bf));
     if p \<noteq> None \<and> the p < n then Some (Inr (the p), s)
     else do {
       (c, s) \<leftarrow> lost_next ld1 p s;
       let s = s\<lparr>lfcl := c\<rparr>;
       if c < CLUST_FIRST \<or> c \<ge> NumClusters (boot s) then do {
         e \<leftarrow> get_de ld1 s;
         Some (Inl FSERROR, s\<lparr>lfcl := if de_head e < NumClusters (boot s) then de_head e else 0\<rparr>) }
       else do {
         let s = s\<lparr>lfoff := lost_off (boot s) c\<rparr>;
         ((ok, bf), s) \<leftarrow> seek_read (lfoff s) n 0 bf s;
         let s = s\<lparr>lfbuf := Live bf\<rparr>;
         if \<not> ok then Some (Inl FSFATAL, s)
         else lost_slot ld1 (Some 0) s } } }"

text \<open>\<^verbatim>\<open>snprintf(\<dots>, "%u", head)\<close>\<close>

fun digits :: "nat \<Rightarrow> byte list" where
  "digits n = (if n < 10 then [of_nat (48 + n)] else digits (n div 10) @ [of_nat (48 + n mod 10)])"

declare digits.simps [simp del]

definition lost_entry :: "bootblock \<Rightarrow> cl_t \<Rightarrow> u32 \<Rightarrow> byte list" where
  "lost_entry b hd1 sz =
    (let nm = digits (unat hd1);
         r = nm @ replicate (11 - length nm) 0x20 @ replicate 21 0;
         r = r[26 := ucast hd1, 27 := ucast (drop_bit 8 hd1)];
         r = (if ClustMask b = CLUST32_MASK
              then r[20 := ucast (drop_bit 16 hd1), 21 := ucast (drop_bit 24 hd1)] else r)
     in r[28 := ucast sz, 29 := ucast (drop_bit 8 sz), 30 := ucast (drop_bit 16 sz),
          31 := ucast (drop_bit 24 sz)])"

definition lost_store :: "cl_t \<Rightarrow> u64 \<Rightarrow> nat \<Rightarrow> dirs \<Rightarrow> (cint \<times> dirs) option" where
  "lost_store hd1 len p s = do {
     let s = s\<lparr>boot := (boot s)\<lparr>NumFiles := NumFiles (boot s) + 1\<rparr>\<rparr>;
     bf \<leftarrow> live (lfbuf s);
     if blen bf < p + 32 then None
     else do {
       let bf = bf\<lparr>bdat := put_bytes p
         (lost_entry (boot s) hd1 (ucast (len * ucast (ClusterSize (boot s))))) (bdat bf)\<rparr>;
       (ok, s) \<leftarrow> seek_write (lfoff s) (unat (ClusterSize (boot s))) 0 bf (s\<lparr>lfbuf := Live bf\<rparr>);
       Some (if ok then FSDIRMOD else FSFATAL, s) } }"

definition lost_find :: "dirs \<Rightarrow> (nat option \<times> dirs) option" where
  "lost_find s =
    (case lostDir s of
       Some l \<Rightarrow> Some (Some l, s)
     | None \<Rightarrow> do {
         r \<leftarrow> rootDir s;
         e \<leftarrow> get_de r s;
         l \<leftarrow> find_lost (de_child e) s;
         Some (l, s\<lparr>lostDir := l\<rparr>) })"

definition reconnect :: "cl_t \<Rightarrow> u64 \<Rightarrow> dirs \<Rightarrow> (cint \<times> dirs) option" where
  "reconnect hd1 len s =
    (case ask True s of (yes, s) \<Rightarrow>
       if \<not> yes then Some (FSERROR, s)
       else do {
         (l, s) \<leftarrow> lost_find s;
         case l of
           None \<Rightarrow> Some (FSERROR, s)
         | Some l \<Rightarrow>
             (case (if lfbuf s = Null then
                      (case malloc (unat (ClusterSize (boot s))) s of
                         (None, s) \<Rightarrow> (None, s)
                       | (Some b, s) \<Rightarrow> (Some None, s\<lparr>lfbuf := Live b\<rparr>))
                    else (Some (Some 0), s)) of
                (None, s) \<Rightarrow> Some (FSFATAL, s)
              | (Some p, s) \<Rightarrow> do {
                  (r, s) \<leftarrow> lost_slot l p s;
                  case r of
                    Inl e \<Rightarrow> Some (e, s)
                  | Inr p \<Rightarrow> lost_store hd1 len p s }) })"

definition finishlf :: "dirs \<Rightarrow> (unit \<times> dirs) option" where
  "finishlf s = do { _ \<leftarrow> free_ptr (lfbuf s); Some ((), s\<lparr>lfbuf := Null\<rparr>) }"

section \<open>checklost()\<close>

definition lost_chain :: "cl_t \<Rightarrow> cint \<Rightarrow> dirs \<Rightarrow> (cint \<times> dirs) option" where
  "lost_chain hd1 m s = do {
     ((ret, chainlength), s) \<leftarrow> checkchain hd1 s;
     (ret, m, s) \<leftarrow>
       (if ret \<noteq> FSERROR \<and> chainlength > 0 then do {
          (r, s) \<leftarrow> reconnect hd1 chainlength s;
          Some (r, m OR r, s) }
        else Some (ret, m, s));
     if has m FSFATAL then Some (m, s)
     else if ret = FSERROR then
       (case ask False s of (yes, s) \<Rightarrow>
          if yes then do { (_, s) \<leftarrow> clearchain hd1 s; Some (m OR FSFATMOD, s) }
          else Some (m, s))
     else Some (m, s) }"

partial_function (option) lost_scan :: "cl_t \<Rightarrow> u64 \<Rightarrow> cint \<Rightarrow> dirs \<Rightarrow> (cint \<times> dirs) option" where
  "lost_scan hd1 n m s =
    (if \<not> (n > 0 \<and> hd1 < NumClusters (boot s)) then Some (m, s)
     else do {
       skip \<leftarrow> (if hd1 mod LONG_BIT = 0 then map_option Not (fat_is_cl_head_in_range hd1 s) else Some False);
       if skip then lost_scan (hd1 + LONG_BIT) n m s
       else do {
         h \<leftarrow> fat_is_cl_head hd1 s;
         if \<not> h then lost_scan (hd1 + 1) n m s
         else do {
           (m, s) \<leftarrow> lost_chain hd1 m s;
           if has m FSFATAL then Some (m, s)
           else lost_scan (hd1 + 1) (n - 1) m s } } })"

primrec first_free :: "cl_t list \<Rightarrow> 'a fsck_scheme \<Rightarrow> (cl_t option \<times> 'a fsck_scheme) option" where
  "first_free [] s = Some (None, s)"
| "first_free (cl # cls) s = do {
     (n, s) \<leftarrow> fat_get_cl_next cl s;
     if n = CLUST_FREE then Some (Some cl, s) else first_free cls s }"

definition lost_nextfree :: "bool \<Rightarrow> 'a fsck_scheme \<Rightarrow> (bool \<times> 'a fsck_scheme) option" where
  "lost_nextfree ret s = do {
     (wrong, s) \<leftarrow>
       (if FSNext (boot s) = 0xffffffff then Some (False, s)
        else if FSNext (boot s) \<ge> NumClusters (boot s) then Some (True, s)
        else if NumFree (boot s) = 0 then Some (False, s)
        else do { (n, s) \<leftarrow> fat_get_cl_next (FSNext (boot s)) s; Some (n \<noteq> CLUST_FREE, s) });
     if \<not> wrong then Some (ret, s)
     else case ask True s of (yes, s) \<Rightarrow>
       if \<not> yes then Some (ret, s)
       else do {
         (c, s) \<leftarrow> first_free (clusters (boot s)) s;
         case c of
           None \<Rightarrow> Some (ret, s)
         | Some cl \<Rightarrow> Some (True, s\<lparr>boot := (boot s)\<lparr>FSNext := cl\<rparr>\<rparr>) } }"

definition lost_fsinfo :: "cint \<Rightarrow> 'a fsck_scheme \<Rightarrow> (cint \<times> 'a fsck_scheme) option" where
  "lost_fsinfo m s =
    (if bpbFSInfo (boot s) = 0 then Some (m, s)
     else
       (case (if FSFree (boot s) \<noteq> 0xffffffff \<and> FSFree (boot s) \<noteq> NumFree (boot s)
              then (case ask True s of (yes, s) \<Rightarrow>
                      if yes then (True, s\<lparr>boot := (boot s)\<lparr>FSFree := NumFree (boot s)\<rparr>\<rparr>) else (False, s))
              else (False, s)) of
          (ret, s) \<Rightarrow> do {
            (ret, s) \<leftarrow> lost_nextfree ret s;
            if ret then do { (r, s) \<leftarrow> writefsinfo (boot s) s; Some (m OR r, s) }
            else Some (m, s) }))"

definition checklost :: "dirs \<Rightarrow> (cint \<times> dirs) option" where
  "checklost s = do {
     (m, s) \<leftarrow> lost_scan CLUST_FIRST (fat_get_head_count s) FSOK s;
     (_, s) \<leftarrow> finishlf s;
     lost_fsinfo m s }"

end
