(* ===== verification/Fsck_Check.thy ===== *)
theory Fsck_Check
  imports Fsck_Lost
begin

text \<open>
  check.c and main.c: the phases of a check and the command line. Whether the device can be opened
  for writing and for reading are arguments of \<open>checkfilesys\<close>. The result is the exit status.
\<close>

text \<open>The end of a check: write the FATs, clear the dirty flag, decide the status.\<close>

definition check_update :: "cint \<Rightarrow> dirs \<Rightarrow> (cint \<times> dirs) option" where
  "check_update m s =
    (if has m FSFATMOD then
       (case ask True s of (yes, s) \<Rightarrow>
          if yes then do { (r, s) \<leftarrow> writefat s; Some (m OR r, s) }
          else Some (m OR FSERROR, s))
     else Some (m, s))"

definition check_clean :: "cint \<Rightarrow> dirs \<Rightarrow> (cint \<times> dirs) option" where
  "check_clean m s =
    (if m \<noteq> 0 \<and> \<not> has m FSERROR \<and> has m FSDIRTY then
       (case ask True s of (yes, s) \<Rightarrow>
          if yes then do { (r, s) \<leftarrow> cleardirty s; Some (m OR r, s) }
          else Some (m AND NOT FSDIRTY OR FSERROR, s))
     else Some (m, s))"

definition check_finish :: "cint \<Rightarrow> dirs \<Rightarrow> (nat \<times> dirs) option" where
  "check_finish m s = do {
     (m, s) \<leftarrow> check_update m s;
     if has m FSFATAL then Some (8, s)
     else do {
       (m, s) \<leftarrow> check_clean m s;
       Some (if has m (FSFATAL OR FSERROR) then 8 else 0, s) } }"

definition check_phases :: "cint \<Rightarrow> dirs \<Rightarrow> (nat \<times> dirs) option" where
  "check_phases m s = do {
     (r, s) \<leftarrow> resetDosDirSection s;
     if has (m OR r) FSFATAL then Some (8, s)
     else do {
       let m = m OR r;
       (r, s) \<leftarrow> handleDirTree s;
       if has (m OR r) FSFATAL then Some (8, s)
       else do {
         let m = m OR r;
         (r, s) \<leftarrow> checklost s;
         if has (m OR r) FSFATAL then Some (8, s)
         else check_finish (m OR r) s } } }"

text \<open>\<open>open_device\<close>: the options \<open>rdonly\<close> and the outcome of the one or two \<^verbatim>\<open>open\<close> calls.\<close>

definition open_device :: "bool \<Rightarrow> bool \<Rightarrow> dirs \<Rightarrow> bool \<times> dirs" where
  "open_device open_rw open_ro s =
    (let s = s\<lparr>rdonly := alwaysno s\<rparr>
     in if rdonly s then (open_ro, s)
        else if open_rw then (True, s)
        else (open_ro, s\<lparr>rdonly := True\<rparr>))"

definition checkfilesys :: "bool \<Rightarrow> bool \<Rightarrow> dirs \<Rightarrow> (nat \<times> dirs) option" where
  "checkfilesys open_rw open_ro s =
    (case open_device open_rw open_ro s of (ok, s) \<Rightarrow>
       if \<not> ok then Some (8, s)
       else do {
         ((r, b), s) \<leftarrow> readboot s;
         let s = s\<lparr>boot := b\<rparr>;
         if r = FSFATAL then Some (8, s)
         else do {
           (clean, s) \<leftarrow> (if skipclean s \<and> preen s then checkdirty (boot s) s else Some (0, s));
           if clean \<noteq> 0 then Some (0, s)
           else do {
             (m, s) \<leftarrow> readfat s;
             if has m FSFATAL then Some (8, s)
             else do {
               (status, s) \<leftarrow> check_phases m s;
               (_, s) \<leftarrow> finishDosDirSection s;
               Some (status, s) } } } })"

section \<open>main()\<close>

text \<open>One option letter; \<open>Inl\<close> is an exit with that status.\<close>

definition main_opt :: "char \<Rightarrow> dirs \<Rightarrow> nat + dirs" where
  "main_opt ch s =
    (if ch = CHR ''C'' then Inr s
     else if ch = CHR ''f'' then Inr (s\<lparr>skipclean := False\<rparr>)
     else if ch = CHR ''F'' then Inl 5
     else if ch = CHR ''n'' then Inr (s\<lparr>alwaysno := True, alwaysyes := False\<rparr>)
     else if ch = CHR ''y'' then Inr (s\<lparr>alwaysyes := True, alwaysno := False\<rparr>)
     else if ch = CHR ''p'' then Inr (s\<lparr>preen := True\<rparr>)
     else if ch = CHR ''M'' then Inr (s\<lparr>allow_mmap := False\<rparr>)
     else Inl 1)"

primrec main_opts :: "string \<Rightarrow> dirs \<Rightarrow> nat + dirs" where
  "main_opts [] s = Inr s"
| "main_opts (ch # chs) s = (case main_opt ch s of Inl e \<Rightarrow> Inl e | Inr s \<Rightarrow> main_opts chs s)"

text \<open>The file systems named on the command line: contents, and whether the two opens succeed.\<close>

primrec main_files :: "(buf \<times> bool \<times> bool) list \<Rightarrow> nat \<Rightarrow> dirs \<Rightarrow> (nat \<times> dirs) option" where
  "main_files [] ret s = Some (ret, s)"
| "main_files (f # fs) ret s = do {
     (erg, s) \<leftarrow> checkfilesys (fst (snd f)) (snd (snd f)) (s\<lparr>dev := fst f, pos := 0\<rparr>);
     main_files fs (if erg > ret then erg else ret) s }"

definition fsck_main :: "string \<Rightarrow> (buf \<times> bool \<times> bool) list \<Rightarrow> dirs \<Rightarrow> (nat \<times> dirs) option" where
  "fsck_main opts1 files s =
    (case main_opts opts1 (s\<lparr>skipclean := True, allow_mmap := True\<rparr>) of
       Inl e \<Rightarrow> Some (e, s)
     | Inr s \<Rightarrow> if files = [] then Some (1, s) else main_files files 0 s)"

end
