(* ===== verification/Fsck_Clean.thy ===== *)
theory Fsck_Clean
  imports Fsck_Check
begin

text \<open>
  What a check does on a volume with nothing to complain about: the lemmas below follow the phases of
  \<open>checkfilesys\<close> on a table whose entries are free or end marks and on directories without entries.
\<close>

section \<open>Loading a table\<close>

definition no_faults :: "'a env_scheme \<Rightarrow> bool" where
  "no_faults s \<longleftrightarrow> io_faults s = [] \<and> alloc_faults s = []"

lemma malloc_ok: "no_faults s \<Longrightarrow> malloc n s = (Some \<lparr>blen = n, bdat = junk s\<rparr>, s)"
  by (simp add: malloc_def pop_fault_def no_faults_def)

text \<open>The bytes of the table in memory.\<close>

definition fat_holds :: "(nat \<Rightarrow> byte) \<Rightarrow> 'a fsck_scheme \<Rightarrow> bool" where
  "fat_holds f s \<longleftrightarrow> flat_mem_ok s \<and> (\<forall>i<fatsize (fat s). fat_ld s i = Some (f i))"

text \<open>A state that differs from another one only in what loading the table touches.\<close>

definition loaded :: "'a fsck_scheme \<Rightarrow> 'a fsck_scheme \<Rightarrow> bool" where
  "loaded s t \<longleftrightarrow> quiet s t \<and> no_faults t \<and> boot t = boot s \<and> fsck.more t = fsck.more s"

lemma readfat_table_loads:
  assumes nf: "no_faults s" and dev: "fat_start (boot s) + unat (FATsecs (boot s) * bpbBytesPerSec (boot s)) \<le> blen (dev s)"
    and flat: "allow_mmap s \<and> mmap_faults s = [] \<or>
      \<not> (ClustMask (boot s) = CLUST32_MASK \<and> unat (FATsecs (boot s) * bpbBytesPerSec (boot s)) \<ge> fat32_cache_size)"
  shows "\<exists>t. readfat_table s = Some (True, t) \<and> loaded s t \<and>
     fat_holds (\<lambda>i. bdat (dev s) (fat_start (boot s) + i)) t \<and>
     fatsize (fat t) = unat (FATsecs (boot s) * bpbBytesPerSec (boot s)) \<and> use_cache (fat t) = False"
proof -
  let ?n = "unat (FATsecs (boot s) * bpbBytesPerSec (boot s))" and ?off = "fat_start (boot s)"
  let ?s = "s\<lparr>fat := (fat s)\<lparr>fatsize := ?n, is_mmapped := False, use_cache := False\<rparr>\<rparr>"
  obtain mapped u where mm: "(if allow_mmap ?s then mmap ?off ?s else (False, ?s)) = (mapped, u)" by force
  have nfu: "no_faults u" "quiet s u" "boot u = boot s" "fsck.more u = fsck.more s"
    using mm nf by (auto simp: mmap_def no_faults_def quiet_def opts_def split: if_splits prod.splits)
  show ?thesis
  proof (cases mapped)
    case True
    then have u: "fat u = (fat s)\<lparr>fatsize := ?n, is_mmapped := True, use_cache := False, mmap_off := ?off\<rparr>" "dev u = dev s"
      using mm by (auto simp: mmap_def split: if_splits prod.splits)
    have "readfat_table s = Some (True, u)" using mm True by (simp add: readfat_table_def Let_def)
    then show ?thesis using nfu dev by (simp add: loaded_def fat_holds_def flat_mem_ok_def fat_ld_def u)
  next
    case False
    then have u: "fat u = (fat s)\<lparr>fatsize := ?n, is_mmapped := False, use_cache := False\<rparr>" "dev u = dev s"
      using mm by (auto simp: mmap_def split: if_splits prod.splits)
    have nc: "\<not> (ClustMask (boot s) = CLUST32_MASK \<and> ?n \<ge> fat32_cache_size)"
      using flat mm False by (auto simp: mmap_def pop_fault_def split: if_splits)
    let ?b = "\<lparr>blen = ?n, bdat = blit (bdat (dev s)) ?off ?n (junk u) 0\<rparr>"
    have rd: "seek_read ?off ?n 0 \<lparr>blen = ?n, bdat = junk u\<rparr> u = Some ((True, ?b), u\<lparr>io_faults := [], pos := ?off + ?n\<rparr>)"
      using nfu dev u by (subst seek_read_nofault) (simp_all add: no_faults_def)
    let ?t = "u\<lparr>io_faults := [], pos := ?off + ?n, fat := (fat u)\<lparr>fatbuf := ?b\<rparr>\<rparr>"
    have "readfat_buffer ?off ?n u = Some (True, ?t)"
      using rd by (simp add: readfat_buffer_def malloc_ok [OF nfu(1)] u)
    then have "readfat_table s = Some (True, ?t)"
      using mm False nc by (auto simp: readfat_table_def Let_def u)
    moreover have "fat_ld ?t i = Some (bdat (dev s) (?off + i))" if "i < ?n" for i
      using that by (simp add: fat_ld_def u ld_def add.commute)
    ultimately show ?thesis
      using nfu dev by (simp add: loaded_def fat_holds_def flat_mem_ok_def u quiet_def opts_def no_faults_def)
  qed
qed

section \<open>Scanning a table without chains\<close>

lemma flat_get:
  assumes "table_inv s" "valid_cl s c" "accessor (fat s) \<noteq> Fat32_cached"
  shows "fat_get_cl_next c s = Some (fat_view s c, s)"
proof -
  obtain t where t: "fat_get_cl_next c s = Some (fat_view s c, t)" using fat_get_law [OF assms(1,2)] by blast
  moreover have "t = s"
    using t assms by (cases "accessor (fat s)") (auto simp: fat_get_cl_next_def fat_get_def table_inv_def split: bind_splits)
  ultimately show ?thesis by simp
qed

text \<open>After the scan of the clusters \<open>cs\<close>, all free or end marks.\<close>

definition swept_to :: "cl_t \<Rightarrow> long_bitmap \<Rightarrow> cl_t list \<Rightarrow> 'a fsck_scheme \<Rightarrow> 'a fsck_scheme" where
  "swept_to nx lb cs s = s\<lparr>boot := (boot s)\<lparr>FSNext := nx,
     NumFree := NumFree (boot s) + of_nat (length (filter (\<lambda>c. fat_view s c = CLUST_FREE) cs))\<rparr>,
     fat := (fat s)\<lparr>headbitmap := lb\<rparr>\<rparr>"

definition swept_ok :: "cl_t \<Rightarrow> long_bitmap \<Rightarrow> cl_t list \<Rightarrow> 'a fsck_scheme \<Rightarrow> bool" where
  "swept_ok nx lb cs s \<longleftrightarrow> (FSNext (boot s) \<noteq> 0 \<longrightarrow> nx = FSNext (boot s)) \<and>
     heads lb = fat_heads s - {n. \<exists>c\<in>set cs. n = unat c \<and> fat_view s c = CLUST_FREE} \<and>
     bm_cap lb = bm_cap (headbitmap (fat s))"

lemma swept_table: "same_table s (swept_to nx lb cs s)"
  by (simp add: swept_to_def same_table_def)

lemma swept_id: "swept_ok (FSNext (boot s)) (headbitmap (fat s)) [] s" "swept_to (FSNext (boot s)) (headbitmap (fat s)) [] s = s"
  by (simp_all add: swept_ok_def swept_to_def)

lemma scan_entry_clean:
  assumes "valid_cl s c" "NumClusters (boot s) \<le> 0xffffff8" "unat (NumClusters (boot s)) \<le> bm_cap (headbitmap (fat s))"
    and "fat_view s c = CLUST_FREE \<or> fat_view s c \<ge> CLUST_EOFS"
  shows "\<exists>nx lb. scan_entry c (fat_view s c) ret s = Some (ret, swept_to nx lb [c] s) \<and> swept_ok nx lb [c] s"
proof (cases "fat_view s c = CLUST_FREE")
  case True
  define nx where "nx = (if FSNext (boot s) = 0 then c else FSNext (boot s))"
  let ?s = "s\<lparr>boot := (boot s)\<lparr>FSNext := nx\<rparr>\<rparr>"
  have s: "(if FSNext (boot s) = 0 then s\<lparr>boot := (boot s)\<lparr>FSNext := c\<rparr>\<rparr> else s) = ?s" by (simp add: nx_def)
  have cap: "unat c < bm_cap (headbitmap (fat ?s))"
    using assms(1,3) by (auto simp: valid_cl_def word_less_nat_alt)
  obtain lb where lb: "clear_if_head c ?s = Some (?s\<lparr>fat := (fat ?s)\<lparr>headbitmap := lb\<rparr>\<rparr>)"
    "heads lb = fat_heads ?s - {unat c}" "bm_cap lb = bm_cap (headbitmap (fat ?s))"
    using clear_if_head_ok [OF cap] by blast
  have "scan_entry c (fat_view s c) ret s = Some (ret, swept_to nx lb [c] s)"
    using lb(1) True unfolding scan_entry_def Let_def s by (simp add: swept_to_def)
  moreover have "swept_ok nx lb [c] s" using lb(2,3) True by (simp add: swept_ok_def nx_def)
  ultimately show ?thesis by blast
next
  case False
  with assms(4) have e: "fat_view s c \<ge> CLUST_EOFS" by simp
  have nv: "\<not> valid_cl s (fat_view s c)"
  proof
    assume "valid_cl s (fat_view s c)"
    then have "fat_view s c < 0xffffff8" using assms(2) by (auto simp: valid_cl_def intro: order.strict_trans2)
    with e show False by (simp add: word_le_nat_alt word_less_nat_alt)
  qed
  have "fat_view s c \<noteq> CLUST_BAD" "\<not> fat_view s c < CLUST_RSRVD" using e by (auto simp: word_le_nat_alt word_less_nat_alt)
  then have "scan_entry c (fat_view s c) ret s = Some (ret, s)" using False nv by (simp add: scan_entry_def)
  moreover have "swept_to (FSNext (boot s)) (headbitmap (fat s)) [c] s = s" using False by (simp add: swept_to_def)
  moreover have "swept_ok (FSNext (boot s)) (headbitmap (fat s)) [c] s" using False by (auto simp: swept_ok_def)
  ultimately show ?thesis by metis
qed

lemma swept_trans:
  assumes ok: "swept_ok nx lb [c] s" and ok': "swept_ok nx' lb' cs (swept_to nx lb [c] s)"
  shows "swept_ok nx' lb' (c # cs) s" "swept_to nx' lb' cs (swept_to nx lb [c] s) = swept_to nx' lb' (c # cs) s"
proof -
  have v: "fat_view (swept_to nx lb [c] s) = fat_view s" using same_table_simps(2) [OF swept_table] .
  have p: "FSNext (boot (swept_to nx lb [c] s)) = nx" "headbitmap (fat (swept_to nx lb [c] s)) = lb" by (simp_all add: swept_to_def)
  show "swept_ok nx' lb' (c # cs) s" using ok ok' unfolding swept_ok_def v p by auto
  have "swept_to nx' lb' cs u = u\<lparr>boot := (boot u)\<lparr>FSNext := nx',
     NumFree := NumFree (boot u) + of_nat (length (filter (\<lambda>c. fat_view u c = CLUST_FREE) cs))\<rparr>,
     fat := (fat u)\<lparr>headbitmap := lb'\<rparr>\<rparr>" for u :: "'a fsck_scheme" by (rule swept_to_def)
  note e = this [of "swept_to nx lb [c] s", unfolded v]
  show "swept_to nx' lb' cs (swept_to nx lb [c] s) = swept_to nx' lb' (c # cs) s"
    unfolding e by (simp add: swept_to_def)
qed

lemma readfat_scan_clean:
  assumes "table_inv s" "accessor (fat s) \<noteq> Fat32_cached" "unat (NumClusters (boot s)) \<le> bm_cap (headbitmap (fat s))"
    and "\<forall>c\<in>set cs. valid_cl s c \<and> (fat_view s c = CLUST_FREE \<or> fat_view s c \<ge> CLUST_EOFS)"
  shows "\<exists>nx lb. readfat_scan cs ret s = Some (ret, swept_to nx lb cs s) \<and> swept_ok nx lb cs s"
  using assms
proof (induction cs arbitrary: s)
  case Nil
  then show ?case using swept_id [of s] by (intro exI [of _ "FSNext (boot s)"] exI [of _ "headbitmap (fat s)"]) simp
next
  case (Cons c cs)
  have c: "valid_cl s c" "fat_view s c = CLUST_FREE \<or> fat_view s c \<ge> CLUST_EOFS" using Cons.prems(4) by simp_all
  have n: "NumClusters (boot s) \<le> 0xffffff8" using Cons.prems(1) by (simp add: table_inv_def)
  obtain nx lb where e: "scan_entry c (fat_view s c) ret s = Some (ret, swept_to nx lb [c] s)" "swept_ok nx lb [c] s"
    using scan_entry_clean [OF c(1) n Cons.prems(3) c(2)] by blast
  let ?t = "swept_to nx lb [c] s"
  note st = same_table_simps [OF swept_table [of s nx lb "[c]"]]
  have t: "accessor (fat ?t) = accessor (fat s)" "NumClusters (boot ?t) = NumClusters (boot s)" "headbitmap (fat ?t) = lb"
    by (simp_all add: swept_to_def)
  obtain nx' lb' where r: "readfat_scan cs ret ?t = Some (ret, swept_to nx' lb' cs ?t)" "swept_ok nx' lb' cs ?t"
    using Cons.IH [of ?t] Cons.prems e(2) unfolding st t by (auto simp: swept_ok_def)
  have "scan_step c ret s = Some (ret, ?t)"
    using flat_get [OF Cons.prems(1) c(1) Cons.prems(2)] e(1) by (simp add: scan_step_def)
  with r swept_trans [OF e(2) r(2)] show ?case by auto
qed

section \<open>A fresh table\<close>

text \<open>The bytes of an empty table: the media byte, end marks in the reserved entries, zeros.\<close>

definition fresh_bytes :: "cl_t \<Rightarrow> byte \<Rightarrow> nat \<Rightarrow> byte" where
  "fresh_bytes m media i =
    (if i = 0 then media
     else if i < (if m = CLUST12_MASK then 3 else if m = CLUST16_MASK then 4 else 12)
     then (if m = CLUST32_MASK \<and> i mod 4 = 3 then 0x0f else 0xff) else 0)"

definition mask_accessor :: "cl_t \<Rightarrow> accessors" where
  "mask_accessor m = (if m = CLUST12_MASK then Fat12 else if m = CLUST16_MASK then Fat16 else Fat32)"

text \<open>Number of entries of a table of \<open>n\<close> bytes.\<close>

definition mask_entries :: "cl_t \<Rightarrow> nat \<Rightarrow> nat" where
  "mask_entries m n = (if m = CLUST12_MASK then n * 2 div 3 else if m = CLUST16_MASK then n div 2 else n div 4)"

abbreviation (input) fat_masks :: "cl_t set" where
  "fat_masks \<equiv> {CLUST12_MASK, CLUST16_MASK, CLUST32_MASK}"

lemma fat12_ptr_nat:
  assumes "unat cl < 2 ^ 28"
  shows "fat_get_fat12_ptr cl = unat cl + unat cl div 2"
proof -
  have h: "unat (drop_bit 1 cl) = unat cl div 2" by (simp add: drop_bit_eq_div unat_div_distrib)
  then have "unat cl + unat (drop_bit 1 cl) < 2 ^ 32" using assms by simp
  then show ?thesis unfolding fat_get_fat12_ptr_def using h by (simp add: unat_word_ariths)
qed

lemma fat_ptr_nat:
  assumes "unat cl < 2 ^ 28"
  shows "fat_get_fat16_ptr cl = 2 * unat cl" "fat_get_fat32_ptr cl = 4 * unat cl"
  using assms by (simp_all add: fat_get_fat16_ptr_def fat_get_fat32_ptr_def push_bit_eq_mult unat_word_ariths mult.commute)

lemma fat12_bytes: "(c + 1) * 3 \<le> x * 2 \<Longrightarrow> c + c div 2 + 2 \<le> (x :: nat)"
  by presburger

lemma table_inv_flat:
  assumes mem: "flat_mem_ok s" and m: "m \<in> fat_masks" "accessor (fat s) = mask_accessor m"
    and n: "NumClusters (boot s) \<le> 0xffffff8" "unat (NumClusters (boot s)) \<le> mask_entries m (fatsize (fat s))"
  shows "table_inv s"
proof -
  have cl: "unat cl < 2 ^ 28 \<and> unat cl < mask_entries m (fatsize (fat s))" if "valid_cl s cl" for cl
    using that n by (auto simp: valid_cl_def word_less_nat_alt word_le_nat_alt)
  have "fat_get_fat12_ptr cl + 2 \<le> fatsize (fat s)" if "valid_cl s cl" "m = CLUST12_MASK" for cl
  proof -
    have "unat cl + 1 \<le> fatsize (fat s) * 2 div 3" using cl [OF that(1)] that(2) by (simp add: mask_entries_def)
    then have "(unat cl + 1) * 3 \<le> fatsize (fat s) * 2" by (simp add: less_eq_div_iff_mult_less_eq)
    then have "unat cl + unat cl div 2 + 2 \<le> fatsize (fat s)" by (rule fat12_bytes)
    then show ?thesis using cl [OF that(1)] by (simp add: fat12_ptr_nat)
  qed
  moreover have "fat_get_fat16_ptr cl + 2 \<le> fatsize (fat s)" if "valid_cl s cl" "m = CLUST16_MASK" for cl
    using cl [OF that(1)] that(2) by (simp add: fat_ptr_nat mask_entries_def) linarith
  moreover have "fat_get_fat32_ptr cl + 4 \<le> fatsize (fat s)" if "valid_cl s cl" "m = CLUST32_MASK" for cl
    using cl [OF that(1)] that(2) by (simp add: fat_ptr_nat mask_entries_def) linarith
  ultimately show ?thesis using mem m n(1) by (auto simp: table_inv_def mask_accessor_def)
qed

lemma fresh_view:
  assumes h: "fat_holds f s" and m: "m \<in> fat_masks" "accessor (fat s) = mask_accessor m"
    and inv: "table_inv s" and f: "\<forall>i<fatsize (fat s). f i = fresh_bytes m media i" and v: "valid_cl s cl"
  shows "fat_view s cl = (if m = CLUST32_MASK \<and> cl = 2 then CLUST_EOF else CLUST_FREE)"
proof -
  have lt: "unat cl < 2 ^ 28" using valid_cl_bound [OF inv v] .
  have ge: "2 \<le> unat cl" using v by (simp add: valid_cl_def word_le_nat_alt)
  have ld: "fat_ld s i = Some (fresh_bytes m media i)" if "i < fatsize (fat s)" for i
    using h f that by (simp add: fat_holds_def)
  consider "m = CLUST12_MASK" | "m = CLUST16_MASK" | "m = CLUST32_MASK" using m(1) by blast
  then show ?thesis
  proof cases
    case 1
    let ?p = "fat_get_fat12_ptr cl"
    have p: "?p + 2 \<le> fatsize (fat s)" "3 \<le> ?p"
      using inv v m 1 ge by (auto simp: table_inv_def mask_accessor_def fat12_ptr_nat [OF lt])
    then have "le16dec (fat_ld s) ?p = Some 0" using 1 by (simp add: le16dec_def ld fresh_bytes_def)
    then show ?thesis using 1 m by (simp add: fat_view_def mask_accessor_def fat_get_fat12_next_def)
  next
    case 2
    let ?p = "fat_get_fat16_ptr cl"
    have p: "?p + 2 \<le> fatsize (fat s)" "4 \<le> ?p"
      using inv v m 2 ge by (auto simp: table_inv_def mask_accessor_def fat_ptr_nat [OF lt])
    then have "le16dec (fat_ld s) ?p = Some 0" using 2 by (simp add: le16dec_def ld fresh_bytes_def)
    then show ?thesis using 2 m by (simp add: fat_view_def mask_accessor_def fat_get_fat16_next_def)
  next
    case 3
    let ?p = "fat_get_fat32_ptr cl"
    have p: "?p + 4 \<le> fatsize (fat s)" "?p = 4 * unat cl"
      using inv v m 3 by (auto simp: table_inv_def mask_accessor_def fat_ptr_nat [OF lt])
    show ?thesis
    proof (cases "cl = 2")
      case True
      then have "le32dec (fat_ld s) ?p = Some 0xfffffff" using 3 p by (simp add: le32dec_def ld fresh_bytes_def)
      then show ?thesis using 3 m True by (simp add: fat_view_def mask_accessor_def fat_get_fat32_next_def)
    next
      case False
      then have "unat cl \<noteq> 2" by (simp add: word_unat_eq_iff)
      with ge have "12 \<le> ?p" using p(2) by simp
      then have "le32dec (fat_ld s) ?p = Some 0" using 3 p by (simp add: le32dec_def ld fresh_bytes_def)
      then show ?thesis using 3 m False by (simp add: fat_view_def mask_accessor_def fat_get_fat32_next_def)
    qed
  qed
qed

lemma fresh_signature:
  assumes h: "fat_holds f s" and m: "ClustMask (boot s) \<in> fat_masks"
    and f: "\<forall>i<fatsize (fat s). f i = fresh_bytes (ClustMask (boot s)) (ucast (bpbMedia (boot s))) i"
    and media: "bpbMedia (boot s) < 0x100" and sz: "8 \<le> fatsize (fat s)"
  shows "readfat_signature s = Some (FSOK, s)"
proof -
  have ld: "fat_ld s i = Some (fresh_bytes (ClustMask (boot s)) (ucast (bpbMedia (boot s))) i)" if "i < 8" for i
    using h f that sz by (simp add: fat_holds_def)
  have "\<forall>i\<in>{..<sig_len (boot s)}. fat_ld s i \<noteq> None" using ld by (auto simp: sig_len_def split: if_splits)
  then have b: "fat_bytes (sig_len (boot s)) s = Some (\<lambda>i. the (fat_ld s i))" by (simp add: fat_bytes_def)
  have "ucast (ucast (bpbMedia (boot s)) :: byte) = bpbMedia (boot s)"
    using media by (simp add: word_unat_eq_iff unsigned_ucast_eq take_bit_nat_eq_self word_less_nat_alt unsigned_take_bit_eq)
  then have "\<not> sig_odd (boot s) (\<lambda>i. the (fat_ld s i))"
    using m by (auto simp: sig_odd_def ld fresh_bytes_def)
  then show ?thesis by (simp add: readfat_signature_def b)
qed

definition fat_bytes_len :: "bootblock \<Rightarrow> nat" where
  "fat_bytes_len b = unat (FATsecs b * bpbBytesPerSec b)"

text \<open>A device with an empty table, as far as \<open>readfat\<close> is concerned.\<close>

definition fresh_fat :: "'a fsck_scheme \<Rightarrow> bool" where
  "fresh_fat s \<longleftrightarrow> (let b = boot s; n = fat_bytes_len b in
     ClustMask b \<in> fat_masks \<and> bpbMedia b < 0x100 \<and> 8 \<le> n \<and> fat_start b + n \<le> blen (dev s) \<and>
     NumClusters b \<le> 0xffffff8 \<and> unat (NumClusters b) \<le> mask_entries (ClustMask b) n \<and>
     (allow_mmap s \<and> mmap_faults s = [] \<or> \<not> (ClustMask b = CLUST32_MASK \<and> n \<ge> fat32_cache_size)) \<and>
     (\<forall>i<n. bdat (dev s) (fat_start b + i) = fresh_bytes (ClustMask b) (ucast (bpbMedia b)) i))"

text \<open>The state after \<open>readfat\<close>.\<close>

definition fat_ready :: "'a fsck_scheme \<Rightarrow> 'a fsck_scheme \<Rightarrow> bool" where
  "fat_ready s t \<longleftrightarrow> quiet s t \<and> no_faults t \<and> fsck.more t = fsck.more s \<and> table_inv t \<and>
     accessor (fat t) \<noteq> Fat32_cached \<and> unat (NumClusters (boot t)) \<le> bm_cap (headbitmap (fat t)) \<and>
     (\<exists>nx nf. boot t = (boot s)\<lparr>NumBad := 0, FSNext := nx, NumFree := nf\<rparr> \<and>
        (FSNext (boot s) \<noteq> 0 \<longrightarrow> nx = FSNext (boot s))) \<and>
     (\<forall>c. valid_cl t c \<longrightarrow> fat_view t c = (if ClustMask (boot s) = CLUST32_MASK \<and> c = 2 then CLUST_EOF else CLUST_FREE) \<and>
        (unat c \<in> fat_heads t \<longleftrightarrow> ClustMask (boot s) = CLUST32_MASK \<and> c = 2))"

lemma bitmap_ctor_all:
  assumes "no_faults s" "unat bits < 2 ^ 32"
  shows "\<exists>lb. bitmap_ctor bits True s = ((FSOK, lb), s) \<and> heads lb = {..<bm_cap lb} \<and> unat bits \<le> bm_cap lb"
proof -
  obtain lb where lb: "bitmap_ctor bits True s = ((FSOK, lb), s)"
    by (auto simp: bitmap_ctor_def malloc_ok [OF assms(1)] Let_def)
  from bitmap_ctor_heads [OF this assms(2)] lb show ?thesis by (auto simp: bm_inv_def)
qed

lemma fat_holds_upd [simp]:
  "fat_holds f (s\<lparr>fat := (fat s)\<lparr>accessor := a\<rparr>\<rparr>) = fat_holds f s"
  "fat_holds f (s\<lparr>fat := (fat s)\<lparr>headbitmap := lb\<rparr>\<rparr>) = fat_holds f s"
  "fat_holds f (s\<lparr>fat := (fat s)\<lparr>accessor := a, headbitmap := lb\<rparr>\<rparr>) = fat_holds f s"
  by (simp_all add: fat_holds_def flat_mem_ok_def fat_ld_def cong: if_cong)

lemma readfat_fresh:
  assumes ff: "fresh_fat s" and nf: "no_faults s"
  shows "\<exists>t. readfat s = Some (FSOK, t) \<and> fat_ready s t"
proof -
  let ?m = "ClustMask (boot s)" and ?n = "fat_bytes_len (boot s)"
  define f where "f i = bdat (dev s) (fat_start (boot s) + i)" for i
  have D: "?m \<in> fat_masks" "bpbMedia (boot s) < 0x100" "8 \<le> ?n" "fat_start (boot s) + ?n \<le> blen (dev s)"
    "NumClusters (boot s) \<le> 0xffffff8" "unat (NumClusters (boot s)) \<le> mask_entries ?m ?n"
    "allow_mmap s \<and> mmap_faults s = [] \<or> \<not> (?m = CLUST32_MASK \<and> ?n \<ge> fat32_cache_size)"
    "\<forall>i<?n. f i = fresh_bytes ?m (ucast (bpbMedia (boot s))) i"
    using ff unfolding fresh_fat_def Let_def f_def by blast+
  define s1 where "s1 = s\<lparr>boot := (boot s)\<lparr>NumFree := 0, NumBad := 0\<rparr>, fat := zero_fat\<rparr>"
  have s1: "boot s1 = (boot s)\<lparr>NumFree := 0, NumBad := 0\<rparr>" "no_faults s1" "dev s1 = dev s" "quiet s s1"
    "fat_start (boot s1) = fat_start (boot s)" "fsck.more s1 = fsck.more s"
    using nf by (simp_all add: s1_def no_faults_def quiet_def opts_def fat_start_def)
  obtain s2 where s2: "readfat_table s1 = Some (True, s2)" "loaded s1 s2" "fat_holds f s2"
    "fatsize (fat s2) = ?n" "use_cache (fat s2) = False"
    using readfat_table_loads [OF s1(2)] D(4,7) unfolding f_def fat_bytes_len_def
    by (auto simp: s1 s1_def fat_start_def)
  have b2: "boot s2 = boot s1" "no_faults s2" "quiet s1 s2" "fsck.more s2 = fsck.more s1"
    using s2(2) by (auto simp: loaded_def)
  define s3 where "s3 = s2\<lparr>fat := (fat s2)\<lparr>accessor := mask_accessor ?m\<rparr>\<rparr>"
  have acc: "readfat_accessor (boot s2) (fat s2) = Some (mask_accessor ?m)"
    using D(1) s2(5) by (auto simp: readfat_accessor_def b2 s1 mask_accessor_def)
  have nf3: "no_faults s3" using b2(2) by (simp add: s3_def no_faults_def)
  have n32: "unat (NumClusters (boot s)) < 2 ^ 32" using D(5) by (simp add: word_le_nat_alt)
  let ?bits = "ucast (NumClusters (boot s)) :: u64"
  have ub: "unat ?bits = unat (NumClusters (boot s))" using n32 by (simp add: unsigned_ucast_eq take_bit_nat_eq_self)
  obtain lb where lb: "bitmap_ctor ?bits True s3 = ((FSOK, lb), s3)"
    "heads lb = {..<bm_cap lb}" "unat (NumClusters (boot s)) \<le> bm_cap lb"
    using bitmap_ctor_all [OF nf3, of ?bits] n32 unfolding ub by blast
  define s4 where "s4 = s3\<lparr>fat := (fat s3)\<lparr>headbitmap := lb\<rparr>\<rparr>"
  have s4: "boot s4 = boot s1" "fatsize (fat s4) = ?n" "accessor (fat s4) = mask_accessor ?m"
    "headbitmap (fat s4) = lb" "fat_holds f s4" "no_faults s4" "quiet s s4" "fsck.more s4 = fsck.more s"
    using s2(3,4) b2 s1(4,6) by (simp_all add: s4_def s3_def no_faults_def quiet_def opts_def)
  have bf: "ClustMask (boot s4) = ?m" "bpbMedia (boot s4) = bpbMedia (boot s)" "NumClusters (boot s4) = NumClusters (boot s)"
    by (simp_all add: s4 s1)
  have inv: "table_inv s4"
    using s4(5) D(1,5,6) by (intro table_inv_flat [of _ ?m]) (simp_all add: s4(2,3) bf fat_holds_def)
  have sig: "readfat_signature s4 = Some (FSOK, s4)"
    using D(1-3,8) s4(2) by (intro fresh_signature [OF s4(5)]) (simp_all add: bf)
  have view: "fat_view s4 c = (if ?m = CLUST32_MASK \<and> c = 2 then CLUST_EOF else CLUST_FREE)" if "valid_cl s4 c" for c
    by (rule fresh_view [OF s4(5) D(1) s4(3) inv D(8) [folded s4(2)] that])
  have flat: "accessor (fat s4) \<noteq> Fat32_cached" by (simp add: s4(3) mask_accessor_def)
  have all: "\<forall>c\<in>set (clusters (boot s4)). valid_cl s4 c \<and> (fat_view s4 c = CLUST_FREE \<or> fat_view s4 c \<ge> CLUST_EOFS)"
    unfolding clusters_set using view by auto
  obtain nx lb' where sc: "readfat_scan (clusters (boot s4)) FSOK s4 = Some (FSOK, swept_to nx lb' (clusters (boot s4)) s4)"
    "swept_ok nx lb' (clusters (boot s4)) s4"
    using readfat_scan_clean [OF inv flat _ all, of FSOK] lb(3) unfolding s4(4) bf by blast
  let ?t = "swept_to nx lb' (clusters (boot s4)) s4"
  note st = same_table_simps [OF swept_table [of s4 nx lb' "clusters (boot s4)"]]
  have n3: "NumClusters (boot s3) = NumClusters (boot s)" by (simp add: s3_def b2 s1)
  have "readfat s = Some (FSOK, ?t)"
    unfolding readfat_def Let_def
    using malloc_ok [of "s\<lparr>boot := (boot s)\<lparr>NumFree := 0, NumBad := 0\<rparr>\<rparr>" 1] nf s2(1) acc lb(1) sig sc(1)
    by (simp add: s1_def [symmetric] s3_def [symmetric] s4_def [symmetric] no_faults_def b2(1) n3)
  moreover have "fat_ready s ?t"
    unfolding fat_ready_def
  proof (intro conjI)
    show "quiet s ?t" "no_faults ?t" "fsck.more ?t = fsck.more s" "accessor (fat ?t) \<noteq> Fat32_cached"
      using s4 flat by (simp_all add: swept_to_def quiet_def opts_def no_faults_def)
    show "table_inv ?t" unfolding st by (rule inv)
    show "unat (NumClusters (boot ?t)) \<le> bm_cap (headbitmap (fat ?t))"
      using sc(2) lb(3) by (simp add: swept_to_def swept_ok_def s4(4) bf)
    show "\<exists>nx nf. boot ?t = (boot s)\<lparr>NumBad := 0, FSNext := nx, NumFree := nf\<rparr> \<and>
        (FSNext (boot s) \<noteq> 0 \<longrightarrow> nx = FSNext (boot s))"
    proof (intro exI conjI)
      show "boot ?t = (boot s)\<lparr>NumBad := 0, FSNext := nx,
          NumFree := of_nat (length (filter (\<lambda>c. fat_view s4 c = CLUST_FREE) (clusters (boot s4))))\<rparr>"
        unfolding swept_to_def by (simp add: s4(1) s1(1))
      show "FSNext (boot s) \<noteq> 0 \<longrightarrow> nx = FSNext (boot s)"
        using sc(2) unfolding swept_ok_def by (simp add: s4(1) s1(1))
    qed
    have hd: "unat c \<in> heads lb' \<longleftrightarrow> ?m = CLUST32_MASK \<and> c = 2" if "valid_cl s4 c" for c
    proof -
      have "unat c < bm_cap lb" using that lb(3) by (auto simp: valid_cl_def word_less_nat_alt bf)
      moreover have "unat c \<in> {n. \<exists>c\<in>set (clusters (boot s4)). n = unat c \<and> fat_view s4 c = CLUST_FREE} \<longleftrightarrow> fat_view s4 c = CLUST_FREE"
        unfolding clusters_set using that by (auto dest: unsigned_word_eqI)
      ultimately show ?thesis using sc(2) lb(2) view [OF that] by (simp add: swept_ok_def s4(4))
    qed
    show "\<forall>c. valid_cl ?t c \<longrightarrow> fat_view ?t c = (if ?m = CLUST32_MASK \<and> c = 2 then CLUST_EOF else CLUST_FREE) \<and>
        (unat c \<in> fat_heads ?t \<longleftrightarrow> ?m = CLUST32_MASK \<and> c = 2)"
      unfolding st using view hd by (simp add: swept_to_def)
  qed
  ultimately show ?thesis by blast
qed

section \<open>A directory without entries\<close>

text \<open>Empty slots, except perhaps for a volume label in the first one.\<close>

definition blank_slots :: "(nat \<Rightarrow> byte) \<Rightarrow> nat \<Rightarrow> bool" where
  "blank_slots f n \<longleftrightarrow> (\<forall>i<n. i \<noteq> 0 \<longrightarrow> f (32 * i) = 0) \<and>
     (f 0 = 0 \<or> f 0 \<noteq> SLOT_DELETED \<and> f 11 AND ATTR_VOLUME \<noteq> 0 \<and> f 11 \<noteq> ATTR_WIN95)"

definition set_flags :: "nat \<Rightarrow> u32 \<Rightarrow> dirs \<Rightarrow> dirs" where
  "set_flags d fl s = s\<lparr>deheap := (deheap s)[d := (deheap s ! d)\<lparr>de_fsckflags := fl\<rparr>]\<rparr>"

lemma dir_entry_blank:
  assumes b: "live (buffer s) = Some b" "p + 32 \<le> blen b" "bdat b p = 0"
    and d: "d < length (deheap s)" "de_fsckflags (deheap s ! d) AND DIREMPWARN = 0"
  shows "dir_entry d p sc s = Some ((Cont, sc\<lparr>empty_p := Some p, empcl := cur_cl sc\<rparr>),
    set_flags d (de_fsckflags (deheap s ! d) OR DIREMPTY) s)"
  using assms by (simp add: dir_entry_def get_de_def slot_def upd_de_def set_flags_def)

lemma dir_entry_label:
  assumes b: "live (buffer s) = Some b" "p + 32 \<le> blen b"
    and l: "bdat b p \<noteq> 0" "bdat b p \<noteq> SLOT_DELETED" "bdat b (p + 11) AND ATTR_VOLUME \<noteq> 0" "bdat b (p + 11) \<noteq> ATTR_WIN95"
    and d: "d < length (deheap s)" "de_fsckflags (deheap s ! d) = 0" and sc: "vallfn sc = None" "invlfn sc = None"
  shows "dir_entry d p sc s = Some ((Cont, sc), s)"
  using assms
  by (simp add: dir_entry_def get_de_def slot_def entry_after_end_def entry_short_def entry_volume_def split: prod.split)

lemma or_empty_warn: "(fl :: u32) AND DIREMPWARN = 0 \<Longrightarrow> (fl OR DIREMPTY) AND DIREMPWARN = 0"
  by (simp add: bit.conj_disj_distrib2)

lemma dir_entries_blank:
  assumes "live (buffer s) = Some b" "p + 32 * n \<le> blen b" "\<forall>i<n. bdat b (p + 32 * i) = 0"
    and "d < length (deheap s)" "de_fsckflags (deheap s ! d) AND DIREMPWARN = 0"
  shows "\<exists>x y fl. dir_entries n d p sc s = Some ((Fall, sc\<lparr>empty_p := x, empcl := y\<rparr>), set_flags d fl s)"
  using assms
proof (induction n arbitrary: p sc s)
  case 0
  have "sc\<lparr>empty_p := empty_p sc, empcl := empcl sc\<rparr> = sc" "set_flags d (de_fsckflags (deheap s ! d)) s = s"
    by (simp_all add: set_flags_def)
  then show ?case by (metis dir_entries.simps(1))
next
  case (Suc n)
  let ?sc = "sc\<lparr>empty_p := Some p, empcl := cur_cl sc\<rparr>" and ?s = "set_flags d (de_fsckflags (deheap s ! d) OR DIREMPTY) s"
  have 0: "bdat b p = 0" using Suc.prems(3) by (metis add_0_right mult_0_right zero_less_Suc)
  have e: "dir_entry d p sc s = Some ((Cont, ?sc), ?s)"
    by (rule dir_entry_blank [OF Suc.prems(1) _ 0 Suc.prems(4,5)]) (use Suc.prems(2) in simp)
  have z: "\<forall>i<n. bdat b (p + 32 + 32 * i) = 0"
  proof (intro allI impI)
    fix i assume "i < n"
    then have "bdat b (p + 32 * Suc i) = 0" using Suc.prems(3) by blast
    then show "bdat b (p + 32 + 32 * i) = 0" by (simp add: add.assoc)
  qed
  have s: "live (buffer ?s) = Some b" "d < length (deheap ?s)" "de_fsckflags (deheap ?s ! d) AND DIREMPWARN = 0"
    using Suc.prems(1,4,5) or_empty_warn by (simp_all add: set_flags_def)
  obtain x y fl where "dir_entries n d (p + 32) ?sc ?s = Some ((Fall, ?sc\<lparr>empty_p := x, empcl := y\<rparr>), set_flags d fl ?s)"
    using Suc.IH [OF s(1) _ z s(2,3), of ?sc] Suc.prems(2) by auto
  moreover have "set_flags d fl ?s = set_flags d fl s" using Suc.prems(4) by (simp add: set_flags_def)
  ultimately show ?case using e by auto
qed

lemma dir_entries_root:
  assumes b: "live (buffer s) = Some b" "32 * n \<le> blen b" "blank_slots (bdat b) n"
    and d: "d < length (deheap s)" "de_fsckflags (deheap s ! d) = 0" and sc: "vallfn sc = None" "invlfn sc = None"
  shows "\<exists>x y fl. dir_entries n d 0 sc s = Some ((Fall, sc\<lparr>empty_p := x, empcl := y\<rparr>), set_flags d fl s)"
proof (cases "bdat b 0 = 0 \<or> n = 0")
  case True
  then have "\<forall>i<n. bdat b (0 + 32 * i) = 0"
    using b(3) by (auto simp: blank_slots_def)
  then show ?thesis using dir_entries_blank [OF b(1) _ _ d(1), of 0 n sc] b(2) d(2) by simp
next
  case False
  then obtain k where k: "n = Suc k" by (cases n) auto
  have e: "dir_entry d 0 sc s = Some ((Cont, sc), s)"
    using False b(3) b(2) by (intro dir_entry_label [OF b(1) _ _ _ _ _ d sc]) (auto simp: blank_slots_def k)
  have "\<forall>i<k. bdat b (32 + 32 * i) = 0"
  proof (intro allI impI)
    fix i assume "i < k"
    then have "bdat b (32 * Suc i) = 0" using b(3) k unfolding blank_slots_def by blast
    then show "bdat b (32 + 32 * i) = 0" by simp
  qed
  then obtain x y fl where "dir_entries k d 32 sc s = Some ((Fall, sc\<lparr>empty_p := x, empcl := y\<rparr>), set_flags d fl s)"
    using dir_entries_blank [OF b(1) _ _ d(1), of 32 k sc] b(2) d(2) k by auto
  then show ?thesis using e by (intro exI [of _ x] exI [of _ y] exI [of _ fl]) (simp add: k)
qed

section \<open>The root directory\<close>

text \<open>The root as \<open>resetDosDirSection\<close> leaves it.\<close>

definition root_ready :: "nat \<Rightarrow> dirs \<Rightarrow> bool" where
  "root_ready d s \<longleftrightarrow> (\<exists>b. buffer s = Live b \<and> unat (bpbRootDirEnts (boot s) * 32) \<le> blen b \<and>
       unat (bpbSecPerClust (boot s) * bpbBytesPerSec (boot s)) \<le> blen b) \<and> (\<exists>b. delbuf s = Live b) \<and>
     rootDir s = Some d \<and> d < length (deheap s) \<and> freede s = None \<and>
     deheap s ! d = zero_de\<lparr>de_head := if is_fat32 (boot s) then bpbRootClust (boot s) else 0\<rparr>"

lemma reset_fresh:
  assumes nf: "no_faults s" and fr: "freede s = None"
    and h: "is_fat32 (boot s) \<Longrightarrow> fat_is_cl_head (bpbRootClust (boot s)) s = Some True"
  shows "\<exists>t d. resetDosDirSection s = Some (FSOK, t) \<and> root_ready d t \<and> quiet s t \<and> no_faults t \<and>
    boot t = boot s \<and> fat t = fat s \<and> pendingDirectories t = pendingDirectories s \<and> lfbuf t = lfbuf s"
proof -
  let ?r = "unat (bpbRootDirEnts (boot s) * 32)" and ?c = "unat (bpbSecPerClust (boot s) * bpbBytesPerSec (boot s))"
  let ?d = "length (deheap s)"
  let ?e = "zero_de\<lparr>de_head := if is_fat32 (boot s) then bpbRootClust (boot s) else 0\<rparr>"
  let ?t = "s\<lparr>buffer := Live \<lparr>blen = max ?r ?c, bdat = junk s\<rparr>, delbuf := Live \<lparr>blen = ?c, bdat = junk s\<rparr>,
     deheap := deheap s @ [?e], rootDir := Some ?d\<rparr>"
  have m: "malloc n (s\<lparr>buffer := x\<rparr>) = (Some \<lparr>blen = n, bdat = junk s\<rparr>, s\<lparr>buffer := x\<rparr>)"
    "malloc n (s\<lparr>buffer := x, delbuf := y\<rparr>) = (Some \<lparr>blen = n, bdat = junk s\<rparr>, s\<lparr>buffer := x, delbuf := y\<rparr>)" for n x y
    using nf by (simp_all add: malloc_def pop_fault_def no_faults_def)
  have hd: "fat_is_cl_head c (s\<lparr>buffer := x, delbuf := y, rootDir := r, deheap := z\<rparr>) = fat_is_cl_head c s" for c x y z r
    by (simp add: fat_is_cl_head_def)
  have "resetDosDirSection s = Some (FSOK, ?t)"
    using h by (auto simp: resetDosDirSection_def Let_def malloc_ok [OF nf] m newDosDirEntry_def fr upd_de_def hd zero_de_def)
  moreover have "root_ready ?d ?t" using fr by (simp add: root_ready_def is_fat32_def)
  ultimately show ?thesis
    using nf by (intro exI [of _ ?t] exI [of _ ?d]) (simp add: quiet_def opts_def no_faults_def)
qed

lemma buffer_read_ok:
  assumes "buffer s = Live b" "n \<le> blen b" "io_faults s = []" "off + n \<le> blen (dev s)"
  shows "buffer_read off n s = Some (True, s\<lparr>io_faults := [], pos := off + n,
     buffer := Live (b\<lparr>bdat := blit (bdat (dev s)) off n (bdat b) 0\<rparr>)\<rparr>)"
  using assms by (simp add: buffer_read_def live_def seek_read_nofault)

lemma blank_slots_read:
  assumes "blank_slots (\<lambda>k. f (off + k)) n" "32 * n \<le> m" "0 < n"
  shows "blank_slots (blit f off m g 0) n"
  using assms by (auto simp: blank_slots_def add.commute)

lemma dir_finish_clean:
  assumes "vallfn sc = None" "invlfn sc = None" "rmod sc = 0"
  shows "dir_finish leg iosize entries sc s = Some (FSOK, s)"
  using assms by (simp add: dir_finish_def)

lemma set_flags_simps [simp]:
  "dev (set_flags d fl s) = dev s" "writes (set_flags d fl s) = writes s" "opts (set_flags d fl s) = opts s"
  "no_faults (set_flags d fl s) = no_faults s" "boot (set_flags d fl s) = boot s" "fat (set_flags d fl s) = fat s"
  "pendingDirectories (set_flags d fl s) = pendingDirectories s" "lfbuf (set_flags d fl s) = lfbuf s"
  "rootDir (set_flags d fl s) = rootDir s" "buffer (set_flags d fl s) = buffer s" "delbuf (set_flags d fl s) = delbuf s"
  "freede (set_flags d fl s) = freede s" "length (deheap (set_flags d fl s)) = length (deheap s)"
  "d < length (deheap s) \<Longrightarrow> deheap (set_flags d fl s) ! d = (deheap s ! d)\<lparr>de_fsckflags := fl\<rparr>"
  by (simp_all add: set_flags_def opts_def no_faults_def)

lemma quiet_set_flags [simp]: "quiet s (set_flags d fl u) = quiet s u"
  by (simp add: quiet_def)

text \<open>The state after the root has been read.\<close>

definition root_read :: "nat \<Rightarrow> dirs \<Rightarrow> dirs \<Rightarrow> bool" where
  "root_read d s t \<longleftrightarrow> quiet s t \<and> no_faults t \<and> boot t = boot s \<and> pendingDirectories t = pendingDirectories s \<and>
     lfbuf t = lfbuf s \<and> rootDir t = rootDir s \<and> delbuf t = delbuf s \<and> (\<exists>b. buffer t = Live b) \<and> freede t = freede s \<and>
     d < length (deheap t) \<and> (\<exists>fl. deheap t ! d = (deheap s ! d)\<lparr>de_fsckflags := fl\<rparr>)"

lemma read_legacy_root:
  assumes r: "root_ready d s" "no_faults s" "\<not> is_fat32 (boot s)" "bpbRootDirEnts (boot s) \<noteq> 0" "bpbRootDirEnts (boot s) \<le> 0xffff"
    and dev: "root_off (boot s) + 32 * unat (bpbRootDirEnts (boot s)) \<le> blen (dev s)"
      "blank_slots (\<lambda>k. bdat (dev s) (root_off (boot s) + k)) (unat (bpbRootDirEnts (boot s)))"
  shows "\<exists>t. readDosDirSection d s = Some (FSOK, t) \<and> root_read d s t \<and> fat t = fat s"
proof -
  let ?n = "unat (bpbRootDirEnts (boot s))" and ?off = "root_off (boot s)"
  have n: "unat (bpbRootDirEnts (boot s) * 32) = 32 * ?n" "0 < ?n"
    using r(4,5) by (simp_all add: word_le_nat_alt unat_word_ariths unat_gt_0)
  obtain b where b: "buffer s = Live b" "32 * ?n \<le> blen b" using r(1) n(1) by (auto simp: root_ready_def)
  have d: "d < length (deheap s)" "deheap s ! d = zero_de" "get_de d s = Some zero_de"
    using r(1,3) by (auto simp: root_ready_def get_de_def zero_de_def)
  let ?b = "b\<lparr>bdat := blit (bdat (dev s)) ?off (32 * ?n) (bdat b) 0\<rparr>"
  define u where "u = s\<lparr>io_faults := [], pos := ?off + 32 * ?n, buffer := Live ?b\<rparr>"
  have rd: "buffer_read ?off (32 * ?n) s = Some (True, u)"
    unfolding u_def using r(2) b dev(1) by (intro buffer_read_ok) (simp_all add: no_faults_def)
  have "blank_slots (bdat ?b) ?n" using blank_slots_read [OF dev(2) _ n(2)] by simp
  then obtain x y fl where de: "dir_entries ?n d 0 (scan0 0 0) u = Some ((Fall, (scan0 0 0)\<lparr>empty_p := x, empcl := y\<rparr>), set_flags d fl u)"
    using dir_entries_root [of u ?b ?n d "scan0 0 0"] b d by (auto simp: u_def live_def zero_de_def scan0_def)
  have "dir_clusters d True (32 * ?n) ?n (scan0 0 0) s = Some ((Fall, (scan0 0 0)\<lparr>empty_p := x, empcl := y\<rparr>), set_flags d fl u)"
    by (subst dir_clusters.simps) (simp add: rd de)
  then have "readDosDirSection d s = Some (FSOK, set_flags d fl u)"
    using r(3) by (simp add: readDosDirSection_def d(3) zero_de_def n(1) dir_finish_clean scan0_def)
  moreover have "quiet s u" "no_faults u" "boot u = boot s" "pendingDirectories u = pendingDirectories s" "lfbuf u = lfbuf s"
    "rootDir u = rootDir s" "delbuf u = delbuf s" "buffer u = Live ?b" "freede u = freede s" "deheap u = deheap s" "fat u = fat s"
    using r(2) by (simp_all add: u_def quiet_def opts_def no_faults_def)
  ultimately show ?thesis
    using d(1) by (intro exI [of _ "set_flags d fl u"]) (auto simp: root_read_def)
qed

lemma checkchain_single:
  assumes inv: "table_inv s" "accessor (fat s) \<noteq> Fat32_cached" and c: "valid_cl s c" "unat c \<in> fat_heads s"
    and e: "fat_view s c = CLUST_EOF"
  shows "\<exists>lb. checkchain c s = Some ((FSOK, 1), s\<lparr>fat := (fat s)\<lparr>headbitmap := lb\<rparr>\<rparr>) \<and>
    heads lb = fat_heads s - {unat c} \<and> bm_cap lb = bm_cap (headbitmap (fat s))"
proof -
  obtain lb where lb: "bitmap_clear (headbitmap (fat s)) c = Some lb" "heads lb = fat_heads s - {unat c}"
    "bm_cap lb = bm_cap (headbitmap (fat s))"
    using bitmap_clear_heads [OF c(2)] by metis
  have get: "bitmap_get (headbitmap (fat s)) c = Some True"
    using c(2) by (subst bitmap_get_heads) (auto simp: heads_def)
  let ?u = "s\<lparr>fat := (fat s)\<lparr>headbitmap := lb\<rparr>\<rparr>"
  note us = same_table_simps [OF same_table_upd(1), of lb s]
  have g: "fat_get_cl_next c ?u = Some (CLUST_EOF, ?u)"
    using flat_get [of ?u c] us inv c(1) e by simp
  have "chain_walk c c CLUST_EOF 0 ?u = Some ((c, c, CLUST_EOF, 0), ?u)"
    by (subst chain_walk.simps) (use EOF_not_valid [of ?u] in simp)
  then have "checkchain c s = Some ((FSOK, 1), ?u)"
    using c(1) get lb(1) g by (simp add: checkchain_def fat_is_cl_head_def fat_clear_cl_head_def checkchain_fix_def)
  with lb show ?thesis by blast
qed

lemma read_fat32_root:
  fixes s :: dirs
  defines "c \<equiv> bpbRootClust (boot s)" and "m \<equiv> unat (bpbSecPerClust (boot s) * bpbBytesPerSec (boot s))"
  assumes r: "root_ready d s" "no_faults s" "is_fat32 (boot s)" and m: "32 \<le> m"
    and inv: "table_inv s" "accessor (fat s) \<noteq> Fat32_cached" and c: "valid_cl s c" "unat c \<in> fat_heads s"
    and e: "fat_view s c = CLUST_EOF"
    and dev: "cluster_off (boot s) c + m \<le> blen (dev s)"
      "blank_slots (\<lambda>k. bdat (dev s) (cluster_off (boot s) c + k)) (m div 32)"
  shows "\<exists>t lb. readDosDirSection d s = Some (FSOK, t) \<and> root_read d s t \<and> fat t = (fat s)\<lparr>headbitmap := lb\<rparr> \<and>
    heads lb = fat_heads s - {unat c} \<and> bm_cap lb = bm_cap (headbitmap (fat s))"
proof -
  let ?n = "m div 32" and ?off = "cluster_off (boot s) c"
  have n: "32 * ?n \<le> m" "0 < ?n" using m by (simp_all add: div_greater_zero_iff)
  obtain lb where cc: "checkchain c s = Some ((FSOK, 1), s\<lparr>fat := (fat s)\<lparr>headbitmap := lb\<rparr>\<rparr>)"
    "heads lb = fat_heads s - {unat c}" "bm_cap lb = bm_cap (headbitmap (fat s))"
    using checkchain_single [OF inv c e] by blast
  define v where "v = s\<lparr>fat := (fat s)\<lparr>headbitmap := lb\<rparr>\<rparr>"
  obtain b where b: "buffer v = Live b" "m \<le> blen b" using r(1) by (auto simp: root_ready_def v_def m_def)
  have d: "d < length (deheap s)" "deheap s ! d = zero_de\<lparr>de_head := c\<rparr>"
    using r(1,3) by (auto simp: root_ready_def c_def)
  let ?b = "b\<lparr>bdat := blit (bdat (dev s)) ?off m (bdat b) 0\<rparr>"
  define u where "u = v\<lparr>io_faults := [], pos := ?off + m, buffer := Live ?b\<rparr>"
  have rd: "buffer_read ?off m v = Some (True, u)"
    unfolding u_def using r(2) b dev(1) buffer_read_ok [of v b m ?off] by (simp add: no_faults_def v_def)
  have "blank_slots (bdat ?b) ?n" using blank_slots_read [OF dev(2) n] by simp
  then obtain x y fl where de: "dir_entries ?n d 0 (scan0 c 0) u = Some ((Fall, (scan0 c 0)\<lparr>empty_p := x, empcl := y\<rparr>), set_flags d fl u)"
    using dir_entries_root [of u ?b ?n d "scan0 c 0"] b d n by (auto simp: u_def v_def live_def zero_de_def scan0_def)
  let ?t = "set_flags d fl u"
  have st: "same_table s ?t" by (simp add: same_table_def set_flags_def u_def v_def) (use r(2) in \<open>simp add: no_faults_def\<close>)
  note ss = same_table_simps [OF st]
  have g: "fat_get_cl_next c ?t = Some (CLUST_EOF, ?t)"
    using flat_get [of ?t c] ss inv c(1) e by (simp add: u_def v_def)
  let ?sc = "(scan0 c 0)\<lparr>empty_p := x, empcl := y, rmod := 0, cur_cl := CLUST_EOF\<rparr>"
  have bv: "boot v = boot s" "boot u = boot s" by (simp_all add: u_def v_def)
  have sf: "cur_cl (scan0 c 0) = c" "rmod (scan0 c 0) = 0" by (simp_all add: scan0_def)
  have "dir_clusters d False m ?n (scan0 c 0) v = Some ((Fall, ?sc), ?t)"
    by (subst dir_clusters.simps)
       (simp add: rd de g bv sf Let_def fat_is_valid_cl_def EOF_not_valid has_def)
  then have "readDosDirSection d s = Some (FSOK, ?t)"
    using r(3) cc(1) d by (simp add: readDosDirSection_def get_de_def zero_de_def m_def [symmetric] v_def [symmetric]
        dir_finish_clean scan0_def)
  moreover have "quiet s u" "no_faults u" "boot u = boot s" "pendingDirectories u = pendingDirectories s" "lfbuf u = lfbuf s"
    "rootDir u = rootDir s" "delbuf u = delbuf s" "buffer u = Live ?b" "freede u = freede s" "deheap u = deheap s"
    "fat u = (fat s)\<lparr>headbitmap := lb\<rparr>"
    using r(2) by (simp_all add: u_def v_def quiet_def opts_def no_faults_def)
  ultimately show ?thesis
    using d(1) cc(2,3) by (intro exI [of _ ?t] exI [of _ lb]) (auto simp: root_read_def)
qed

section \<open>No lost chains\<close>

lemma lost_scan_none:
  assumes n: "NumClusters (boot s) \<le> 0xffffff8" "unat (NumClusters (boot s)) \<le> bm_cap (headbitmap (fat s))"
    and h: "\<forall>c. valid_cl s c \<longrightarrow> unat c \<notin> fat_heads s" and c: "CLUST_FIRST \<le> c" "unat c \<le> 0xffffff8 + 64"
  shows "lost_scan c k m s = Some (m, s)"
  using c
proof (induction "unat (NumClusters (boot s)) - unat c" arbitrary: c rule: less_induct)
  case less
  show ?case
  proof (cases "k > 0 \<and> c < NumClusters (boot s)")
    case False
    then show ?thesis by (subst lost_scan.simps) simp
  next
    case True
    then have lt: "unat c < unat (NumClusters (boot s))" by (simp add: word_less_nat_alt)
    with n have cap: "unat c < bm_cap (headbitmap (fat s))" and b: "unat c < 0xffffff8"
      by (simp_all add: word_le_nat_alt)
    have "valid_cl s c" using less.prems True by (simp add: valid_cl_def)
    then have g: "fat_is_cl_head c s = Some False"
      using h by (simp add: fat_is_cl_head_def bitmap_get_heads [OF cap])
    have u: "unat (c + 64) = unat c + 64" "unat (c + 1) = unat c + 1" using b by (simp_all add: unat_word_ariths)
    then have i: "lost_scan (c + 64) k m s = Some (m, s)" "lost_scan (c + 1) k m s = Some (m, s)"
      using less.prems b lt by (auto intro!: less.hyps simp: word_le_nat_alt)
    obtain x where "bitmap_none_in_range (headbitmap (fat s)) c = Some x"
      using cap by (simp add: bitmap_none_in_range_def bm_word_eq)
    then show ?thesis
      using True g i by (subst lost_scan.simps) (auto simp: fat_is_cl_head_in_range_def)
  qed
qed

lemma lost_fsinfo_unset:
  assumes "bpbFSInfo (boot s) = 0 \<or> FSFree (boot s) = 0xffffffff \<and> FSNext (boot s) = 0xffffffff"
  shows "lost_fsinfo m s = Some (m, s)"
  using assms by (auto simp: lost_fsinfo_def lost_nextfree_def)

lemma checklost_none:
  assumes "NumClusters (boot s) \<le> 0xffffff8" "unat (NumClusters (boot s)) \<le> bm_cap (headbitmap (fat s))"
    and "\<forall>c. valid_cl s c \<longrightarrow> unat c \<notin> fat_heads s" "lfbuf s = Null"
    and "bpbFSInfo (boot s) = 0 \<or> FSFree (boot s) = 0xffffffff \<and> FSNext (boot s) = 0xffffffff"
  shows "checklost s = Some (FSOK, s)"
proof -
  have e: "s\<lparr>lfbuf := Null\<rparr> = s" using assms(4) by simp
  have "lost_fsinfo m (s\<lparr>lfbuf := Null\<rparr>) = Some (m, s)" for m
    unfolding e by (rule lost_fsinfo_unset [OF assms(5)])
  then show ?thesis
    using lost_scan_none [OF assms(1-3)] assms(4)
    by (simp add: checklost_def finishlf_def free_ptr_def)
qed

section \<open>The whole check\<close>

text \<open>The static variables of dir.c as they are between two checks.\<close>

definition dirs_idle :: "dirs \<Rightarrow> bool" where
  "dirs_idle s \<longleftrightarrow> freede s = None \<and> pendingDirectories s = [] \<and> lfbuf s = Null"

lemma finish_fresh:
  assumes "root_read d s t" "root_ready d s" "pendingDirectories s = []"
  shows "\<exists>u. finishDosDirSection t = Some ((), u) \<and> quiet t u"
proof -
  have t: "pendingDirectories t = []" "rootDir t = Some d" "d < length (deheap t)" "de_child (deheap t ! d) = None"
    "de_next (deheap t ! d) = None" "de_parent (deheap t ! d) = None"
    using assms by (auto simp: root_read_def root_ready_def zero_de_def)
  obtain b b' where b: "buffer t = Live b" "delbuf t = Live b'" using assms by (auto simp: root_read_def root_ready_def)
  let ?u = "t\<lparr>deheap := (deheap t)[d := (deheap t ! d)\<lparr>de_next := freede t\<rparr>], freede := Some d\<rparr>"
  have "free_tree None ?u = Some ((), ?u)" by (subst free_tree.simps) simp
  then have ft: "free_tree (Some d) t = Some ((), ?u)"
    by (subst free_tree.simps) (simp add: t get_de_def freeDosDirEntry_def upd_de_def)
  have e: "t\<lparr>pendingDirectories := []\<rparr> = t" using t(1) by simp
  have "free_tree (Some d) (t\<lparr>pendingDirectories := []\<rparr>) = Some ((), ?u)" unfolding e by (rule ft)
  then have "finishDosDirSection t = Some ((), ?u\<lparr>rootDir := None, lostDir := None, buffer := Null, delbuf := Null\<rparr>)"
    using t b by (simp add: finishDosDirSection_def free_ptr_def)
  then show ?thesis by (simp add: quiet_def opts_def)
qed


text \<open>
  A volume with an empty table and an empty root directory, as the state after \<open>readboot\<close> describes
  it.
\<close>

definition fresh_root :: "'a fsck_scheme \<Rightarrow> bool" where
  "fresh_root s \<longleftrightarrow> (let b = boot s; m = unat (bpbSecPerClust b * bpbBytesPerSec b) in
     if is_fat32 b then ClustMask b = CLUST32_MASK \<and> bpbRootClust b = 2 \<and> 2 < NumClusters b \<and> 32 \<le> m \<and>
       cluster_off b 2 + m \<le> blen (dev s) \<and> blank_slots (\<lambda>k. bdat (dev s) (cluster_off b 2 + k)) (m div 32)
     else ClustMask b \<noteq> CLUST32_MASK \<and> bpbRootDirEnts b \<noteq> 0 \<and> bpbRootDirEnts b \<le> 0xffff \<and>
       root_off b + 32 * unat (bpbRootDirEnts b) \<le> blen (dev s) \<and>
       blank_slots (\<lambda>k. bdat (dev s) (root_off b + k)) (unat (bpbRootDirEnts b)))"

lemma handle_fresh:
  assumes r: "root_ready d s" "no_faults s" "fresh_root s" "pendingDirectories s = []" and inv: "table_inv s" "accessor (fat s) \<noteq> Fat32_cached"
    and v: "\<forall>c. valid_cl s c \<longrightarrow> fat_view s c = (if is_fat32 (boot s) \<and> c = 2 then CLUST_EOF else CLUST_FREE) \<and>
        (unat c \<in> fat_heads s \<longleftrightarrow> is_fat32 (boot s) \<and> c = 2)"
  shows "\<exists>t. handleDirTree s = Some (FSOK, t) \<and> root_read d s t \<and> (\<forall>c. valid_cl t c \<longrightarrow> unat c \<notin> fat_heads t) \<and>
    bm_cap (headbitmap (fat t)) = bm_cap (headbitmap (fat s))"
proof -
  have rd: "rootDir s = Some d" using r(1) by (simp add: root_ready_def)
  have todo: "dir_todo FSOK t = Some (FSOK, t)" if "root_read d s t" for t
    using that r(4) by (subst dir_todo.simps) (simp add: root_read_def)
  show ?thesis
  proof (cases "is_fat32 (boot s)")
    case True
    have f: "bpbRootClust (boot s) = 2" "2 < NumClusters (boot s)" using r(3) True by (simp_all add: fresh_root_def Let_def)
    then have c: "valid_cl s 2" by (simp add: valid_cl_def)
    then have h: "fat_view s 2 = CLUST_EOF" "unat (2 :: cl_t) \<in> fat_heads s" using v True by auto
    obtain t lb where t: "readDosDirSection d s = Some (FSOK, t)" "root_read d s t" "fat t = (fat s)\<lparr>headbitmap := lb\<rparr>"
      "heads lb = fat_heads s - {2}" "bm_cap lb = bm_cap (headbitmap (fat s))"
      using read_fat32_root [OF r(1,2) True _ inv] c h r(3) True by (auto simp: fresh_root_def Let_def f)
    have "\<forall>c. valid_cl t c \<longrightarrow> unat c \<notin> fat_heads t"
    proof (intro allI impI)
      fix c assume "valid_cl t c"
      then have "valid_cl s c" using t(2) by (simp add: valid_cl_def root_read_def)
      moreover have "unat c = 2" if "c = 2" using that by simp
      ultimately show "unat c \<notin> fat_heads t" using v t(3,4) True by auto
    qed
    then show ?thesis using t rd todo [OF t(2)] by (auto simp: handleDirTree_def)
  next
    case False
    obtain t where t: "readDosDirSection d s = Some (FSOK, t)" "root_read d s t" "fat t = fat s"
      using read_legacy_root [OF r(1,2) False] r(3) False by (auto simp: fresh_root_def Let_def)
    have "\<forall>c. valid_cl t c \<longrightarrow> unat c \<notin> fat_heads t"
      using t(2,3) v False by (auto simp: valid_cl_def root_read_def)
    then show ?thesis using t rd todo [OF t(2)] by (auto simp: handleDirTree_def)
  qed
qed

lemma check_phases_fresh:
  assumes ff: "fresh_fat s" "fresh_root s" and fr: "fat_ready s t" and idle: "dirs_idle t"
    and info: "bpbFSInfo (boot s) = 0 \<or> FSFree (boot s) = 0xffffffff \<and> FSNext (boot s) = 0xffffffff"
  shows "\<exists>u v. check_phases FSOK t = Some (0, u) \<and> finishDosDirSection u = Some ((), v) \<and> quiet t v"
proof -
  obtain nx nf where b: "boot t = (boot s)\<lparr>NumBad := 0, FSNext := nx, NumFree := nf\<rparr>" "FSNext (boot s) \<noteq> 0 \<longrightarrow> nx = FSNext (boot s)"
    using fr unfolding fat_ready_def by blast
  have f: "no_faults t" "table_inv t" "accessor (fat t) \<noteq> Fat32_cached" "unat (NumClusters (boot t)) \<le> bm_cap (headbitmap (fat t))"
    "dev t = dev s"
    using fr unfolding fat_ready_def quiet_def by blast+
  have m: "ClustMask (boot s) = CLUST32_MASK \<longleftrightarrow> is_fat32 (boot t)" "is_fat32 (boot t) = is_fat32 (boot s)"
    using ff(2) by (auto simp: fresh_root_def Let_def b is_fat32_def split: if_splits)
  have v: "\<forall>c. valid_cl t c \<longrightarrow> fat_view t c = (if is_fat32 (boot t) \<and> c = 2 then CLUST_EOF else CLUST_FREE) \<and>
        (unat c \<in> fat_heads t \<longleftrightarrow> is_fat32 (boot t) \<and> c = 2)"
    using fr unfolding fat_ready_def m(1) by blast
  have root: "fresh_root t"
    using ff(2) by (simp add: fresh_root_def Let_def b f(5) is_fat32_def cluster_off_def root_off_def split: if_splits)
  have n: "NumClusters (boot t) \<le> 0xffffff8" using f(2) by (simp add: table_inv_def)
  have hd: "fat_is_cl_head (bpbRootClust (boot t)) t = Some True" if "is_fat32 (boot t)"
  proof -
    have c: "bpbRootClust (boot t) = 2" "2 < NumClusters (boot t)" using root that by (simp_all add: fresh_root_def Let_def)
    then have "unat (2 :: cl_t) < bm_cap (headbitmap (fat t))" "valid_cl t 2"
      using f(4) by (simp_all add: word_less_nat_alt valid_cl_def)
    moreover from this(2) v that have "unat (2 :: cl_t) \<in> fat_heads t" by blast
    ultimately show ?thesis by (simp add: fat_is_cl_head_def c bitmap_get_heads)
  qed
  obtain u d where u: "resetDosDirSection t = Some (FSOK, u)" "root_ready d u" "quiet t u" "no_faults u" "boot u = boot t"
    "fat u = fat t" "pendingDirectories u = pendingDirectories t" "lfbuf u = lfbuf t"
    using reset_fresh [OF f(1)] hd idle unfolding dirs_idle_def by (metis (no_types, lifting))
  have st: "same_table t u" using u(3-6) f(1) by (simp add: same_table_def quiet_def no_faults_def)
  note ss = same_table_simps [OF st]
  have du: "dev u = dev t" using u(3) by (simp add: quiet_def)
  have "fresh_root u" using root unfolding fresh_root_def u(5) du .
  then obtain w where w: "handleDirTree u = Some (FSOK, w)" "root_read d u w" "\<forall>c. valid_cl w c \<longrightarrow> unat c \<notin> fat_heads w"
      "bm_cap (headbitmap (fat w)) = bm_cap (headbitmap (fat u))"
    using handle_fresh [OF u(2,4)] ss f idle v by (auto simp: u dirs_idle_def)
  have wb: "boot w = boot t" "lfbuf w = Null" using w(2) u idle by (auto simp: root_read_def dirs_idle_def)
  have "checklost w = Some (FSOK, w)"
    using n f(4) w(3,4) wb info by (intro checklost_none) (auto simp: b u)
  then have "check_phases FSOK t = Some (0, w)"
    using u(1) w(1) by (simp add: check_phases_def check_finish_def check_update_def check_clean_def)
  moreover obtain x where "finishDosDirSection w = Some ((), x)" "quiet w x"
    using finish_fresh [OF w(2) u(2)] idle u(7) by (auto simp: dirs_idle_def)
  moreover have "quiet t w" using u(3) w(2) by (auto simp: root_read_def quiet_def)
  ultimately show ?thesis unfolding quiet_def by metis
qed


lemma checkdirty_returns:
  assumes nf: "no_faults s" and n: "ClustMask b = CLUST16_MASK \<or> ClustMask b = CLUST32_MASK \<Longrightarrow> 8 \<le> unat (bpbBytesPerSec b)"
    and d: "fat_start b + unat (bpbBytesPerSec b) \<le> blen (dev s)"
  shows "\<exists>c q. checkdirty b s = Some (c, s\<lparr>io_faults := [], pos := q\<rparr>)"
proof (cases "ClustMask b = CLUST16_MASK \<or> ClustMask b = CLUST32_MASK")
  case False
  then have "checkdirty b s = Some (0, s)" by (simp add: checkdirty_def)
  moreover have "s = s\<lparr>io_faults := [], pos := pos s\<rparr>" using nf by (simp add: no_faults_def)
  ultimately show ?thesis by metis
next
  case True
  let ?n = "unat (bpbBytesPerSec b)"
  let ?s = "s\<lparr>io_faults := [], pos := fat_start b + ?n\<rparr>"
  define f where "f = blit (bdat (dev s)) (fat_start b) ?n (junk s) 0"
  have rd: "seek_read (fat_start b) ?n 0 \<lparr>blen = ?n, bdat = junk s\<rparr> s = Some ((True, \<lparr>blen = ?n, bdat = f\<rparr>), ?s)"
    using nf d by (subst seek_read_nofault) (simp_all add: no_faults_def f_def)
  obtain g where g: "first_bytes (if ClustMask b = CLUST16_MASK then 4 else 8) \<lparr>blen = ?n, bdat = f\<rparr> = Some g"
    using n [OF True] by (auto simp: first_bytes_def)
  have "\<exists>c. checkdirty b s = Some (c, ?s)"
    using True unfolding checkdirty_def malloc_ok [OF nf] prod.case option.case rd bind.simps g
    by (auto split: if_splits)
  then show ?thesis by blast
qed


lemma fresh_pos [simp]:
  "fresh_fat (s\<lparr>io_faults := x, pos := q\<rparr>) = fresh_fat s" "fresh_root (s\<lparr>io_faults := x, pos := q\<rparr>) = fresh_root s"
  by (simp_all add: fresh_fat_def fresh_root_def)

lemma check_loaded_fresh:
  assumes ff: "fresh_fat s" "fresh_root s" and nf: "no_faults s" and idle: "dirs_idle s"
    and info: "bpbFSInfo (boot s) = 0 \<or> FSFree (boot s) = 0xffffffff \<and> FSNext (boot s) = 0xffffffff"
  shows "\<exists>t u v. readfat s = Some (FSOK, t) \<and> check_phases FSOK t = Some (0, u) \<and>
    finishDosDirSection u = Some ((), v) \<and> quiet s v"
proof -
  obtain t where t: "readfat s = Some (FSOK, t)" "fat_ready s t" using readfat_fresh [OF ff(1) nf] by blast
  have "fsck.more t = fsck.more s" using t(2) by (simp add: fat_ready_def)
  then have "dirs_idle t" using idle by (cases s; cases t) (simp add: dirs_idle_def)
  from check_phases_fresh [OF ff t(2) this info] t show ?thesis
    unfolding fat_ready_def by (metis quiet_trans)
qed

lemma checkfilesys_fresh:
  assumes op: "open_device rw ro s = (True, u)" and rb: "readboot u = Some ((FSOK, b), u\<lparr>io_faults := [], pos := q\<rparr>)"
    and ff: "fresh_fat (u\<lparr>boot := b\<rparr>)" "fresh_root (u\<lparr>boot := b\<rparr>)" and nf: "no_faults s" and idle: "dirs_idle s"
    and info: "bpbFSInfo b = 0 \<or> FSFree b = 0xffffffff \<and> FSNext b = 0xffffffff"
    and sec: "8 \<le> unat (bpbBytesPerSec b)" "fat_start b + unat (bpbBytesPerSec b) \<le> blen (dev s)"
  shows "\<exists>v. checkfilesys rw ro s = Some (0, v) \<and> dev v = dev s \<and> writes v = writes s"
proof -
  have u: "dev u = dev s" "writes u = writes s" "no_faults u" "dirs_idle u"
    using op nf idle by (auto simp: open_device_def Let_def no_faults_def dirs_idle_def split: if_splits)
  define w where "w q = u\<lparr>boot := b\<rparr>\<lparr>io_faults := [], pos := q\<rparr>" for q
  have w: "fresh_fat (w q)" "fresh_root (w q)" "no_faults (w q)" "dirs_idle (w q)" "boot (w q) = b" "dev (w q) = dev s"
    "writes (w q) = writes s" "(w q)\<lparr>io_faults := [], pos := q'\<rparr> = w q'" for q q'
    using ff u by (simp_all add: w_def no_faults_def dirs_idle_def)
  have w0: "(u\<lparr>io_faults := [], pos := q\<rparr>)\<lparr>boot := b\<rparr> = w q" by (simp add: w_def)
  have "\<exists>c q'. checkdirty b (w q) = Some (c, (w q)\<lparr>io_faults := [], pos := q'\<rparr>)"
    by (rule checkdirty_returns [OF w(3) sec(1)]) (use sec(2) w(6) in simp)
  then obtain c q' where c: "checkdirty b (w q) = Some (c, w q')" unfolding w(8) by blast
  define r where "r = (if skipclean (w q) \<and> preen (w q) then q' else q)"
  have r: "(if skipclean (w q) \<and> preen (w q) then checkdirty (boot (w q)) (w q) else Some (0, w q))
      = Some (if skipclean (w q) \<and> preen (w q) then c else 0, w r)"
    using c by (simp add: w(5) r_def)
  obtain t v x where t: "readfat (w r) = Some (FSOK, t)" "check_phases FSOK t = Some (0, v)"
    "finishDosDirSection v = Some ((), x)" "quiet (w r) x"
    using check_loaded_fresh [OF w(1-4)] info w(5) by metis
  have x: "dev x = dev s" "writes x = writes s" "dev (w r) = dev s" "writes (w r) = writes s"
    using t(4) w(6,7) by (simp_all add: quiet_def)
  have "checkfilesys rw ro s = Some (0, if (if skipclean (w q) \<and> preen (w q) then c else 0) \<noteq> 0 then w r else x)"
    unfolding checkfilesys_def op prod.case rb bind.simps Let_def w0 r using t(1-3) by simp
  with x show ?thesis by auto
qed

end
