(* ===== verification/Fsck_ReadOnly.thy ===== *)
theory Fsck_ReadOnly
  imports Fsck_Check
begin

text \<open>
  A read-only run, up to the building blocks of dir.c. The rules \<open>wp\<close> take a goal \<open>post m Q\<close> apart
  along the program text; for a call there is a rule with the invariant \<open>ro\<close> before and after it, so
  that the proof for a function is the composition of the rules for what it calls.
\<close>

named_theorems wp \<open>decomposition of a \<open>post\<close> goal, calls included\<close>

lemmas [wp] = post_Some post_bind post_case_option post_let post_if

lemma post_case_sum [wp]:
  "(\<And>a. x = Inl a \<Longrightarrow> post (f a) Q) \<Longrightarrow> (\<And>b. x = Inr b \<Longrightarrow> post (g b) Q) \<Longrightarrow>
   post (case x of Inl a \<Rightarrow> f a | Inr b \<Rightarrow> g b) Q"
  by (cases x) simp_all

lemma post_case_flow [wp]:
  "(x = Fall \<Longrightarrow> post f Q) \<Longrightarrow> (x = Cont \<Longrightarrow> post g Q) \<Longrightarrow> (\<And>r. x = Ret r \<Longrightarrow> post (h r) Q) \<Longrightarrow>
   post (case x of Fall \<Rightarrow> f | Cont \<Rightarrow> g | Ret r \<Rightarrow> h r) Q"
  by (cases x) simp_all

lemma post_map_option [wp]: "post m (\<lambda>r. Q (f r)) \<Longrightarrow> post (map_option f m) Q"
  by (auto simp: post_def)

lemma post_any: "(\<And>r. Q r) \<Longrightarrow> post m Q"
  by (simp add: post_def)

text \<open>
  \<open>ro d w P s\<close>: the run is read-only, the device is \<open>d\<close>, the writes issued so far and the
  option \<^verbatim>\<open>-n\<close> are \<open>w\<close>, no chunk of the cache is dirty, and the rest of the state satisfies \<open>P\<close>.
\<close>

definition ro :: "buf \<Rightarrow> (nat \<times> nat) list \<times> bool \<Rightarrow> ('a \<Rightarrow> bool) \<Rightarrow> 'a fsck_scheme \<Rightarrow> bool" where
  "ro d w P s \<longleftrightarrow> rdonly s \<and> dev s = d \<and> (writes s, alwaysno s) = w \<and>
     (\<forall>e\<in>set (fat32_cache_head (fat s)). \<not> dirty e) \<and> P (fsck.more s)"

lemma ro_ask [simp]: "ro d w P s \<Longrightarrow> ask dflt s = (False, s)"
  by (simp add: ro_def ask_rdonly)

lemma ro_upd [simp]:
  "ro d w P (s\<lparr>io_faults := a\<rparr>) = ro d w P s" "ro d w P (s\<lparr>pos := b\<rparr>) = ro d w P s"
  "ro d w P (s\<lparr>alloc_faults := a\<rparr>) = ro d w P s" "ro d w P (s\<lparr>mmap_faults := a\<rparr>) = ro d w P s"
  "ro d w P (s\<lparr>boot := bt\<rparr>) = ro d w P s"
  by (simp_all add: ro_def)

lemma ro_fat:
  "ro d w P s \<Longrightarrow> (\<And>e. e \<in> set (fat32_cache_head f) \<Longrightarrow> \<not> dirty e) \<Longrightarrow> ro d w P (s\<lparr>fat := f\<rparr>)"
  by (simp add: ro_def)

lemma ro_rdonly: "ro d w P s \<Longrightarrow> rdonly s"
  and ro_clean: "ro d w P s \<Longrightarrow> e \<in> set (fat32_cache_head (fat s)) \<Longrightarrow> \<not> dirty e"
  by (simp_all add: ro_def)

section \<open>The environment\<close>

lemma lseek_moves: "lseek off s = (r, t) \<Longrightarrow> t = s\<lparr>io_faults := io_faults t, pos := pos t\<rparr>"
  by (auto simp: lseek_def split: if_splits prod.splits)

lemma dread_moves: "dread n o1 b s = Some (r, t) \<Longrightarrow> t = s\<lparr>io_faults := io_faults t, pos := pos t\<rparr>"
  by (auto simp: dread_def Let_def split: if_splits prod.splits)

lemma seek_read_moves: "seek_read off n o1 b s = Some (r, t) \<Longrightarrow> t = s\<lparr>io_faults := io_faults t, pos := pos t\<rparr>"
  by (auto simp: seek_read_def lseek_def dread_def Let_def split: if_splits prod.splits)

lemma seek_read_wp [wp]:
  assumes "\<And>ok c fl p. Q ((ok, c), s\<lparr>io_faults := fl, pos := p\<rparr>)"
  shows "post (seek_read off n o1 b s) Q"
proof (rule postI)
  fix r
  assume "seek_read off n o1 b s = Some r"
  moreover obtain ok c t where r: "r = ((ok, c), t)" by (metis surj_pair)
  ultimately have "t = s\<lparr>io_faults := io_faults t, pos := pos t\<rparr>" by (auto dest: seek_read_moves)
  then show "Q r" unfolding r by (rule ssubst) (rule assms)
qed

lemma malloc_wp [wp]:
  assumes "\<And>r fl. post (f r (s\<lparr>alloc_faults := fl\<rparr>)) Q"
  shows "post (case malloc n s of (r, t) \<Rightarrow> f r t) Q"
  using assms by (simp add: malloc_def split: prod.splits)

lemma dread_wp [wp]:
  assumes "\<And>ok c fl p. Q ((ok, c), s\<lparr>io_faults := fl, pos := p\<rparr>)"
  shows "post (dread n o1 b s) Q"
proof (rule postI)
  fix r
  assume "dread n o1 b s = Some r"
  moreover obtain ok c t where r: "r = ((ok, c), t)" by (metis surj_pair)
  ultimately have "t = s\<lparr>io_faults := io_faults t, pos := pos t\<rparr>" by (auto dest: dread_moves)
  then show "Q r" unfolding r by (rule ssubst) (rule assms)
qed

lemma post_call: "post m (\<lambda>(r, t). I t) \<Longrightarrow> (\<And>r t. I t \<Longrightarrow> Q (r, t)) \<Longrightarrow> post m Q"
  by (auto simp: post_def)

section \<open>boot.c\<close>

lemma readboot_ro: "ro d w P s \<Longrightarrow> post (readboot s) (\<lambda>(r, t). ro d w P t)"
  unfolding readboot_def readboot_fat32_def readboot_fsinfo_def
  by (auto intro!: wp post_case_prod simp: Let_def)

lemmas [wp] = readboot_ro [THEN post_call]

section \<open>fat.c\<close>

lemmas fat_pure [wp] =
  post_any [of _ "fat_get_fat12_next cl s" for cl s] post_any [of _ "fat_get_fat16_next cl s" for cl s]
  post_any [of _ "fat_get_fat32_next cl s" for cl s] post_any [of _ "le32dec rd i" for rd i]
  post_any [of _ "fat_is_cl_head cl s" for cl s] post_any [of _ "fat_is_cl_head_in_range cl s" for cl s]
  post_any [of _ "first_bytes n b" for n b] post_any [of _ "fat_bytes n s" for n s]
  post_any [of _ "bitmap_clear lb cl" for lb cl]

lemma flush_clean [simp]: "\<not> dirty e \<Longrightarrow> fat_flush_fat32_cache_entry e s = Some ((FSOK, e), s)"
  by (simp add: fat_flush_fat32_cache_entry_def)

lemma fat_get_fat32_cache_entry_ro:
  assumes "ro d w P s"
  shows "post (fat_get_fat32_cache_entry a False s) (\<lambda>(r, t). ro d w P t)"
proof -
  define es where "es = fat32_cache_head (fat s)"
  have clean: "\<not> dirty e" if "e \<in> set es" for e
    using assms that by (simp add: es_def ro_clean)
  show ?thesis
  proof (cases "List.extract (\<lambda>e. addr e = chunk_base a) es")
    case None
    show ?thesis
    proof (cases "es = []")
      case True
      with None show ?thesis by (simp add: fat_get_fat32_cache_entry_def es_def)
    next
      case False
      then have "\<not> dirty (last es)" by (simp add: clean)
      moreover have "\<not> dirty e" if "e \<in> set (butlast es)" for e
        using clean in_set_butlastD that by fast
      ultimately show ?thesis
        using False None assms
        unfolding fat_get_fat32_cache_entry_def es_def [symmetric] set_cache_def
        by (auto intro!: wp ro_fat simp: Let_def)
    qed
  next
    case (Some x)
    obtain fr e bk where x: "x = (fr, e, bk)" by (cases x)
    with Some have "es = fr @ e # bk" by (simp add: extract_Some_iff)
    with clean have "\<not> dirty c" if "c \<in> set (e # fr @ bk)" for c
      using that by auto
    with assms Some x show ?thesis
      unfolding fat_get_fat32_cache_entry_def es_def [symmetric] set_cache_def
      by (auto intro!: post_Some ro_fat simp: Let_def)
  qed
qed

lemmas [wp] = fat_get_fat32_cache_entry_ro [THEN post_call]

lemma fat_get_ro: "ro d w P s \<Longrightarrow> post (fat_get cl s) (\<lambda>(r, t). ro d w P t)"
  unfolding fat_get_def fat_get_fat32_cached_next_def fat_get_fat32_cached_ptr_def
  by (cases "accessor (fat s)") (auto intro!: wp simp: Let_def)

lemmas [wp] = fat_get_ro [THEN post_call]

lemma fat_get_cl_next_ro: "ro d w P s \<Longrightarrow> post (fat_get_cl_next cl s) (\<lambda>(r, t). ro d w P t)"
  unfolding fat_get_cl_next_def by (auto intro!: wp)

lemmas [wp] = fat_get_cl_next_ro [THEN post_call]

lemma ro_set [simp]: "ro d w P s \<Longrightarrow> fat_set_cl_next cl v s = Some (FSFATAL, s)"
  by (simp add: fat_set_cl_next_def ro_rdonly)

lemma fat_clear_cl_head_ro: "ro d w P s \<Longrightarrow> post (fat_clear_cl_head cl s) (ro d w P)"
  unfolding fat_clear_cl_head_def by (auto intro!: wp ro_fat dest: ro_clean)

lemmas [wp] = fat_clear_cl_head_ro [THEN post_mono]

lemma readfat_scan_ro: "ro d w P s \<Longrightarrow> post (readfat_scan cls ret s) (\<lambda>(r, t). ro d w P t)"
  by (induction cls arbitrary: ret s)
    (auto intro!: wp intro: post_call simp: scan_step_def scan_entry_def scan_truncate_def clear_if_head_def Let_def)

lemmas [wp] = readfat_scan_ro [THEN post_call]

lemma chain_walk_ro: "ro d w P s \<Longrightarrow> post (chain_walk a b c n s) (\<lambda>(r, t). ro d w P t)"
proof (rule postI)
  fix r
  assume "chain_walk a b c n s = Some r" "ro d w P s"
  then show "case r of (r, t) \<Rightarrow> ro d w P t"
    by (induction rule: chain_walk.raw_induct [rotated, consumes 1])
      (auto simp: Option.bind_eq_Some_conv split: if_splits dest: postD [OF fat_get_cl_next_ro])
qed

lemmas [wp] = chain_walk_ro [THEN post_call]

lemma checkchain_ro: "ro d w P s \<Longrightarrow> post (checkchain cl s) (\<lambda>(r, t). ro d w P t \<and> fst r \<in> {FSOK, FSERROR})"
  unfolding checkchain_def checkchain_fix_def by (auto intro!: wp simp: Let_def)

lemma mmap_ro: "ro d w P s \<Longrightarrow> ro d w P (snd (mmap off s))"
  by (auto simp: mmap_def ro_clean intro!: ro_fat split: prod.splits)

lemma init_cache_clean: "e \<in> set init_cache \<Longrightarrow> \<not> dirty e"
  by (auto simp: init_cache_def)

lemma readfat_buffer_ro: "ro d w P s \<Longrightarrow> post (readfat_buffer off n s) (\<lambda>(r, t). ro d w P t)"
  unfolding readfat_buffer_def set_cache_def
  by (auto intro!: wp ro_fat simp: Let_def init_cache_clean ro_clean)

lemmas [wp] = readfat_buffer_ro [THEN post_call]

lemma post_pair:
  "I (snd p) \<Longrightarrow> (\<And>r t. I t \<Longrightarrow> post (f r t) Q) \<Longrightarrow> post (case p of (r, t) \<Rightarrow> f r t) Q"
  by (cases p) simp

lemma readfat_table_ro:
  assumes "ro d w P s"
  shows "post (readfat_table s) (\<lambda>(r, t). ro d w P t)"
  unfolding readfat_table_def Let_def
  using assms
  by (intro post_pair [where I = "ro d w P"]) (auto intro!: wp mmap_ro ro_fat simp: ro_clean)

lemmas [wp] = readfat_table_ro [THEN post_call]

lemma readfat_signature_ro: "ro d w P s \<Longrightarrow> post (readfat_signature s) (\<lambda>(r, t). ro d w P t)"
  unfolding readfat_signature_def by (auto intro!: wp)

lemmas [wp] = readfat_signature_ro [THEN post_call]

lemma releasefat_ro: "ro d w P s \<Longrightarrow> ro d w P (releasefat s)"
  by (auto simp: releasefat_def ro_clean intro!: ro_fat)

lemma bitmap_ctor_ro: "ro d w P s \<Longrightarrow> ro d w P (snd (bitmap_ctor n b s))"
  by (auto simp: bitmap_ctor_def malloc_def Let_def split: prod.split option.split)

lemma bitmap_ctor_wp [wp]:
  "ro d w P s \<Longrightarrow> (\<And>r t. ro d w P t \<Longrightarrow> post (f r t) Q) \<Longrightarrow> post (case bitmap_ctor n b s of (r, t) \<Rightarrow> f r t) Q"
  by (rule post_pair [where I = "ro d w P"]) (auto dest: bitmap_ctor_ro)

lemma readfat_ro: "ro d w P s \<Longrightarrow> post (readfat s) (\<lambda>(r, t). ro d w P t)"
  unfolding readfat_def
  by (auto intro!: wp ro_fat releasefat_ro simp: Let_def zero_fat_def ro_clean)

lemmas [wp] = readfat_ro [THEN post_call]

lemma checkdirty_ro: "ro d w P s \<Longrightarrow> post (checkdirty b s) (\<lambda>(r, t). ro d w P t)"
  unfolding checkdirty_def by (auto intro!: wp)

lemmas [wp] = checkdirty_ro [THEN post_call]

lemma post_call2:
  "post m (\<lambda>(r, t). I t \<and> R r) \<Longrightarrow> (\<And>r t. I t \<Longrightarrow> R r \<Longrightarrow> Q (r, t)) \<Longrightarrow> post m Q"
  by (auto simp: post_def)

lemmas [wp] = checkchain_ro [THEN post_call2]

section \<open>dir.c\<close>

text \<open>In a read-only run no directory is ever marked for truncation.\<close>

abbreviation unwarned :: "dosDirEntry \<Rightarrow> bool" where
  "unwarned e \<equiv> de_fsckflags e AND DIREMPWARN = 0"

definition heap_ok :: "unit dirs_ext \<Rightarrow> bool" where
  "heap_ok m \<longleftrightarrow> (\<forall>s::dirs. fsck.more s = m \<longrightarrow> (\<forall>e\<in>set (deheap s). unwarned e))"

lemma heap_ok_more [simp]: "heap_ok (fsck.more s) \<longleftrightarrow> (\<forall>e\<in>set (deheap s). unwarned e)"
proof -
  have "deheap t = deheap s" if "fsck.more t = fsck.more s" for t :: dirs
    using that by (cases s, cases t) simp
  then show ?thesis unfolding heap_ok_def by metis
qed

abbreviation rod :: "buf \<Rightarrow> (nat \<times> nat) list \<times> bool \<Rightarrow> dirs \<Rightarrow> bool" where
  "rod d w \<equiv> ro d w heap_ok"

lemma rod_upd [simp]:
  "rod d w (s\<lparr>buffer := x\<rparr>) = rod d w s" "rod d w (s\<lparr>delbuf := x\<rparr>) = rod d w s"
  "rod d w (s\<lparr>longName := l\<rparr>) = rod d w s" "rod d w (s\<lparr>freede := o1\<rparr>) = rod d w s"
  "rod d w (s\<lparr>freedt := n\<rparr>) = rod d w s" "rod d w (s\<lparr>pendingDirectories := ns\<rparr>) = rod d w s"
  "rod d w (s\<lparr>rootDir := o1\<rparr>) = rod d w s" "rod d w (s\<lparr>lostDir := o1\<rparr>) = rod d w s"
  "rod d w (s\<lparr>lfbuf := x\<rparr>) = rod d w s"
  by (simp_all add: ro_def)

lemma rod_deheap:
  "rod d w s \<Longrightarrow> (\<And>e. e \<in> set h \<Longrightarrow> unwarned e) \<Longrightarrow> rod d w (s\<lparr>deheap := h\<rparr>)"
  by (simp add: ro_def)

lemma rod_unwarned: "rod d w s \<Longrightarrow> e \<in> set (deheap s) \<Longrightarrow> unwarned e"
  by (simp add: ro_def)

lemma get_de_wp [wp]:
  "rod d w s \<Longrightarrow> (\<And>e. unwarned e \<Longrightarrow> Q e) \<Longrightarrow> post (get_de i s) Q"
  by (simp add: get_de_def post_def rod_unwarned)

lemma upd_de_wp [wp]:
  assumes "rod d w s" "\<And>e. unwarned e \<Longrightarrow> unwarned (f e)" "\<And>t. rod d w t \<Longrightarrow> Q t"
  shows "post (upd_de i f s) Q"
proof (rule postI)
  fix t
  assume t: "upd_de i f s = Some t"
  then have i: "i < length (deheap s)" and t: "t = s\<lparr>deheap := (deheap s)[i := f (deheap s ! i)]\<rparr>"
    by (auto simp: upd_de_def split: if_splits)
  have "unwarned e" if "e \<in> set ((deheap s)[i := f (deheap s ! i)])" for e
  proof -
    from that have "e \<in> set (deheap s) \<or> e = f (deheap s ! i)"
      by (meson insertE set_update_subset_insert subsetD)
    then show ?thesis
      using assms(2) rod_unwarned [OF assms(1)] nth_mem [OF i] by blast
  qed
  then show "Q t" unfolding t by (intro assms(3) rod_deheap assms(1)) auto
qed

lemmas dir_pure [wp] =
  post_any [of _ "live p" for p] post_any [of _ "free_ptr p" for p] post_any [of _ "slot p s" for p s]
  post_any [of _ "cstr a" for a] post_any [of _ "mark_slots a b c" for a b c]

lemma zero_de_unwarned [simp]: "unwarned zero_de"
  by (simp add: zero_de_def)

lemma newDosDirEntry_ro: "rod d w s \<Longrightarrow> post (newDosDirEntry s) (\<lambda>(r, t). rod d w t)"
  unfolding newDosDirEntry_def
  by (auto intro!: wp rod_deheap simp: ro_def)

lemmas [wp] = newDosDirEntry_ro [THEN post_call]

lemma newDirTodo_wp [wp]:
  "rod d w s \<Longrightarrow> (\<And>r t. rod d w t \<Longrightarrow> post (f r t) Q) \<Longrightarrow> post (case newDirTodo s of (r, t) \<Rightarrow> f r t) Q"
  by (auto simp: newDirTodo_def malloc_def split: prod.split)

lemma resetDosDirSection_ro: "rod d w s \<Longrightarrow> post (resetDosDirSection s) (\<lambda>(r, t). rod d w t)"
  unfolding resetDosDirSection_def by (auto intro!: wp simp: Let_def)

lemmas [wp] = resetDosDirSection_ro [THEN post_call]

lemma free_tree_ro: "rod d w s \<Longrightarrow> post (free_tree dp s) (\<lambda>(r, t). rod d w t)"
proof (rule postI)
  fix r
  assume "free_tree dp s = Some r" "rod d w s"
  then show "case r of (r, t) \<Rightarrow> rod d w t"
  proof (induction rule: free_tree.raw_induct [rotated, consumes 1, case_names step])
    case (step f dp s r)
    have "post (f a t) (\<lambda>(r, t). rod d w t)" if "rod d w t" for a t
      using step.IH that by (auto simp: post_def)
    then have "post (case dp of None \<Rightarrow> Some ((), s) | Some d \<Rightarrow> do {
         e \<leftarrow> get_de d s;
         case de_child e of
           Some c \<Rightarrow> do { s \<leftarrow> upd_de d (\<lambda>e. e\<lparr>de_child := None\<rparr>) s; f (Some c) s }
         | None \<Rightarrow> do {
             let nd = (case de_next e of None \<Rightarrow> de_parent e | Some x \<Rightarrow> Some x);
             s \<leftarrow> freeDosDirEntry d s;
             f nd s } }) (\<lambda>(r, t). rod d w t)"
      using step.prems by (auto intro!: wp simp: freeDosDirEntry_def)
    then show ?case using step.hyps by (auto simp: post_def)
  qed
qed

lemmas [wp] = free_tree_ro [THEN post_call]

lemma finish_ro: "rod d w s \<Longrightarrow> post (finishDosDirSection s) (\<lambda>(r, t). rod d w t)"
proof -
  have "rod d w ((freeDirTodo ^^ n) s) = rod d w s" for n
    by (induction n) (auto simp: freeDirTodo_def)
  then show "rod d w s \<Longrightarrow> ?thesis"
    unfolding finishDosDirSection_def by (auto intro!: wp simp: Let_def)
qed

lemmas [wp] = finish_ro [THEN post_call]

end
