(* ===== verification/Fsck_ReadOnlyRun.thy ===== *)
theory Fsck_ReadOnlyRun
  imports Fsck_ReadOnly
begin

text \<open>
  A read-only run, second part: the scan of the directories, the lost chains, the phases of a check
  and the command line keep the invariant \<open>ro\<close>; and a complete run of the checker evaluated on a
  small image.
\<close>

text \<open>\<open>unmod m\<close>: the flags that make \<open>readDosDirSection\<close> write are not set.\<close>

definition unmod :: "cint \<Rightarrow> bool" where
  "unmod m \<longleftrightarrow> \<not> has m 0x8000 \<and> \<not> has m FSDIRMOD"

lemma unmod_simps [simp]: "unmod 0" "unmod 8" "unmod (a OR b) \<longleftrightarrow> unmod a \<and> unmod b"
  "unmod m \<Longrightarrow> \<not> has m 0x8000" "unmod m \<Longrightarrow> \<not> has m 2"
  by (auto simp: unmod_def) (auto simp: has_def)

lemma unmod_flag [simp]: "unmod (rmod (flag m sc)) \<longleftrightarrow> unmod (rmod sc) \<and> unmod m"
  by (simp add: flag_def)

lemma unmod_and: "unmod m \<Longrightarrow> unmod (m AND k)"
proof -
  have "m AND k AND b = 0" if "m AND b = 0" for b
  proof -
    have "m AND k AND b = k AND (m AND b)" by (simp only: ac_simps)
    with that show ?thesis by simp
  qed
  then show "unmod m \<Longrightarrow> unmod (m AND k)" by (simp add: unmod_def has_def and.assoc)
qed

lemma removede_ro [simp]: "rod d w s \<Longrightarrow> removede a b c e f s = Some (FSERROR, s)"
  by (simp add: removede_def)

lemma checksize_ro: "rod d w s \<Longrightarrow> post (checksize p de s) (\<lambda>(r, t). rod d w t \<and> fst r \<in> {FSOK, FSERROR})"
  unfolding checksize_def checksize_size_def by (auto intro!: wp)

lemmas [wp] = checksize_ro [THEN post_call2]

lemma check_subdirectory_ro: "ro d w P s \<Longrightarrow> post (check_subdirectory de s) (\<lambda>(r, t). ro d w P t)"
  unfolding check_subdirectory_def by (auto intro!: wp simp: Let_def)

lemmas [wp] = check_subdirectory_ro [THEN post_call]

abbreviation calm :: "buf \<Rightarrow> (nat \<times> nat) list \<times> bool \<Rightarrow> (flow \<times> scan) \<times> dirs \<Rightarrow> bool" where
  "calm d w \<equiv> \<lambda>(r, t). rod d w t \<and> unmod (rmod (snd r))"

lemma correct_ro [simp]:
  "rod d w s \<Longrightarrow> correct dflt kvs p sc s = Some ((False, flag FSERROR sc), s)"
  by (simp add: correct_def)

lemma entry_after_end_ro: "rod d w s \<Longrightarrow> unmod (rmod sc) \<Longrightarrow> post (entry_after_end i p sc s) (calm d w)"
  unfolding entry_after_end_def entry_extend_def by (auto intro!: wp)

lemmas [wp] = entry_after_end_ro [THEN post_call2]

lemma rmod_invalidate [simp]: "rmod (invalidate c sc) = rmod sc"
  by (simp add: invalidate_def)

lemma rmod_lfn_sequence [simp]: "rmod (fst (lfn_sequence p rec sc s)) = rmod sc"
  by (simp add: lfn_sequence_def Let_def)

lemma lfn_sequence_rod [simp]: "rod d w s \<Longrightarrow> rod d w (snd (lfn_sequence p rec sc s))"
  by (simp add: lfn_sequence_def Let_def)

lemma entry_lfn_ro:
  assumes "rod d w s"
  shows "rmod (fst (entry_lfn p rec sc s)) = rmod sc" and "rod d w (snd (entry_lfn p rec sc s))"
proof -
  obtain sc1 s1 where 1: "lfn_sequence p rec sc s = (sc1, s1)" by fastforce
  have r: "rmod sc1 = rmod sc" "rod d w s1"
    using rmod_lfn_sequence [of p rec sc s] lfn_sequence_rod [OF assms, of p rec sc] by (simp_all add: 1)
  obtain t ln where "lfn_chars (unat ((ucast (rec 0 AND 31) - 1 :: u32) * 13)) rec (longName s1) = (t, ln)"
    by fastforce
  with 1 r show "rmod (fst (entry_lfn p rec sc s)) = rmod sc" "rod d w (snd (entry_lfn p rec sc s))"
    by (simp_all add: entry_lfn_def Let_def)
qed

lemma entry_lfn_wp [wp]:
  assumes "rod d w s" "unmod (rmod sc)" "\<And>sc t. rod d w t \<Longrightarrow> unmod (rmod sc) \<Longrightarrow> post (f sc t) Q"
  shows "post (case entry_lfn p rec sc s of (sc, t) \<Rightarrow> f sc t) Q"
  using assms entry_lfn_ro [OF assms(1), of p rec sc] by (simp add: case_prod_beta)

lemma entry_volume_ro: "rod d w s \<Longrightarrow> unmod (rmod sc) \<Longrightarrow> post (entry_volume p sc s) (calm d w)"
  unfolding entry_volume_def by (auto intro!: wp split: option.split)

lemmas [wp] = entry_volume_ro [THEN post_call2]

lemma entry_parse_ro:
  "rod d w s \<Longrightarrow> unmod (rmod sc) \<Longrightarrow>
   post (entry_parse i p nm sc s) (\<lambda>(r, t). rod d w t \<and> de_fsckflags (fst r) = 0 \<and> unmod (rmod (snd r)))"
  unfolding entry_parse_def by (auto intro!: wp simp: Let_def invalidate_def zero_de_def)

lemmas [wp] = entry_parse_ro [THEN post_call2]

lemma entry_invlfn_ro: "rod d w s \<Longrightarrow> unmod (rmod sc) \<Longrightarrow> post (entry_invlfn p sc s) (calm d w)"
  unfolding entry_invlfn_def by (auto intro!: wp simp: Let_def split: option.split)

lemmas [wp] = entry_invlfn_ro [THEN post_call2]

lemma entry_sane_ro:
  "rod d w s \<Longrightarrow> unmod (rmod sc) \<Longrightarrow> de_fsckflags de = 0 \<Longrightarrow>
   post (entry_sane p de sc s)
     (\<lambda>(r, t). rod d w t \<and> de_fsckflags (fst (snd r)) = 0 \<and> unmod (rmod (snd (snd r))))"
  unfolding entry_sane_def by (auto intro!: wp)

lemmas [wp] = entry_sane_ro [THEN post_call2]

lemma entry_push_ro:
  "rod d w s \<Longrightarrow> unmod (rmod sc) \<Longrightarrow> de_fsckflags de = 0 \<Longrightarrow> post (entry_push i de sc s) (calm d w)"
  unfolding entry_push_def by (auto intro!: wp)

lemmas [wp] = entry_push_ro [THEN post_call2]

lemma entry_directory_ro:
  "rod d w s \<Longrightarrow> unmod (rmod sc) \<Longrightarrow> de_fsckflags de = 0 \<Longrightarrow> post (entry_directory i p de sc s) (calm d w)"
  unfolding entry_directory_def entry_dot_def entry_dotdot_def entry_subdir_def
  by (auto intro!: wp simp: Let_def)

lemmas [wp] = entry_directory_ro [THEN post_call2]

lemma entry_file_ro: "rod d w s \<Longrightarrow> unmod (rmod sc) \<Longrightarrow> post (entry_file p de sc s) (calm d w)"
  unfolding entry_file_def by (auto intro!: wp simp: Let_def)

lemmas [wp] = entry_file_ro [THEN post_call2]

lemma entry_short_ro: "rod d w s \<Longrightarrow> unmod (rmod sc) \<Longrightarrow> post (entry_short i p rec sc s) (calm d w)"
  unfolding entry_short_def entry_checked_def by (auto intro!: wp split: prod.split)

lemmas [wp] = entry_short_ro [THEN post_call2]

lemma dir_entry_ro: "rod d w s \<Longrightarrow> unmod (rmod sc) \<Longrightarrow> post (dir_entry i p sc s) (calm d w)"
  unfolding dir_entry_def by (auto intro!: wp simp: bit.conj_disj_distrib2)

lemmas [wp] = dir_entry_ro [THEN post_call2]

lemma dir_entries_ro: "rod d w s \<Longrightarrow> unmod (rmod sc) \<Longrightarrow> post (dir_entries n i p sc s) (calm d w)"
proof (induction n arbitrary: p sc s)
  case (Suc n)
  note ih = Suc.IH [THEN post_call2]
  show ?case using Suc.prems by (auto intro!: wp ih)
qed (auto intro!: wp)

lemmas [wp] = dir_entries_ro [THEN post_call2]

lemma buffer_read_ro: "rod d w s \<Longrightarrow> post (buffer_read off n s) (\<lambda>(r, t). rod d w t)"
  unfolding buffer_read_def by (auto intro!: wp)

lemmas [wp] = buffer_read_ro [THEN post_call]

lemma dir_clusters_ro:
  assumes "rod d w s" "unmod (rmod sc)"
  shows "post (dir_clusters i lr io en sc s) (calm d w)"
proof (rule postI)
  fix r
  assume "dir_clusters i lr io en sc s = Some r"
  then show "calm d w r" using assms
  proof (induction rule: dir_clusters.raw_induct [rotated, consumes 1, case_names step])
    case (step f i lr io en sc s r)
    have ih: "post (f i lr io en sc s) (calm d w)" if "rod d w s" "unmod (rmod sc)" for i lr io en sc s
      using step.IH that by (auto simp: post_def)
    show ?case
      by (rule postD [OF _ step.hyps])
        (use step.prems in \<open>auto intro!: wp ih simp: Let_def unmod_and\<close>)
  qed
qed

lemmas [wp] = dir_clusters_ro [THEN post_call2]

lemma readDosDirSection_ro: "rod d w s \<Longrightarrow> post (readDosDirSection i s) (\<lambda>(r, t). rod d w t)"
  unfolding readDosDirSection_def dir_finish_def
  by (auto intro!: wp simp: Let_def scan0_def split: option.split)

lemmas [wp] = readDosDirSection_ro [THEN post_call]

lemma dir_todo_ro:
  assumes "rod d w s"
  shows "post (dir_todo m s) (\<lambda>(r, t). rod d w t)"
proof (rule postI)
  fix r
  assume "dir_todo m s = Some r"
  then show "case r of (r, t) \<Rightarrow> rod d w t" using assms
  proof (induction rule: dir_todo.raw_induct [rotated, consumes 1, case_names step])
    case (step f m s r)
    have ih: "post (f m s) (\<lambda>(r, t). rod d w t)" if "rod d w s" for m s
      using step.IH that by (auto simp: post_def)
    show ?case
      by (rule postD [OF _ step.hyps])
        (use step.prems in \<open>auto intro!: wp ih simp: freeDirTodo_def split: list.split\<close>)
  qed
qed

lemmas [wp] = dir_todo_ro [THEN post_call]

lemma handleDirTree_ro: "rod d w s \<Longrightarrow> post (handleDirTree s) (\<lambda>(r, t). rod d w t)"
  unfolding handleDirTree_def by (auto intro!: wp post_any [of _ "rootDir s"])

lemmas [wp] = handleDirTree_ro [THEN post_call]

section \<open>Lost chains\<close>

lemma reconnect_ro [simp]: "rod d w s \<Longrightarrow> reconnect hd1 len s = Some (FSERROR, s)"
  by (simp add: reconnect_def)

lemma lost_chain_ro: "rod d w s \<Longrightarrow> post (lost_chain hd1 m s) (\<lambda>(r, t). rod d w t)"
  unfolding lost_chain_def by (auto intro!: wp)

lemmas [wp] = lost_chain_ro [THEN post_call]

lemma lost_scan_ro:
  assumes "rod d w s"
  shows "post (lost_scan hd1 n m s) (\<lambda>(r, t). rod d w t)"
proof (rule postI)
  fix r
  assume "lost_scan hd1 n m s = Some r"
  then show "case r of (r, t) \<Rightarrow> rod d w t" using assms
  proof (induction rule: lost_scan.raw_induct [rotated, consumes 1, case_names step])
    case (step f hd1 n m s r)
    have ih: "post (f hd1 n m s) (\<lambda>(r, t). rod d w t)" if "rod d w s" for hd1 n m s
      using step.IH that by (auto simp: post_def)
    show ?case
      by (rule postD [OF _ step.hyps]) (use step.prems in \<open>auto intro!: wp ih\<close>)
  qed
qed

lemmas [wp] = lost_scan_ro [THEN post_call]

lemma lost_nextfree_ro: "ro d w P s \<Longrightarrow> post (lost_nextfree r s) (\<lambda>(r', t). ro d w P t \<and> r' = r)"
  unfolding lost_nextfree_def by (auto intro!: wp)

lemmas [wp] = lost_nextfree_ro [THEN post_call2]

lemma lost_fsinfo_ro: "ro d w P s \<Longrightarrow> post (lost_fsinfo m s) (\<lambda>(r, t). ro d w P t)"
  unfolding lost_fsinfo_def by (auto intro!: wp)

lemmas [wp] = lost_fsinfo_ro [THEN post_call]

lemma checklost_ro: "rod d w s \<Longrightarrow> post (checklost s) (\<lambda>(r, t). rod d w t)"
  unfolding checklost_def finishlf_def by (auto intro!: wp)

lemmas [wp] = checklost_ro [THEN post_call]

lemma check_phases_ro: "rod d w s \<Longrightarrow> post (check_phases m s) (\<lambda>(r, t). rod d w t)"
  unfolding check_phases_def check_finish_def check_update_def check_clean_def
  by (auto intro!: wp simp: Let_def)

lemmas [wp] = check_phases_ro [THEN post_call]

text \<open>
  \<open>fresh\<close>: nothing is left over from an earlier check: no directory entry is marked for truncation
  and no cached chunk of a FAT is dirty. The program starts with empty lists.
\<close>

definition fresh :: "dirs \<Rightarrow> bool" where
  "fresh s \<longleftrightarrow> (\<forall>e\<in>set (deheap s). unwarned e) \<and> (\<forall>e\<in>set (fat32_cache_head (fat s)). \<not> dirty e)"

lemma checkfilesys_ro:
  assumes "alwaysno s \<or> \<not> open_rw" "fresh s"
  shows "post (checkfilesys open_rw open_ro s)
    (\<lambda>(r, t). dev t = dev s \<and> writes t = writes s \<and> alwaysno t = alwaysno s \<and> fresh t)"
proof -
  let ?I = "rod (dev s) (writes s, alwaysno s)"
  have I: "?I (snd (open_device open_rw open_ro s))"
    using assms by (auto simp: open_device_def Let_def ro_def fresh_def)
  have "post (checkfilesys open_rw open_ro s) (\<lambda>(r, t). ?I t)"
    unfolding checkfilesys_def
    by (rule post_pair [where I = ?I, OF I]) (auto intro!: wp simp: Let_def)
  then show ?thesis
    by (rule post_mono) (auto simp: ro_def fresh_def)
qed

lemma main_files_ro:
  assumes "alwaysno s" "fresh s"
  shows "post (main_files fs ret s) (\<lambda>(r, t). writes t = writes s)"
  using assms
proof (induction fs arbitrary: ret s)
  case (Cons f fs)
  let ?s = "s\<lparr>dev := fst f, pos := 0\<rparr>"
  have fr: "fresh ?s" and an: "alwaysno ?s" using Cons.prems by (simp_all add: fresh_def)
  show ?case
    unfolding main_files.simps
    by (rule post_bind, rule post_mono [OF checkfilesys_ro [OF disjI1 [OF an] fr]])
      (auto intro!: post_mono [OF Cons.IH] simp: an [simplified])
qed (simp add: post_Some)

lemma main_opts_n:
  assumes "main_opts os s = Inr t" "CHR ''n'' \<in> set os \<or> alwaysno s" "CHR ''y'' \<notin> set os" "fresh s"
  shows "alwaysno t \<and> fresh t \<and> writes t = writes s"
  using assms
proof (induction os arbitrary: s)
  case (Cons c os)
  then obtain u where u: "main_opt c s = Inr u" "main_opts os u = Inr t"
    by (auto split: sum.splits)
  have "(CHR ''n'' \<in> set os \<or> alwaysno u) \<and> fresh u \<and> writes u = writes s"
    using u(1) Cons.prems by (auto simp: main_opt_def fresh_def split: if_splits)
  with Cons.IH [OF u(2)] Cons.prems(3) show ?case by simp
qed simp

text \<open>The program at its start, on a device; and an image of a clean FAT16 volume.\<close>

definition fsck_start :: "buf \<Rightarrow> dirs" where
  "fsck_start d = \<lparr>alwaysno = False, alwaysyes = False, preen = False, rdonly = False,
     skipclean = False, allow_mmap = False, input = [], dev = d, pos = 0, io_faults = [],
     alloc_faults = [], mmap_faults = [], junk = (\<lambda>_. 0), writes = [], boot = zero_boot, fat = zero_fat,
     longName = replicate 256 0, buffer = Null, delbuf = Null, deheap = [], freede = None, freedt = 0,
     pendingDirectories = [], rootDir = None, lostDir = None, lfbuf = Null, lfcl = 0, lfoff = 0\<rparr>"

definition clean_image :: buf where
  "clean_image = \<lparr>blen = 2103296, bdat = (sample_block 1 16 0x0c 0x10)(22 := 16, 512 := 0xf0,
     513 := 0xff, 514 := 0xff, 515 := 0xff)\<rparr>"

lemma fsck_start_fresh: "fresh (fsck_start d)"
  by (simp add: fresh_def fsck_start_def zero_fat_def)

lemma clean_image_skipped:
  "\<exists>t. checkfilesys rw True (fsck_start clean_image\<lparr>alwaysno := True, preen := True, skipclean := True,
     allow_mmap := mm\<rparr>) = Some (0, t)"
  by (simp add: checkfilesys_def open_device_def fsck_start_def clean_image_def readboot_eval checkdirty_def
      malloc_def seek_read_def lseek_def fat_start_def first_bytes_def)

text \<open>An empty FAT12 volume of eight sectors, and the definitions that a run evaluates.\<close>

definition tiny_image :: buf where
  "tiny_image = \<lparr>blen = 4096, bdat = (sample_block 1 16 8 0)(512 := 0xf0, 513 := 0xff, 514 := 0xff)\<rparr>"

lemma dir_entries_numeral:
  "dir_entries (numeral n) d p sc s = do {
     ((f, sc), s) \<leftarrow> dir_entry d p sc s;
     case f of
       Ret r \<Rightarrow> Some ((Ret r, sc), s)
     | _ \<Rightarrow> dir_entries (pred_numeral n) d (p + 32) sc s }"
  by (simp add: numeral_eq_Suc)

lemmas fsck_eval = dir_entries_numeral
  checkfilesys_def open_device_def fsck_start_def readboot_eval malloc_def seek_read_def lseek_def
  fat_start_def first_bytes_def readfat_def readfat_table_def readfat_buffer_def zero_fat_def
  readfat_accessor_def bitmap_ctor_def roundup2_def readfat_signature_def fat_bytes_def sig_len_def
  fat_ld_def ld_def sig_odd_def clusters_def scan_step_def scan_entry_def scan_truncate_def
  fat_get_cl_next_def valid_cl_def fat_get_def fat_get_fat12_next_def fat_get_fat12_ptr_def le16dec_def
  clear_if_head_def fat_is_cl_head_def fat_clear_cl_head_def bitmap_get_def bitmap_clear_def
  check_phases_def resetDosDirSection_def newDosDirEntry_def upd_de_def get_de_def zero_de_def
  handleDirTree_def readDosDirSection_def fat_is_valid_cl_def root_off_def buffer_read_def live_def
  dir_entry_def slot_def dir_finish_def scan0_def dir_todo.simps dir_clusters.simps
  checklost_def lost_scan.simps fat_get_head_count_def bitmap_count_def fat_is_cl_head_in_range_def
  bitmap_none_in_range_def finishlf_def free_ptr_def lost_fsinfo_def check_finish_def check_update_def
  bm_word_def check_clean_def has_def finishDosDirSection_def free_tree.simps freeDosDirEntry_def

lemma tiny_run: "\<exists>t. checkfilesys False True (fsck_start tiny_image) = Some (0, t)"
  by (simp add: fsck_eval tiny_image_def)

section \<open>Properties\<close>

text \<open>
  C3: a check of a file system with \<^verbatim>\<open>-n\<close>, or of a device that cannot be opened for writing, leaves
  every byte of the device as it was and issues no write at all when it returns, whatever the device contains,
  whichever I/O and allocation faults occur, and whether or not the FAT is memory-mapped or cached.
\<close>

theorem rdonly_check_writes_nothing:
  assumes "alwaysno s \<or> \<not> open_rw" and "fresh s"
    and "checkfilesys open_rw open_ro s = Some (status, t)"
  shows "dev t = dev s \<and> writes t = writes s"
  using postD [OF checkfilesys_ro [OF assms(1,2)] assms(3)] by simp

theorem rdonly_check_writes_nothing_witness:
  "\<exists>t. checkfilesys False True (fsck_start tiny_image) = Some (0, t) \<and> dev t = tiny_image \<and> writes t = []"
proof -
  obtain t where t: "checkfilesys False True (fsck_start tiny_image) = Some (0, t)"
    using tiny_run by blast
  have "alwaysno (fsck_start tiny_image) \<or> \<not> False" by simp
  from rdonly_check_writes_nothing [OF this fsck_start_fresh t] t show ?thesis
    by (auto simp: fsck_start_def)
qed

text \<open>
  C14: the whole program run with \<^verbatim>\<open>-n\<close> and without \<^verbatim>\<open>-y\<close>, on any number of file systems and with
  any other options, issues no write.
\<close>

theorem main_n_writes_nothing:
  assumes "CHR ''n'' \<in> set opts1" and "CHR ''y'' \<notin> set opts1" and "fresh s"
    and "fsck_main opts1 files s = Some (status, t)"
  shows "writes t = writes s"
proof (cases "main_opts opts1 (s\<lparr>skipclean := True, allow_mmap := True\<rparr>)")
  case (Inr u)
  have "fresh (s\<lparr>skipclean := True, allow_mmap := True\<rparr>)" using assms(3) by (simp add: fresh_def)
  with main_opts_n [OF Inr] assms(1,2) have u: "alwaysno u" "fresh u" "writes u = writes s" by auto
  with Inr assms(4) show ?thesis
    by (auto simp: fsck_main_def split: if_splits dest: postD [OF main_files_ro [OF u(1,2)]])
next
  case (Inl e)
  with assms(4) show ?thesis by (simp add: fsck_main_def)
qed

theorem main_n_writes_nothing_witness:
  "\<exists>t. fsck_main ''pn'' [(clean_image, True, True)] (fsck_start clean_image) = Some (0, t) \<and> writes t = []"
proof -
  have "(fsck_start clean_image)\<lparr>skipclean := True, allow_mmap := True, preen := True, alwaysno := True,
      alwaysyes := False, dev := clean_image, pos := 0\<rparr>
    = fsck_start clean_image\<lparr>alwaysno := True, preen := True, skipclean := True, allow_mmap := True\<rparr>"
    by (simp add: fsck_start_def)
  then obtain t where "fsck_main ''pn'' [(clean_image, True, True)] (fsck_start clean_image) = Some (0, t)"
    using clean_image_skipped [of True True] by (auto simp: fsck_main_def main_opt_def)
  moreover from main_n_writes_nothing [OF _ _ fsck_start_fresh this] have "writes t = []"
    by (simp add: fsck_start_def)
  ultimately show ?thesis by blast
qed

end
