(* ===== verification/Newfs_Fsck.thy ===== *)
theory Newfs_Fsck
  imports Newfs_Boot Fsck_Clean Fsck_ReadOnlyRun
begin

text \<open>
  The two programs together: the FAT and the root directory that newfs_msdos writes are those of an
  empty file system, so that every phase of fsck_msdosfs on a new volume is one of \<^verbatim>\<open>Fsck_Clean\<close>.
\<close>

section \<open>The FAT and the root directory of a fresh volume\<close>

lemma fat_sector_fresh:
  assumes "fat1 \<in> {12, 16, 32}" "b_Media b < 0x100"
  shows "fat_sector fat1 b (\<lambda>_. 0) k = fresh_bytes (fat_mask fat1) (ucast (b_Media b)) k"
  using assms(1)
  by (auto simp: fat_sector_def fresh_bytes_def fat_mask_def put_bytes_def nth_Cons split: nat.splits)

text \<open>A sector behind the reserved ones.\<close>

lemma mk_sector_data:
  assumes f: "fresh_volume o1 p d" and l: "unat (b_ResSectors (p_bpb p)) \<le> L" "L < image_sectors p"
  shows "mk_sector o1 p t usec (of_nat L) (boot_img o1 p (of_nat L)) k =
    (if L < plan_meta p - unat (p_rds p) \<and> (L - unat (b_ResSectors (p_bpb p))) mod plan_spf p = 0
     then fat_sector (p_fat p) (p_bpb p) (\<lambda>_. 0) k
     else case o_volume_label o1 of Some lb \<Rightarrow> if L = plan_meta p - unat (p_rds p) then label_sector lb t (\<lambda>_. 0) k else 0 | None \<Rightarrow> 0)"
proof -
  let ?b = "p_bpb p"
  have ok: "plan_ok p" and bi: "boot_img o1 p l = (\<lambda>_. 0)" for l
    using f by (simp_all add: fresh_volume_def boot_img_def)
  note pk = plan_okD [OF ok] and im = image_sectors_eq [OF ok]
  have "plan_sectors p < 2 ^ 32" unfolding plan_sectors_def by (rule unat_u32_less)
  with l im have L: "L < 2 ^ 32" by linarith
  then have u: "unat (of_nat L :: u32) = L" by (simp add: unat_of_nat take_bit_nat_eq_self)
  have z: "(of_nat L :: u32) \<noteq> 0" using l(1) pk(6) u by (metis le_zero_eq not_one_le_zero order.trans unat_0)
  have sub: "unat ((of_nat L :: u32) - b_ResSectors ?b) = L - unat (b_ResSectors ?b)"
    using l(1) by (simp add: unat_sub word_le_nat_alt u)
  have m: "((of_nat L :: u32) - b_ResSectors ?b) mod spf ?b = 0 \<longleftrightarrow> (L - unat (b_ResSectors ?b)) mod plan_spf p = 0"
    by (simp add: word_unat_eq_iff unat_mod_distrib sub im(4))
  have dr: "(of_nat L :: u32) < mk_dir ?b \<longleftrightarrow> L < plan_meta p - unat (p_rds p)"
    "(of_nat L :: u32) = mk_dir ?b \<longleftrightarrow> L = plan_meta p - unat (p_rds p)"
    using im(3) by (simp_all add: word_less_nat_alt word_unat_eq_iff u)
  have ge: "b_ResSectors ?b \<le> (of_nat L :: u32)" using l(1) by (simp add: word_le_nat_alt u)
  have special: "(of_nat L :: u32) \<noteq> b_Backup ?b" "(of_nat L :: u32) \<noteq> b_FSInfo ?b" "(of_nat L :: u32) \<noteq> b_Backup ?b + b_FSInfo ?b"
    if "p_fat p = 32"
  proof -
    have s: "unat (b_Backup ?b) + unat (b_FSInfo ?b) < unat (b_ResSectors ?b)"
      using f that unfolding fresh_volume_def default_info_def by blast
    have "unat (b_Backup ?b + b_FSInfo ?b) = unat (b_Backup ?b) + unat (b_FSInfo ?b)"
      using s unat_u32_less [of "b_ResSectors ?b"] by (intro unat_add_small) simp
    then show "(of_nat L :: u32) \<noteq> b_Backup ?b" "(of_nat L :: u32) \<noteq> b_FSInfo ?b" "(of_nat L :: u32) \<noteq> b_Backup ?b + b_FSInfo ?b"
      using s l(1) by (auto simp: word_unat_eq_iff u)
  qed
  show ?thesis
    unfolding mk_sector_def Let_def bi using z special ge by (auto simp: m dr split: option.split)
qed

lemma volume_fat_bytes:
  assumes f: "fresh_volume o1 p d" and i: "i < plan_spf p * unat (b_BytesPerSec (p_bpb p))"
  shows "bdat (volume_image o1 p t usec d) (unat (b_ResSectors (p_bpb p)) * unat (b_BytesPerSec (p_bpb p)) + i)
    = fresh_bytes (fat_mask (p_fat p)) (ucast (b_Media (p_bpb p))) i"
proof -
  let ?b = "p_bpb p" and ?P = "unat (b_BytesPerSec (p_bpb p))" and ?R = "unat (b_ResSectors (p_bpb p))"
  have ok: "plan_ok p" using f by (simp add: fresh_volume_def)
  note pk = plan_okD [OF ok] and im = image_sectors_eq [OF ok]
  have P: "512 \<le> ?P" using bps_nat [OF pk(2)] by auto
  have q: "i div ?P < plan_spf p" using i P by (simp add: div_less_iff_less_mult)
  have "plan_spf p * 1 \<le> plan_spf p * unat (b_FATs ?b)" using pk(4) by (rule mult_le_mono2)
  then have "i div ?P < plan_spf p * unat (b_FATs ?b)" using q by linarith
  then have dir: "?R + i div ?P < plan_meta p - unat (p_rds p)" by (simp add: plan_meta_def)
  then have L: "?R + i div ?P < image_sectors p" using im(1) by simp
  have "?R * ?P + i = (?R + i div ?P) * ?P + i mod ?P" by (simp add: algebra_simps)
  then have "bdat (volume_image o1 p t usec d) (?R * ?P + i) = mk_sector o1 p t usec (of_nat (?R + i div ?P)) (boot_img o1 p (of_nat (?R + i div ?P))) (i mod ?P)"
    using volume_image_sector [OF L, of "i mod ?P"] P by simp
  also have "\<dots> = (if i div ?P = 0 then fat_sector (p_fat p) ?b (\<lambda>_. 0) (i mod ?P) else 0)"
    using mk_sector_data [OF f _ L] dir q by (auto split: option.split)
  also have "\<dots> = fresh_bytes (fat_mask (p_fat p)) (ucast (b_Media ?b)) i"
  proof (cases "i div ?P = 0")
    case True
    then show ?thesis using fat_sector_fresh [OF pk(1,17)] P by (auto simp: div_eq_0_iff)
  next
    case False
    then have "512 \<le> i" using P by (auto simp: div_eq_0_iff)
    then show ?thesis using False by (simp add: fresh_bytes_def)
  qed
  finally show ?thesis .
qed

text \<open>The first slot of the root directory holds the label, if there is one.\<close>

definition label_ok :: "msdos_options \<Rightarrow> bool" where
  "label_ok o1 \<longleftrightarrow> (case o_volume_label o1 of None \<Rightarrow> True | Some l \<Rightarrow> oklabel l)"

lemma mk_plan_label: "mk_plan o1 ssz dsz = Some p \<Longrightarrow> label_ok o1"
  by (auto simp: mk_plan_def label_ok_def Option.bind_eq_Some_conv split: option.splits if_splits)

lemma mklabel_head:
  assumes "oklabel l"
  shows "mklabel l ! 0 \<noteq> 0" "mklabel l ! 0 \<noteq> SLOT_DELETED"
proof -
  obtain c cs where l: "l = c # cs" "label_char 0 c"
    using assms by (cases l) (auto simp: oklabel_def numeral_eq_Suc)
  then have "\<not> c < 0x21" by (simp add: label_char_def)
  then have c: "toupper c \<noteq> 0" by (auto simp: toupper_def word_less_nat_alt word_le_nat_alt word_unat_eq_iff unat_sub)
  have t: "take 11 l = c # take 10 cs" using l by simp
  show "mklabel l ! 0 \<noteq> 0" "mklabel l ! 0 \<noteq> SLOT_DELETED"
    using c by (auto simp: mklabel_def Let_def t)
qed

lemma volume_root_blank:
  assumes f: "fresh_volume o1 p d" and lb: "label_ok o1" and n0: "0 < n"
    and n: "32 * n \<le> (image_sectors p - (plan_meta p - unat (p_rds p))) * unat (b_BytesPerSec (p_bpb p))"
  shows "blank_slots (\<lambda>k. bdat (volume_image o1 p t usec d) ((plan_meta p - unat (p_rds p)) * unat (b_BytesPerSec (p_bpb p)) + k)) n"
proof -
  let ?P = "unat (b_BytesPerSec (p_bpb p))" and ?D = "plan_meta p - unat (p_rds p)"
  have ok: "plan_ok p" using f by (simp add: fresh_volume_def)
  note pk = plan_okD [OF ok] and im = image_sectors_eq [OF ok]
  have P: "512 \<le> ?P" using bps_nat [OF pk(2)] by auto
  have byte: "bdat (volume_image o1 p t usec d) (?D * ?P + k) =
      (case o_volume_label o1 of Some l \<Rightarrow> if k < ?P then label_sector l t (\<lambda>_. 0) k else 0 | None \<Rightarrow> 0)"
    if k: "k < 32 * n" for k
  proof -
    have "k div ?P < image_sectors p - ?D" using k n P by (simp add: div_less_iff_less_mult)
    then have L: "?D + k div ?P < image_sectors p" by simp
    have R: "unat (b_ResSectors (p_bpb p)) \<le> ?D + k div ?P" by (simp add: plan_meta_def)
    have "?D * ?P + k = (?D + k div ?P) * ?P + k mod ?P" by (simp add: algebra_simps)
    moreover have "k div ?P = 0 \<longleftrightarrow> k < ?P" using P by (auto simp: div_eq_0_iff)
    ultimately show ?thesis
      using volume_image_sector [OF L, of "k mod ?P"] mk_sector_data [OF f R L] P by (auto split: option.split)
  qed
  have lab: "label_sector l t (\<lambda>_. 0) 0 = mklabel l ! 0" "label_sector l t (\<lambda>_. 0) 11 = 0x28"
    "26 \<le> k \<Longrightarrow> label_sector l t (\<lambda>_. 0) k = 0" for l k
    by (simp_all add: label_sector_def Let_def put_bytes_def nth_append)
  have "bdat (volume_image o1 p t usec d) (?D * ?P + 0) = (case o_volume_label o1 of Some l \<Rightarrow> mklabel l ! 0 | None \<Rightarrow> 0)"
    "bdat (volume_image o1 p t usec d) (?D * ?P + 11) = (case o_volume_label o1 of Some l \<Rightarrow> 0x28 | None \<Rightarrow> 0)"
    using byte [of 0] byte [of 11] P lab n0 by (auto split: option.split)
  then show ?thesis
    unfolding blank_slots_def using byte lab(3) lb mklabel_head by (auto simp: label_ok_def split: option.splits)
qed

section \<open>Making and checking\<close>

lemma fsck_view_simps:
  "bpbBytesPerSec (fsck_view p) = b_BytesPerSec (p_bpb p)" "bpbSecPerClust (fsck_view p) = b_SecPerClust (p_bpb p)"
  "bpbResSectors (fsck_view p) = b_ResSectors (p_bpb p)" "bpbFATs (fsck_view p) = b_FATs (p_bpb p)"
  "bpbRootDirEnts (fsck_view p) = b_RootDirEnts (p_bpb p)" "bpbMedia (fsck_view p) = b_Media (p_bpb p)"
  "FATsecs (fsck_view p) = of_nat (plan_spf p)" "ClustMask (fsck_view p) = fat_mask (p_fat p)"
  "NumClusters (fsck_view p) = p_cls p + 2" "FirstCluster (fsck_view p) = of_nat (plan_meta p)"
  "is_fat32 (fsck_view p) \<longleftrightarrow> p_fat p = 32" "p_fat p = 32 \<Longrightarrow> bpbRootClust (fsck_view p) = 2"
  "p_fat p \<noteq> 32 \<Longrightarrow> bpbFSInfo (fsck_view p) = 0"
  "p_fat p = 32 \<Longrightarrow> FSFree (fsck_view p) = 0xffffffff \<and> FSNext (fsck_view p) = 0xffffffff"
  by (auto simp: fsck_view_def info_view_def bpb_view_def Let_def zero_boot_def is_fat32_def)

lemma mask_entries_plan:
  assumes "p_fat p \<in> {12, 16, 32}"
  shows "mask_entries (fat_mask (p_fat p)) (plan_spf p * unat (b_BytesPerSec (p_bpb p))) = plan_entries p"
  using assms by (auto simp: mask_entries_def fat_mask_def plan_entries_def)

text \<open>The table is read in one piece.\<close>

definition table_in_memory :: "plan \<Rightarrow> 'a env_scheme \<Rightarrow> bool" where
  "table_in_memory p s \<longleftrightarrow> allow_mmap s \<and> mmap_faults s = [] \<or>
     \<not> (p_fat p = 32 \<and> plan_spf p * unat (b_BytesPerSec (p_bpb p)) \<ge> fat32_cache_size)"

lemma fresh_state:
  assumes f: "fresh_volume o1 p d" and lb: "label_ok o1" and dev: "dev s = volume_image o1 p t usec d"
    and mem: "table_in_memory p s"
  shows "fresh_fat (s\<lparr>boot := fsck_view p\<rparr>)" "fresh_root (s\<lparr>boot := fsck_view p\<rparr>)"
    and "fat_start (fsck_view p) + unat (bpbBytesPerSec (fsck_view p)) \<le> blen (dev s)"
proof -
  let ?b = "p_bpb p" and ?P = "unat (b_BytesPerSec (p_bpb p))" and ?R = "unat (b_ResSectors (p_bpb p))"
    and ?S = "unat (b_SecPerClust (p_bpb p))" and ?D = "plan_meta p - unat (p_rds p)"
  have ok: "plan_ok p" and sz: "plan_sectors p * ?P \<le> blen d" using f by (simp_all add: fresh_volume_def)
  note pk = plan_okD [OF ok] and im = image_sectors_eq [OF ok] and v = fsck_view_simps [of p]
  note fsz = fresh_fat_size [OF f]
  have P: "512 \<le> ?P" using bps_nat [OF pk(2)] by auto
  have sp: "plan_spf p < 2 ^ 32" unfolding plan_spf_def by (rule unat_u32_less)
  have len: "fat_bytes_len (fsck_view p) = plan_spf p * ?P"
    unfolding fat_bytes_len_def v using fsz sp by (subst unat_mult_small) (auto simp: unat_of_nat take_bit_nat_eq_self)
  have cls: "unat (p_cls p + 2) = unat (p_cls p) + 2" "unat (p_cls p) + 2 \<le> 0xffffff8"
  proof -
    have "unat (p_cls p) \<le> 0xffffff5" using pk(12) by (auto simp: maxcls_def word_le_nat_alt split: if_splits)
    then show "unat (p_cls p + 2) = unat (p_cls p) + 2" "unat (p_cls p) + 2 \<le> 0xffffff8"
      by (simp_all add: unat_word_ariths)
  qed
  have spf1: "1 \<le> plan_spf p" using pk(14) by (cases "plan_spf p") (auto simp: plan_entries_def)
  have c1: "1 \<le> unat (p_cls p)" using pk(11) by (auto simp: word_le_nat_alt mincls_def split: if_splits)
  have meta: "plan_meta p + ?S \<le> plan_sectors p"
    using pk(13) mult_le_mono1 [OF c1, of ?S] by linarith
  have one: "plan_spf p * 1 \<le> plan_spf p * unat (b_FATs ?b)" using pk(4) by (rule mult_le_mono2)
  have fit: "?R + plan_spf p \<le> plan_sectors p" using meta one unfolding plan_meta_def by linarith
  have "(?R + plan_spf p) * ?P \<le> blen d" using mult_le_mono1 [OF fit, of ?P] sz by linarith
  then have fl: "?R * ?P + plan_spf p * ?P \<le> blen d" by (simp add: algebra_simps)
  have P1: "1 * ?P \<le> plan_spf p * ?P" using spf1 by (rule mult_le_mono1)
  have "?R * ?P + ?P \<le> blen d" using fl P1 by linarith
  then show "fat_start (fsck_view p) + unat (bpbBytesPerSec (fsck_view p)) \<le> blen (dev s)"
    by (simp add: fat_start_def v dev)
  have mask: "fat_mask (p_fat p) = CLUST32_MASK \<longleftrightarrow> p_fat p = 32" using pk(1) by (auto simp: fat_mask_def)
  have n8: "8 \<le> plan_spf p * ?P" using P P1 by linarith
  show "fresh_fat (s\<lparr>boot := fsck_view p\<rparr>)"
    unfolding fresh_fat_def Let_def
  proof (intro conjI allI impI)
    show "ClustMask (boot (s\<lparr>boot := fsck_view p\<rparr>)) \<in> fat_masks" by (simp add: v fat_mask_def)
    show "8 \<le> fat_bytes_len (boot (s\<lparr>boot := fsck_view p\<rparr>))" using n8 by (simp add: len)
    show "unat (NumClusters (boot (s\<lparr>boot := fsck_view p\<rparr>)))
       \<le> mask_entries (ClustMask (boot (s\<lparr>boot := fsck_view p\<rparr>))) (fat_bytes_len (boot (s\<lparr>boot := fsck_view p\<rparr>)))"
      using mask_entries_plan [OF pk(1)] pk(14) by (simp add: v len cls(1))
    show "NumClusters (boot (s\<lparr>boot := fsck_view p\<rparr>)) \<le> 0xffffff8" using cls by (simp add: v word_le_nat_alt)
    fix i assume "i < fat_bytes_len (boot (s\<lparr>boot := fsck_view p\<rparr>))"
    then show "bdat (dev (s\<lparr>boot := fsck_view p\<rparr>)) (fat_start (boot (s\<lparr>boot := fsck_view p\<rparr>)) + i) =
        fresh_bytes (ClustMask (boot (s\<lparr>boot := fsck_view p\<rparr>))) (ucast (bpbMedia (boot (s\<lparr>boot := fsck_view p\<rparr>)))) i"
      using volume_fat_bytes [OF f] by (simp add: len v fat_start_def dev)
  qed (use pk(17) fl mem in \<open>simp_all add: v len fat_start_def dev table_in_memory_def mask\<close>)
  have md: "unat (of_nat (plan_meta p) :: u32) = plan_meta p"
    using meta unat_u32_less [of "of_nat (plan_sectors p)"] unat_u32_less [of "b_Sectors ?b"] unat_u32_less [of "b_HugeSectors ?b"]
    by (simp add: unat_of_nat take_bit_nat_eq_self plan_sectors_def split: if_splits)
  show "fresh_root (s\<lparr>boot := fsck_view p\<rparr>)"
  proof (cases "p_fat p = 32")
    case True
    have rds: "unat (p_rds p) = 0" "?P = 512"
      using pk(8,10) True f P by (auto simp: root_secs_def fresh_volume_def default_info_def)
    have S: "1 \<le> ?S" "?S \<le> 128" using spc_nat [OF pk(3)] by auto
    have m: "unat (b_SecPerClust ?b * b_BytesPerSec ?b) = ?S * 512" using S rds(2) by (subst unat_mult_small) auto
    have off: "cluster_off (fsck_view p) 2 = ?D * ?P" by (simp add: cluster_off_def v md rds)
    have "(plan_meta p + ?S) * ?P \<le> blen d" using mult_le_mono1 [OF meta, of ?P] sz by linarith
    moreover have "blank_slots (\<lambda>k. bdat (volume_image o1 p t usec d) (?D * ?P + k)) (?S * 512 div 32)"
      using volume_root_blank [OF f lb, of "?S * 512 div 32"] im(1) True S rds by (simp add: div_greater_zero_iff)
    moreover have "2 < p_cls p + 2" using c1 by (simp add: word_less_nat_alt cls(1))
    ultimately show ?thesis
      using True S by (simp add: fresh_root_def Let_def v m off dev rds fat_mask_def add_mult_distrib)
  next
    case False
    let ?n = "unat (b_RootDirEnts ?b)"
    have n: "b_RootDirEnts ?b \<noteq> 0" "b_RootDirEnts ?b \<le> 0xffff" "0 < ?n" using pk(9,10) False by (simp_all add: unat_gt_0)
    have r: "32 * ?n \<le> unat (p_rds p) * ?P"
    proof -
      have "32 * ?n \<le> (?n * 32 + ?P - 1) div ?P * ?P" using P div_mult_mod_eq [of "?n * 32 + ?P - 1" ?P]
        mod_less_divisor [of ?P "?n * 32 + ?P - 1"] by linarith
      then show ?thesis by (simp add: pk(8) root_secs_def)
    qed
    have off: "root_off (fsck_view p) = ?D * ?P"
    proof -
      have "b_ResSectors ?b + b_FATs ?b * of_nat (plan_spf p) = mk_dir ?b"
        by (simp add: mk_dir_def im(4) [symmetric] mult.commute)
      then show ?thesis by (simp add: root_off_def v im(3))
    qed
    have "(?D + unat (p_rds p)) * ?P \<le> plan_sectors p * ?P" using meta by (intro mult_le_mono1) (simp add: plan_meta_def)
    then have "?D * ?P + 32 * ?n \<le> blen d" using r sz by (simp add: algebra_simps)
    moreover have "blank_slots (\<lambda>k. bdat (volume_image o1 p t usec d) (?D * ?P + k)) ?n"
      using volume_root_blank [OF f lb n(3)] im(1) False r by (simp add: plan_meta_def)
    ultimately show ?thesis using False n by (simp add: fresh_root_def Let_def v off dev mask)
  qed
qed


text \<open>
  The requests for which the two programs agree: no alignment, bootstrap file or offset, a cluster
  count that the volume has room for and that falls on the same side of the limits of both programs,
  and a volume no smaller than the checker's first read; for FAT32 also the default place of the
  FSInfo block and an OEM string other than that of exFAT.
\<close>

definition fresh_request :: "msdos_options \<Rightarrow> plan \<Rightarrow> buf \<Rightarrow> bool" where
  "fresh_request o1 p d \<longleftrightarrow> \<not> o_align o1 \<and> \<not> o_no_create o1 \<and> o_offset o1 = 0 \<and> o_bootstrap o1 = None \<and>
     exact_clusters p \<and> 4096 \<le> blen d \<and> plan_sectors p * unat (b_BytesPerSec (p_bpb p)) \<le> blen d \<and>
     (p_fat p = 32 \<longrightarrow> default_info p \<and> not_exfat o1 \<and> plan_spf p * unat (b_BytesPerSec (p_bpb p)) < 2 ^ 32)"

lemma newfs_volume:
  assumes run: "mkfs_msdos os1 o1 s = Some (0, s')" and ch: "getchunksize (os_maxphys os1) = Some c"
    and p: "mk_plan o1 (os_blksszget os1) (os_blkgetsize64 os1) = Some p" and r: "fresh_request o1 p (mkfs_target o1 s)"
  shows "fresh_volume o1 p (mkfs_target o1 s)" and "label_ok o1"
    and "dev s' = volume_image o1 p (fst (mkfs_time os1 o1)) (snd (mkfs_time os1 o1)) (mkfs_target o1 s)"
proof -
  have na: "\<not> o_align o1" and o: "\<not> o_no_create o1" "o_offset o1 = 0" using r by (simp_all add: fresh_request_def)
  show "fresh_volume o1 p (mkfs_target o1 s)"
    using postD [OF mk_plan_post [OF na] p] r by (simp add: fresh_volume_def fresh_request_def)
  show "label_ok o1" by (rule mk_plan_label [OF p])
  show "dev s' = volume_image o1 p (fst (mkfs_time os1 o1)) (snd (mkfs_time os1 o1)) (mkfs_target o1 s)"
    using mkfs_msdos_cases [OF ch na, of s] run p o by (auto simp: mkfs_image_volume)
qed

text \<open>A small volume for the instances below.\<close>

lemma small_fresh: "fresh_request small_request small_plan \<lparr>blen = 20480, bdat = f\<rparr>"
  by (simp add: fresh_request_def exact_clusters_def small_plan_def plan_sectors_def plan_meta_def plan_spf_def fmt_def)

text \<open>
  C8: fsck_msdosfs derives from a volume that newfs_msdos has just made exactly the parameters of the
  plan: sizes, FAT type, position of the data region, number of clusters and FAT entries, and an
  FSInfo block without counts. No complaint, no question, no write. The volume was made under the
  conditions of \<open>fresh_request\<close>: without \<^verbatim>\<open>-A\<close>, \<^verbatim>\<open>-B\<close>, \<^verbatim>\<open>-@\<close> and \<^verbatim>\<open>-N\<close>, on a device that holds it and at
  least 4096 bytes, with exactly the clusters of its data area reported, not 0xff5 of them in FAT16 or 0xfff5
  in FAT32, and for FAT32 with 512-byte sectors, FSInfo and backup at the default places, an OEM name
  other than EXFAT and a FAT of less than 4 GiB. The chunk size can be computed and no read fails.
\<close>

theorem newfs_readboot_view:
  assumes "mkfs_msdos os1 o1 s = Some (0, s')" and "getchunksize (os_maxphys os1) = Some c"
    and "mk_plan o1 (os_blksszget os1) (os_blkgetsize64 os1) = Some p" and "fresh_request o1 p (mkfs_target o1 s)"
    and "dev f = dev s'" and "io_faults f = []" and "pos f = 0"
  shows "\<exists>f'. readboot f = Some ((FSOK, fsck_view p), f') \<and> quiet f f'"
proof -
  note nv = newfs_volume [OF assms(1-4)]
  from assms(5) nv(3) have dv: "dev f = volume_image o1 p (fst (mkfs_time os1 o1)) (snd (mkfs_time os1 o1)) (mkfs_target o1 s)" by simp
  show ?thesis using readboot_fresh [OF nv(1) dv assms(6,7)] by (auto simp: quiet_def opts_def)
qed

theorem newfs_readboot_view_witness:
  "\<exists>s' f'. mkfs_msdos sample_os small_request (sample_env \<lparr>blen = 20480, bdat = \<lambda>_. 7\<rparr>) = Some (0, s') \<and>
     readboot (fsck_start (dev s')) = Some ((FSOK, fsck_view small_plan), f') \<and> NumClusters (fsck_view small_plan) = 39"
proof -
  let ?s = "sample_env \<lparr>blen = 20480, bdat = \<lambda>_. 7\<rparr>"
  obtain s' where run: "mkfs_msdos sample_os small_request ?s = Some (0, s')" using small_run by blast
  have c: "getchunksize (os_maxphys sample_os) = Some 131072" by (simp add: sample_chunksize)
  have t: "mkfs_target small_request ?s = \<lparr>blen = 20480, bdat = \<lambda>_. 7\<rparr>" by (simp add: mkfs_target_def sample_env_def)
  have n: "NumClusters (fsck_view small_plan) = 39" by (simp add: fsck_view_def small_plan_def)
  have "\<exists>f'. readboot (fsck_start (dev s')) = Some ((FSOK, fsck_view small_plan), f') \<and> quiet (fsck_start (dev s')) f'"
    by (rule newfs_readboot_view [OF run c]) (simp_all add: small_plan t small_fresh fsck_start_def)
  with run n show ?thesis by blast
qed

text \<open>
  C1: a volume that newfs_msdos has just made is clean for fsck_msdosfs. The check runs through all
  its phases and returns status 0 without having written a byte, for every FAT type, with or without
  a volume label, however the device was opened and with every combination of the options of the check.
  The conditions on the volume are those of \<open>fresh_request\<close>: it was made without \<^verbatim>\<open>-A\<close>, \<^verbatim>\<open>-B\<close>, \<^verbatim>\<open>-@\<close> and
  \<^verbatim>\<open>-N\<close>; the device holds the volume and at least 4096 bytes; the reported clusters are all clusters of
  the data area, and are not 0xff5 in FAT16 or 0xfff5 in FAT32 (the check takes these volumes for the
  smaller type); a FAT32 volume has 512-byte sectors, the FSInfo sector and its backup at the default
  places, an OEM name other than EXFAT and a FAT of less than 4 GiB. The chunk size can be computed;
  during the check no I/O or allocation fails, the directory lists are still empty, and the table is
  read in one piece (mapped, or below the size from which a FAT32 table is cached).
\<close>

theorem newfs_fsck_clean:
  assumes "mkfs_msdos os1 o1 s = Some (0, s')" and "getchunksize (os_maxphys os1) = Some c"
    and "mk_plan o1 (os_blksszget os1) (os_blkgetsize64 os1) = Some p" and "fresh_request o1 p (mkfs_target o1 s)"
    and "dev f = dev s'" and "no_faults f" and "pos f = 0" and "dirs_idle f" and "table_in_memory p f"
    and "fst (open_device open_rw open_ro f)"
  shows "\<exists>f'. checkfilesys open_rw open_ro f = Some (0, f') \<and> dev f' = dev s' \<and> writes f' = writes f"
proof -
  note nv = newfs_volume [OF assms(1-4)]
  define u where "u = snd (open_device open_rw open_ro f)"
  have op: "open_device open_rw open_ro f = (True, u)" using assms(10) by (simp add: u_def prod_eq_iff)
  have u: "dev u = dev f" "io_faults u = []" "pos u = 0" "table_in_memory p u"
    using assms(6,7,9) op by (auto simp: open_device_def Let_def no_faults_def table_in_memory_def split: if_splits)
  from assms(5) nv(3) u(1) have dv: "dev u = volume_image o1 p (fst (mkfs_time os1 o1)) (snd (mkfs_time os1 o1)) (mkfs_target o1 s)" by simp
  obtain q where rb: "readboot u = Some ((FSOK, fsck_view p), u\<lparr>io_faults := [], pos := q\<rparr>)"
    using readboot_fresh [OF nv(1) dv u(2,3)] by blast
  note fs = fresh_state [OF nv(1,2) dv u(4)]
  have bps: "8 \<le> unat (bpbBytesPerSec (fsck_view p))"
    using nv(1) bps_nat [OF plan_okD(2) [of p]] by (auto simp: fsck_view_simps fresh_volume_def)
  have info: "bpbFSInfo (fsck_view p) = 0 \<or> FSFree (fsck_view p) = 0xffffffff \<and> FSNext (fsck_view p) = 0xffffffff"
    using fsck_view_simps(13,14) by blast
  show ?thesis
    using checkfilesys_fresh [OF op rb fs(1,2) assms(6,8) info bps] fs(3) u(1) assms(5) by auto
qed

theorem newfs_fsck_clean_witness:
  "\<exists>s' f'. mkfs_msdos sample_os small_request (sample_env \<lparr>blen = 20480, bdat = \<lambda>_. 7\<rparr>) = Some (0, s') \<and>
     checkfilesys True True (fsck_start (dev s')) = Some (0, f') \<and> writes f' = []"
proof -
  let ?s = "sample_env \<lparr>blen = 20480, bdat = \<lambda>_. 7\<rparr>"
  obtain s' where run: "mkfs_msdos sample_os small_request ?s = Some (0, s')" using small_run by blast
  have c: "getchunksize (os_maxphys sample_os) = Some 131072" by (simp add: sample_chunksize)
  have t: "mkfs_target small_request ?s = \<lparr>blen = 20480, bdat = \<lambda>_. 7\<rparr>" by (simp add: mkfs_target_def sample_env_def)
  have "\<exists>f'. checkfilesys True True (fsck_start (dev s')) = Some (0, f') \<and> dev f' = dev s' \<and>
      writes f' = writes (fsck_start (dev s'))"
    by (rule newfs_fsck_clean [OF run c, where p = small_plan])
      (simp_all add: small_plan t small_fresh fsck_start_def no_faults_def dirs_idle_def table_in_memory_def open_device_def)
  with run show ?thesis by (auto simp: fsck_start_def)
qed

end
