(* ===== verification/Usb_Parse.thy ===== *)
theory Usb_Parse
  imports Prelude
begin

text \<open>
  usb_parse.c: iteration over the descriptors of a USB configuration.

  A configuration descriptor is a byte array that starts with its own descriptor; a pointer into it
  is an offset, \<open>None\<close> the null pointer. The array is as long as the memory behind the pointer, so a
  read outside it has no value. The loops are \<open>partial_function\<close>s; that they end is a theorem.
\<close>

abbreviation (input) UDESC_INTERFACE :: byte where "UDESC_INTERFACE \<equiv> 4"
abbreviation (input) UDESC_ENDPOINT :: byte where "UDESC_ENDPOINT \<equiv> 5"
abbreviation (input) UDESC_ENDPOINT_SS_COMP :: byte where "UDESC_ENDPOINT_SS_COMP \<equiv> 0x30"
abbreviation (input) USB_IFACE_MAX :: byte where "USB_IFACE_MAX \<equiv> 32"

section \<open>One step\<close>

definition wTotalLength :: "buf \<Rightarrow> nat option" where
  "wTotalLength cd = do { lo \<leftarrow> ld cd 2; hi \<leftarrow> ld cd 3; Some (unat lo + 256 * unat hi) }"

definition usb_desc_foreach :: "buf option \<Rightarrow> nat option \<Rightarrow> nat option option" where
  "usb_desc_foreach cd desc =
    (case cd of
       None \<Rightarrow> Some None
     | Some cd \<Rightarrow> do {
         end1 \<leftarrow> wTotalLength cd;
         desc \<leftarrow> (case desc of None \<Rightarrow> Some 0 | Some d \<Rightarrow> do { l \<leftarrow> ld cd d; Some (d + unat l) });
         if desc \<ge> end1 then Some None
         else do {
           l \<leftarrow> ld cd desc;
           if desc + unat l > end1 then Some None
           else if l < 3 then Some None
           else Some (Some desc) } })"

text \<open>The fields \<^verbatim>\<open>bLength\<close>, \<^verbatim>\<open>bDescriptorType\<close> and \<^verbatim>\<open>bInterfaceNumber\<close> of the descriptor at \<open>d\<close>.\<close>

definition bLength :: "buf \<Rightarrow> nat \<Rightarrow> byte option" where
  "bLength cd d = ld cd d"

definition bDescriptorType :: "buf \<Rightarrow> nat \<Rightarrow> byte option" where
  "bDescriptorType cd d = ld cd (d + 1)"

definition bInterfaceNumber :: "buf \<Rightarrow> nat \<Rightarrow> byte option" where
  "bInterfaceNumber cd d = ld cd (d + 2)"

section \<open>Interfaces\<close>

record usb_idesc_parse_state =
  ps_desc :: "nat option"
  iface_index :: byte
  iface_no_last :: byte
  iface_index_alt :: byte

text \<open>
  The loop of \<open>usb_idesc_foreach\<close>: the descriptor it stops at, whether it starts a new interface, and
  the parse state. The accesses through \<^verbatim>\<open>id\<close> are to the configuration \<open>cd\<close>.
\<close>

partial_function (option) idesc_loop ::
  "buf \<Rightarrow> usb_idesc_parse_state \<Rightarrow> bool \<Rightarrow> nat option \<Rightarrow> (nat option \<times> bool \<times> usb_idesc_parse_state) option" where
  "idesc_loop cd ps new_iface id1 = do {
     id1 \<leftarrow> usb_desc_foreach (Some cd) id1;
     case id1 of
       None \<Rightarrow> Some (None, new_iface, ps)
     | Some d \<Rightarrow> do {
         t \<leftarrow> bDescriptorType cd d;
         l \<leftarrow> bLength cd d;
         if t = UDESC_INTERFACE \<and> l \<ge> 9 then do {
           n \<leftarrow> bInterfaceNumber cd d;
           if iface_no_last ps = n \<and> iface_index_alt ps = 255 then idesc_loop cd ps new_iface (Some d)
           else Some (Some d, if iface_no_last ps = n then False else new_iface, ps\<lparr>iface_no_last := n\<rparr>) }
         else idesc_loop cd ps new_iface (Some d) } }"

definition usb_idesc_foreach ::
  "buf option \<Rightarrow> usb_idesc_parse_state \<Rightarrow> (nat option \<times> usb_idesc_parse_state) option" where
  "usb_idesc_foreach cd ps = do {
     (id1, new_iface, ps) \<leftarrow>
       (case cd of None \<Rightarrow> Some (None, True, ps) | Some cd \<Rightarrow> idesc_loop cd ps True (ps_desc ps));
     let ps = (if ps_desc ps = None then ps
               else if new_iface then ps\<lparr>iface_index := iface_index ps + 1, iface_index_alt := 0\<rparr>
               else ps\<lparr>iface_index_alt := iface_index_alt ps + 1\<rparr>);
     let id1 = (if iface_index ps \<ge> USB_IFACE_MAX then None else id1);
     Some (id1, ps\<lparr>ps_desc := id1\<rparr>) }"

section \<open>Endpoints and their companions\<close>

partial_function (option) edesc_loop :: "buf \<Rightarrow> nat option \<Rightarrow> nat option option" where
  "edesc_loop cd desc = do {
     desc \<leftarrow> usb_desc_foreach (Some cd) desc;
     case desc of
       None \<Rightarrow> Some None
     | Some d \<Rightarrow> do {
         t \<leftarrow> bDescriptorType cd d;
         if t = UDESC_INTERFACE then Some None
         else if t = UDESC_ENDPOINT then do {
           l \<leftarrow> bLength cd d;
           Some (if l < 7 then None else Some d) }
         else edesc_loop cd (Some d) } }"

text \<open>Without a configuration the first \<open>usb_desc_foreach\<close> ends the loop.\<close>

definition usb_edesc_foreach :: "buf option \<Rightarrow> nat option \<Rightarrow> nat option option" where
  "usb_edesc_foreach cd ped = (case cd of None \<Rightarrow> Some None | Some cd \<Rightarrow> edesc_loop cd ped)"

partial_function (option) ed_comp_loop :: "buf \<Rightarrow> nat option \<Rightarrow> nat option option" where
  "ed_comp_loop cd desc = do {
     desc \<leftarrow> usb_desc_foreach (Some cd) desc;
     case desc of
       None \<Rightarrow> Some None
     | Some d \<Rightarrow> do {
         t \<leftarrow> bDescriptorType cd d;
         if t = UDESC_INTERFACE then Some None
         else if t = UDESC_ENDPOINT then Some None
         else if t = UDESC_ENDPOINT_SS_COMP then do {
           l \<leftarrow> bLength cd d;
           Some (if l < 6 then None else Some d) }
         else ed_comp_loop cd (Some d) } }"

definition usb_ed_comp_foreach :: "buf option \<Rightarrow> nat option \<Rightarrow> nat option option" where
  "usb_ed_comp_foreach cd ped = (case cd of None \<Rightarrow> Some None | Some cd \<Rightarrow> ed_comp_loop cd ped)"

section \<open>Counting\<close>

partial_function (option) no_descriptors_loop :: "buf \<Rightarrow> byte \<Rightarrow> nat option \<Rightarrow> byte \<Rightarrow> byte option" where
  "no_descriptors_loop cd type1 desc count = do {
     desc \<leftarrow> usb_desc_foreach (Some cd) desc;
     case desc of
       None \<Rightarrow> Some count
     | Some d \<Rightarrow> do {
         t \<leftarrow> bDescriptorType cd d;
         if t = type1 then
           (if count + 1 = 0xff then Some (count + 1) else no_descriptors_loop cd type1 (Some d) (count + 1))
         else no_descriptors_loop cd type1 (Some d) count } }"

definition usbd_get_no_descriptors :: "buf option \<Rightarrow> byte \<Rightarrow> byte option" where
  "usbd_get_no_descriptors cd type1 = (case cd of None \<Rightarrow> Some 0 | Some cd \<Rightarrow> no_descriptors_loop cd type1 None 0)"

partial_function (option) no_alts_loop :: "buf \<Rightarrow> byte \<Rightarrow> nat option \<Rightarrow> byte \<Rightarrow> byte option" where
  "no_alts_loop cd ifaceno desc n = do {
     desc \<leftarrow> usb_desc_foreach (Some cd) desc;
     case desc of
       None \<Rightarrow> Some n
     | Some d \<Rightarrow> do {
         t \<leftarrow> bDescriptorType cd d;
         l \<leftarrow> bLength cd d;
         if t = UDESC_INTERFACE \<and> l \<ge> 9 then do {
           i \<leftarrow> bInterfaceNumber cd d;
           if i = ifaceno then
             (if n + 1 = 0xff then Some (n + 1) else no_alts_loop cd ifaceno (Some d) (n + 1))
           else no_alts_loop cd ifaceno (Some d) n }
         else no_alts_loop cd ifaceno (Some d) n } }"

text \<open>The interface descriptor \<^verbatim>\<open>id\<close> is at offset \<open>id1\<close> of a memory \<open>m\<close>, which need not be the configuration.\<close>

definition usbd_get_no_alts :: "buf option \<Rightarrow> buf \<Rightarrow> nat \<Rightarrow> byte option" where
  "usbd_get_no_alts cd m id1 = do {
     ifaceno \<leftarrow> bInterfaceNumber m id1;
     case cd of None \<Rightarrow> Some 0 | Some cd \<Rightarrow> no_alts_loop cd ifaceno None 0 }"

section \<open>Specification: the list of descriptors\<close>

text \<open>
  The descriptors from offset \<open>p\<close> on, up to the first one that is shorter than three bytes or that
  reaches beyond \<open>e\<close>.
\<close>

function descs_from :: "buf \<Rightarrow> nat \<Rightarrow> nat \<Rightarrow> nat list" where
  "descs_from cd e p =
    (if p \<ge> e then []
     else let l = unat (bdat cd p)
          in if p + l > e \<or> l < 3 then [] else p # descs_from cd e (p + l))"
  by pat_completeness auto
termination
  by (relation "measure (\<lambda>(cd, e, p). e - p)") auto

declare descs_from.simps [simp del]

text \<open>A configuration whose length field has been checked against the memory it lies in.\<close>

definition config_ok :: "buf \<Rightarrow> bool" where
  "config_ok cd \<longleftrightarrow> 4 \<le> blen cd \<and> unat (bdat cd 2) + 256 * unat (bdat cd 3) \<le> blen cd"

definition total_len :: "buf \<Rightarrow> nat" where
  "total_len cd = unat (bdat cd 2) + 256 * unat (bdat cd 3)"

definition descs :: "buf \<Rightarrow> nat list" where
  "descs cd = descs_from cd (total_len cd) 0"

text \<open>The descriptors behind a position of the iteration.\<close>

definition rest_of :: "buf \<Rightarrow> nat option \<Rightarrow> nat list" where
  "rest_of cd d = (case d of None \<Rightarrow> descs cd | Some d \<Rightarrow> descs_from cd (total_len cd) (d + unat (bdat cd d)))"

definition hd_opt :: "'a list \<Rightarrow> 'a option" where
  "hd_opt xs = (case xs of [] \<Rightarrow> None | x # _ \<Rightarrow> Some x)"

lemma wTotalLength_ok: "config_ok cd \<Longrightarrow> wTotalLength cd = Some (total_len cd)"
  by (simp add: wTotalLength_def config_ok_def ld_def total_len_def)

lemma config_len: "config_ok cd \<Longrightarrow> total_len cd \<le> blen cd"
  by (simp add: config_ok_def total_len_def)

lemma descs_from_bounds:
  "d \<in> set (descs_from cd e p) \<Longrightarrow> p \<le> d \<and> 3 \<le> unat (bdat cd d) \<and> d + unat (bdat cd d) \<le> e"
proof (induction cd e p rule: descs_from.induct)
  case (1 cd e p)
  show ?case
  proof (cases "p \<ge> e \<or> p + unat (bdat cd p) > e \<or> unat (bdat cd p) < 3")
    case True
    then have "descs_from cd e p = []" by (subst descs_from.simps) (auto simp: Let_def)
    with 1(2) show ?thesis by simp
  next
    case False
    then have "descs_from cd e p = p # descs_from cd e (p + unat (bdat cd p))" by (subst descs_from.simps) (simp add: Let_def)
    with 1(2) have "d = p \<or> d \<in> set (descs_from cd e (p + unat (bdat cd p)))" by simp
    with 1(1) False show ?thesis by (auto simp: Let_def)
  qed
qed

lemma descs_from_Cons:
  assumes "descs_from cd e p = d # ds"
  shows "d = p" "ds = descs_from cd e (d + unat (bdat cd d))" "3 \<le> unat (bdat cd d)" "d + unat (bdat cd d) \<le> e" "d < e"
  using assms by (subst (asm) (1) descs_from.simps; auto simp: Let_def split: if_splits)+

text \<open>The position of an iteration: before the first descriptor, or at one of them.\<close>

definition at_desc :: "buf \<Rightarrow> nat option \<Rightarrow> bool" where
  "at_desc cd d \<longleftrightarrow> (case d of None \<Rightarrow> True | Some d \<Rightarrow> 3 \<le> unat (bdat cd d) \<and> d + unat (bdat cd d) \<le> total_len cd)"

lemma ld_in: "i < blen b \<Longrightarrow> ld b i = Some (bdat b i)"
  by (simp add: ld_def)

lemma usb_desc_foreach_ok:
  assumes ok: "config_ok cd" and d: "at_desc cd d"
  shows "usb_desc_foreach (Some cd) d = Some (hd_opt (rest_of cd d))"
proof -
  define p where "p = (case d of None \<Rightarrow> 0 | Some d \<Rightarrow> d + unat (bdat cd d))"
  have step: "(case d of None \<Rightarrow> Some 0 | Some d \<Rightarrow> do { l \<leftarrow> ld cd d; Some (d + unat l) }) = Some p"
    using d config_len [OF ok] by (auto simp: p_def at_desc_def ld_in split: option.split)
  have r: "rest_of cd d = descs_from cd (total_len cd) p"
    by (simp add: rest_of_def p_def descs_def split: option.split)
  have l: "p < total_len cd \<Longrightarrow> ld cd p = Some (bdat cd p)" using config_len [OF ok] by (simp add: ld_in)
  have lt: "bdat cd p < 3 \<longleftrightarrow> unat (bdat cd p) < 3" by (simp add: word_less_nat_alt)
  show ?thesis
    unfolding usb_desc_foreach_def option.case r
    using l by (subst descs_from.simps) (simp add: wTotalLength_ok [OF ok] step hd_opt_def Let_def lt)
qed

lemma rest_of_step:
  assumes ok: "config_ok cd" and r: "rest_of cd p = d # ds"
  shows "at_desc cd (Some d)" "rest_of cd (Some d) = ds" "bDescriptorType cd d = Some (bdat cd (d + 1))"
    "bLength cd d = Some (bdat cd d)" "bInterfaceNumber cd d = Some (bdat cd (d + 2))"
proof -
  have "\<exists>q. descs_from cd (total_len cd) q = d # ds" using r by (auto simp: rest_of_def descs_def split: option.splits)
  then obtain q where q: "descs_from cd (total_len cd) q = d # ds" by blast
  note c = descs_from_Cons [OF q]
  show "at_desc cd (Some d)" using c by (simp add: at_desc_def)
  show "rest_of cd (Some d) = ds" unfolding rest_of_def option.case by (rule c(2) [symmetric])
  show "bDescriptorType cd d = Some (bdat cd (d + 1))" "bLength cd d = Some (bdat cd d)"
    "bInterfaceNumber cd d = Some (bdat cd (d + 2))"
    using c config_len [OF ok] by (simp_all add: bDescriptorType_def bLength_def bInterfaceNumber_def ld_in)
qed


text \<open>Iterations along the list: induction on the descriptors that are left.\<close>

lemma rest_of_nth:
  assumes ok: "config_ok cd" and i: "i < length (descs cd)"
  shows "rest_of cd (Some (descs cd ! i)) = drop (Suc i) (descs cd)" "at_desc cd (Some (descs cd ! i))"
proof -
  have "rest_of cd (if i = 0 then None else Some (descs cd ! (i - 1))) = drop i (descs cd)" using i
  proof (induction i)
    case 0
    then show ?case by (simp add: rest_of_def)
  next
    case (Suc i)
    then have r: "rest_of cd (if i = 0 then None else Some (descs cd ! (i - 1))) = descs cd ! i # drop (Suc i) (descs cd)"
      by (simp add: Cons_nth_drop_Suc)
    show ?case using rest_of_step(2) [OF ok r] by simp
  qed
  also have "\<dots> = descs cd ! i # drop (Suc i) (descs cd)" using i by (simp add: Cons_nth_drop_Suc)
  finally have r: "rest_of cd (if i = 0 then None else Some (descs cd ! (i - 1))) = descs cd ! i # drop (Suc i) (descs cd)" .
  from rest_of_step(1,2) [OF ok r] show "rest_of cd (Some (descs cd ! i)) = drop (Suc i) (descs cd)"
    "at_desc cd (Some (descs cd ! i))" by simp_all
qed

definition is_iface :: "buf \<Rightarrow> nat \<Rightarrow> bool" where
  "is_iface cd d \<longleftrightarrow> bdat cd (d + 1) = UDESC_INTERFACE \<and> 9 \<le> bdat cd d"

text \<open>An interface descriptor that the iteration passes over: one alternate setting too many.\<close>

definition excess :: "buf \<Rightarrow> usb_idesc_parse_state \<Rightarrow> nat \<Rightarrow> bool" where
  "excess cd ps d \<longleftrightarrow> bdat cd (d + 2) = iface_no_last ps \<and> iface_index_alt ps = 255"

definition skipped :: "buf \<Rightarrow> usb_idesc_parse_state \<Rightarrow> nat \<Rightarrow> bool" where
  "skipped cd ps d \<longleftrightarrow> \<not> is_iface cd d \<or> excess cd ps d"

lemma idesc_loop_ok:
  assumes ok: "config_ok cd"
  shows "at_desc cd p \<Longrightarrow> idesc_loop cd ps new p =
    Some (case dropWhile (skipped cd ps) (rest_of cd p) of
            [] \<Rightarrow> (None, new, ps)
          | d # ds \<Rightarrow> (Some d, new \<and> iface_no_last ps \<noteq> bdat cd (d + 2), ps\<lparr>iface_no_last := bdat cd (d + 2)\<rparr>))"
proof (induction "rest_of cd p" arbitrary: p)
  case Nil
  then show ?case by (subst idesc_loop.simps) (simp add: usb_desc_foreach_ok [OF ok] hd_opt_def)
next
  case (Cons d ds)
  note r = rest_of_step [OF ok Cons(2) [symmetric]]
  have IH: "idesc_loop cd ps new (Some d) =
    Some (case dropWhile (skipped cd ps) ds of
            [] \<Rightarrow> (None, new, ps)
          | d # ds \<Rightarrow> (Some d, new \<and> iface_no_last ps \<noteq> bdat cd (d + 2), ps\<lparr>iface_no_last := bdat cd (d + 2)\<rparr>))"
    using Cons(1) [of "Some d"] r(1,2) by simp
  have "usb_desc_foreach (Some cd) p = Some (Some d)"
    using usb_desc_foreach_ok [OF ok Cons(3)] Cons(2) [symmetric] by (simp add: hd_opt_def)
  then show ?case
    using Cons(2) [symmetric] r(3-5) IH
    by (subst idesc_loop.simps) (auto simp: is_iface_def excess_def skipped_def)
qed

lemma rest_of_dropWhile:
  assumes ok: "config_ok cd" and p: "at_desc cd p" and d: "dropWhile P (rest_of cd p) = d # ds"
  shows "at_desc cd (Some d)" "rest_of cd (Some d) = ds" "d \<in> set (rest_of cd p)" "length ds < length (rest_of cd p)"
proof -
  show "d \<in> set (rest_of cd p)" using d by (metis list.set_intros(1) set_dropWhileD)
  show "length ds < length (rest_of cd p)" using d length_dropWhile_le [of P "rest_of cd p"] by simp
  obtain q where q: "rest_of cd p = descs_from cd (total_len cd) q" by (cases p) (auto simp: rest_of_def descs_def)
  have "\<exists>r. descs_from cd (total_len cd) r = d # ds" using d unfolding q
  proof (induction "descs_from cd (total_len cd) q" arbitrary: q)
    case (Cons a as)
    note c = descs_from_Cons [OF Cons(2) [symmetric]]
    show ?case
    proof (cases "P a")
      case True
      with Cons(3) have "dropWhile P as = d # ds" unfolding Cons(2) [symmetric] by simp
      then show ?thesis using Cons(1) [OF c(2)] unfolding c(2) by blast
    next
      case False
      with Cons(3) have "a # as = d # ds" unfolding Cons(2) [symmetric] by simp
      then show ?thesis using Cons(2) by metis
    qed
  qed simp
  then obtain r where r: "descs_from cd (total_len cd) r = d # ds" by blast
  note c = descs_from_Cons [OF r]
  show "at_desc cd (Some d)" using c(3,4) by (simp add: at_desc_def)
  show "rest_of cd (Some d) = ds" unfolding rest_of_def option.case by (rule c(2) [symmetric])
qed


text \<open>The other loops, by the same induction.\<close>

lemma foreach_Cons:
  assumes "config_ok cd" "at_desc cd p" "rest_of cd p = d # ds"
  shows "usb_desc_foreach (Some cd) p = Some (Some d)"
  using usb_desc_foreach_ok [OF assms(1,2)] assms(3) by (simp add: hd_opt_def)

lemma foreach_Nil:
  assumes "config_ok cd" "at_desc cd p" "rest_of cd p = []"
  shows "usb_desc_foreach (Some cd) p = Some None"
  using usb_desc_foreach_ok [OF assms(1,2)] assms(3) by (simp add: hd_opt_def)

definition stops_at :: "buf \<Rightarrow> byte list \<Rightarrow> nat option \<Rightarrow> nat list" where
  "stops_at cd ts p = dropWhile (\<lambda>d. bdat cd (d + 1) \<notin> set ts) (rest_of cd p)"

lemma stops_at_Cons:
  assumes "config_ok cd" "rest_of cd p = d # ds"
  shows "stops_at cd ts p = (if bdat cd (d + 1) \<in> set ts then d # ds else stops_at cd ts (Some d))"
  using rest_of_step(2) [OF assms] assms(2) by (simp add: stops_at_def)

lemma edesc_loop_ok:
  assumes ok: "config_ok cd"
  shows "at_desc cd p \<Longrightarrow> edesc_loop cd p =
    Some (case stops_at cd [UDESC_INTERFACE, UDESC_ENDPOINT] p of
            [] \<Rightarrow> None | d # _ \<Rightarrow> if bdat cd (d + 1) = UDESC_ENDPOINT \<and> 7 \<le> bdat cd d then Some d else None)"
proof (induction "rest_of cd p" arbitrary: p)
  case Nil
  then show ?case by (subst edesc_loop.simps) (simp add: foreach_Nil [OF ok] stops_at_def)
next
  case (Cons d ds)
  note r = rest_of_step [OF ok Cons(2) [symmetric]]
  show ?case
    using Cons(1) [of "Some d"] r foreach_Cons [OF ok Cons(3) Cons(2) [symmetric]] stops_at_Cons [OF ok Cons(2) [symmetric]]
    by (subst edesc_loop.simps) (auto simp: not_less)
qed

lemma ed_comp_loop_ok:
  assumes ok: "config_ok cd"
  shows "at_desc cd p \<Longrightarrow> ed_comp_loop cd p =
    Some (case stops_at cd [UDESC_INTERFACE, UDESC_ENDPOINT, UDESC_ENDPOINT_SS_COMP] p of
            [] \<Rightarrow> None | d # _ \<Rightarrow> if bdat cd (d + 1) = UDESC_ENDPOINT_SS_COMP \<and> 6 \<le> bdat cd d then Some d else None)"
proof (induction "rest_of cd p" arbitrary: p)
  case Nil
  then show ?case by (subst ed_comp_loop.simps) (simp add: foreach_Nil [OF ok] stops_at_def)
next
  case (Cons d ds)
  note r = rest_of_step [OF ok Cons(2) [symmetric]]
  show ?case
    using Cons(1) [of "Some d"] r foreach_Cons [OF ok Cons(3) Cons(2) [symmetric]] stops_at_Cons [OF ok Cons(2) [symmetric]]
    by (subst ed_comp_loop.simps) (auto simp: not_less)
qed

lemma byte_count:
  fixes c :: byte
  assumes "unat c < 255"
  shows "unat (c + 1) = unat c + 1" "c + 1 = 0xff \<longleftrightarrow> unat c = 254"
  using assms by (auto simp: unat_word_ariths word_unat_eq_iff)

lemma no_descriptors_loop_ok:
  assumes ok: "config_ok cd"
  shows "at_desc cd p \<Longrightarrow> unat c < 255 \<Longrightarrow> \<exists>r. no_descriptors_loop cd ty p c = Some r \<and>
    unat r = min 255 (unat c + length (filter (\<lambda>d. bdat cd (d + 1) = ty) (rest_of cd p)))"
proof (induction "rest_of cd p" arbitrary: p c)
  case Nil
  then show ?case by (subst no_descriptors_loop.simps) (simp add: foreach_Nil [OF ok])
next
  case (Cons d ds)
  note r = rest_of_step [OF ok Cons(2) [symmetric]] and c = byte_count [OF Cons(4)]
  show ?case
    using Cons(1) [of "Some d" c] Cons(1) [of "Some d" "c + 1"] Cons(4) r c foreach_Cons [OF ok Cons(3) Cons(2) [symmetric]]
      Cons(2) [symmetric]
    by (subst no_descriptors_loop.simps) (auto simp: word_unat_eq_iff)
qed

lemma no_alts_loop_ok:
  assumes ok: "config_ok cd"
  shows "at_desc cd p \<Longrightarrow> unat c < 255 \<Longrightarrow> \<exists>r. no_alts_loop cd n p c = Some r \<and>
    unat r = min 255 (unat c + length (filter (\<lambda>d. is_iface cd d \<and> bdat cd (d + 2) = n) (rest_of cd p)))"
proof (induction "rest_of cd p" arbitrary: p c)
  case Nil
  then show ?case by (subst no_alts_loop.simps) (simp add: foreach_Nil [OF ok])
next
  case (Cons d ds)
  note r = rest_of_step [OF ok Cons(2) [symmetric]] and c = byte_count [OF Cons(4)]
  show ?case
    using Cons(1) [of "Some d" c] Cons(1) [of "Some d" "c + 1"] Cons(4) r c foreach_Cons [OF ok Cons(3) Cons(2) [symmetric]]
      Cons(2) [symmetric]
    by (subst no_alts_loop.simps) (auto simp: word_unat_eq_iff is_iface_def)
qed

section \<open>Properties\<close>

text \<open>
  C23: on a configuration whose \<^verbatim>\<open>wTotalLength\<close> has been checked, \<open>usb_desc_foreach\<close> never reads outside
  the configuration and, called with its own results, visits one descriptor after the other: each
  begins where the previous one ends, has at least three bytes and lies inside the configuration.
  The iteration ends after the last of them.
\<close>

theorem usb_desc_walk:
  assumes "config_ok cd"
  shows "(\<forall>i<length (descs cd).
       usb_desc_foreach (Some cd) (if i = 0 then None else Some (descs cd ! (i - 1))) = Some (Some (descs cd ! i)) \<and>
       3 \<le> unat (bdat cd (descs cd ! i)) \<and> descs cd ! i + unat (bdat cd (descs cd ! i)) \<le> blen cd \<and>
       descs cd ! i = (if i = 0 then 0 else descs cd ! (i - 1) + unat (bdat cd (descs cd ! (i - 1))))) \<and>
     usb_desc_foreach (Some cd) (if descs cd = [] then None else Some (last (descs cd))) = Some None"
proof (intro conjI allI impI)
  let ?p = "\<lambda>i. if i = 0 then None else Some (descs cd ! (i - 1))"
  have pos: "rest_of cd (?p i) = drop i (descs cd) \<and> at_desc cd (?p i)" if "i \<le> length (descs cd)" for i
    using that rest_of_nth [OF assms, of "i - 1"] by (cases i) (auto simp: rest_of_def at_desc_def)
  fix i assume i: "i < length (descs cd)"
  then have r: "rest_of cd (?p i) = descs cd ! i # drop (Suc i) (descs cd)" using pos [of i] by (simp add: Cons_nth_drop_Suc)
  show "usb_desc_foreach (Some cd) (?p i) = Some (Some (descs cd ! i))"
    using usb_desc_foreach_ok [OF assms, of "?p i"] pos [of i] i r by (simp add: hd_opt_def del: One_nat_def)
  show "3 \<le> unat (bdat cd (descs cd ! i))" "descs cd ! i + unat (bdat cd (descs cd ! i)) \<le> blen cd"
    using rest_of_nth(2) [OF assms i] config_len [OF assms] by (simp_all add: at_desc_def)
  show "descs cd ! i = (if i = 0 then 0 else descs cd ! (i - 1) + unat (bdat cd (descs cd ! (i - 1))))"
  proof (cases i)
    case 0
    then show ?thesis using descs_from_Cons(1) r by (simp add: rest_of_def descs_def)
  next
    case (Suc j)
    then show ?thesis using descs_from_Cons(1) r by (simp add: rest_of_def)
  qed
next
  have l: "descs cd \<noteq> [] \<Longrightarrow> last (descs cd) = descs cd ! (length (descs cd) - 1)" by (rule last_conv_nth)
  show "usb_desc_foreach (Some cd) (if descs cd = [] then None else Some (last (descs cd))) = Some None"
    using usb_desc_foreach_ok [OF assms] rest_of_nth [OF assms, of "length (descs cd) - 1"] l
    by (auto simp: rest_of_def at_desc_def hd_opt_def)
qed

definition sample_config :: buf where
  "sample_config = \<lparr>blen = 25, bdat = (!) [9, 2, 25, 0, 1, 1, 0, 0x80, 50, 9, 4, 0, 0, 1, 3, 1, 2, 0, 7, 5, 0x81, 3, 8, 0, 10]\<rparr>"

lemma sample_descs: "config_ok sample_config" "descs sample_config = [0, 9, 18]"
  by (simp_all add: config_ok_def sample_config_def descs_def total_len_def descs_from.simps)

lemma sample_bytes:
  "blen sample_config = 25" "bdat sample_config 0 = 9" "bdat sample_config 1 = 2" "bdat sample_config (Suc 0) = 2" "bdat sample_config 2 = 25"
  "bdat sample_config 9 = 9" "bdat sample_config 10 = 4" "bdat sample_config 11 = 0" "bdat sample_config 18 = 7"
  "bdat sample_config 19 = 5" "bdat sample_config 20 = 0x81"
  by (simp_all add: sample_config_def)

theorem usb_desc_walk_witness:
  "usb_desc_foreach (Some sample_config) (Some 9) = Some (Some 18) \<and> usb_desc_foreach (Some sample_config) (Some 18) = Some None"
  using usb_desc_walk [OF sample_descs(1)] unfolding sample_descs(2) by (auto simp: numeral_2_eq_2 dest: spec [of _ 2])

text \<open>
  C24: \<open>usb_idesc_foreach\<close> on a checked configuration always returns. The candidate is the first
  descriptor behind the current one that is a proper interface descriptor (type 4, at least 9 bytes) and not
  the 257th alternate setting of its interface; the call returns it, unless it would begin a 33rd interface,
  and returns NULL exactly when there is no candidate or the limit of 32 interfaces is exceeded. The first
  call leaves both indices; later a descriptor with the number of the previous one gets the next alternate
  index, any other one the next interface index and alternate index 0, and neither 8-bit index wraps around.
\<close>

theorem usb_idesc_numbering:
  assumes "config_ok cd" and "at_desc cd (ps_desc ps)" and "unat (iface_index ps) < 32"
  shows "\<exists>r ps'. usb_idesc_foreach (Some cd) ps = Some (r, ps') \<and> ps_desc ps' = r \<and>
    r = (case dropWhile (skipped cd ps) (rest_of cd (ps_desc ps)) of
           [] \<Rightarrow> None
         | d # ds \<Rightarrow> if ps_desc ps \<noteq> None \<and> bdat cd (d + 2) \<noteq> iface_no_last ps \<and> unat (iface_index ps) = 31 then None else Some d) \<and>
    (case r of
       None \<Rightarrow> True
     | Some d \<Rightarrow> at_desc cd r \<and> (\<exists>ds. dropWhile (skipped cd ps) (rest_of cd (ps_desc ps)) = d # ds \<and> rest_of cd r = ds) \<and>
         is_iface cd d \<and> unat (iface_index ps') < 32 \<and> iface_no_last ps' = bdat cd (d + 2) \<and>
         (if ps_desc ps = None then iface_index ps' = iface_index ps \<and> iface_index_alt ps' = iface_index_alt ps
          else if bdat cd (d + 2) = iface_no_last ps
          then iface_index ps' = iface_index ps \<and> unat (iface_index_alt ps') = unat (iface_index_alt ps) + 1
          else unat (iface_index ps') = unat (iface_index ps) + 1 \<and> iface_index_alt ps' = 0))"
proof (cases "dropWhile (skipped cd ps) (rest_of cd (ps_desc ps))")
  case Nil
  then have "idesc_loop cd ps True (ps_desc ps) = Some (None, True, ps)"
    using idesc_loop_ok [OF assms(1,2), of ps True] unfolding Nil by simp
  then show ?thesis unfolding usb_idesc_foreach_def option.case Nil by (simp add: Let_def cong: if_cong)
next
  case (Cons d ds)
  have "\<not> skipped cd ps d" using Cons hd_dropWhile [of "skipped cd ps"] by (metis list.distinct(1) list.sel(1))
  then have d: "is_iface cd d" "\<not> excess cd ps d" by (simp_all add: skipped_def)
  note r = rest_of_dropWhile [OF assms(1,2) Cons]
  have i: "unat (iface_index ps + 1) = unat (iface_index ps) + 1"
    using assms(3) by (simp add: word_less_nat_alt unat_word_ariths)
  then have m: "32 \<le> iface_index ps + 1 \<longleftrightarrow> unat (iface_index ps) = 31" "\<not> 32 \<le> iface_index ps"
    using assms(3) by (auto simp: word_le_nat_alt)
  have a: "unat (iface_index_alt ps + 1) = unat (iface_index_alt ps) + 1" if "iface_index_alt ps \<noteq> 255"
  proof -
    have "unat (iface_index_alt ps) < 256" using unsigned_less [of "iface_index_alt ps"] by simp
    moreover have "unat (iface_index_alt ps) \<noteq> 255" using that by (simp add: word_unat_eq_iff)
    ultimately show ?thesis by (simp add: unat_word_ariths)
  qed
  have lp: "idesc_loop cd ps True (ps_desc ps) = Some (Some d, iface_no_last ps \<noteq> bdat cd (d + 2), ps\<lparr>iface_no_last := bdat cd (d + 2)\<rparr>)"
    using idesc_loop_ok [OF assms(1,2), of ps True] Cons by simp
  have alt: "iface_no_last ps = bdat cd (d + 2) \<Longrightarrow> iface_index_alt ps \<noteq> 255" using d(2) by (auto simp: excess_def)
  consider (first) "ps_desc ps = None" | (alt1) "ps_desc ps \<noteq> None" "bdat cd (d + 2) = iface_no_last ps"
    | (full) "ps_desc ps \<noteq> None" "bdat cd (d + 2) \<noteq> iface_no_last ps" "unat (iface_index ps) = 31"
    | (new1) "ps_desc ps \<noteq> None" "bdat cd (d + 2) \<noteq> iface_no_last ps" "unat (iface_index ps) \<noteq> 31" by blast
  then show ?thesis
    unfolding usb_idesc_foreach_def option.case lp Cons list.case
    by cases (use d(1) r(1,2) i a alt m assms(3) in \<open>simp_all add: Let_def eq_commute [of "iface_no_last ps"]\<close>)
qed

text \<open>A configuration with two interfaces, the second one with two settings.\<close>

definition two_ifaces :: buf where
  "two_ifaces = \<lparr>blen = 36, bdat = (!) [9, 2, 36, 0, 2, 1, 0, 0x80, 50, 9, 4, 0, 0, 0, 3, 1, 2, 0,
     9, 4, 1, 0, 0, 3, 0, 0, 0, 9, 4, 1, 1, 0, 3, 0, 0, 0]\<rparr>"

theorem usb_idesc_numbering_witness:
  "\<exists>ps'. usb_idesc_foreach (Some two_ifaces) \<lparr>ps_desc = Some 9, iface_index = 0, iface_no_last = 0, iface_index_alt = 0\<rparr>
     = Some (Some 18, ps') \<and> unat (iface_index ps') = 1 \<and> iface_no_last ps' = 1 \<and> rest_of two_ifaces (Some 18) = [27]"
proof -
  let ?ps = "\<lparr>ps_desc = Some 9, iface_index = 0, iface_no_last = 0, iface_index_alt = 0\<rparr>"
  have ok: "config_ok two_ifaces" "at_desc two_ifaces (ps_desc ?ps)"
    by (simp_all add: config_ok_def at_desc_def total_len_def two_ifaces_def)
  have d: "dropWhile (skipped two_ifaces ?ps) (rest_of two_ifaces (Some 9)) = [18, 27]"
    by (simp add: rest_of_def total_len_def two_ifaces_def descs_from.simps skipped_def is_iface_def excess_def)
  have b: "bdat two_ifaces 20 = 1" by (simp add: two_ifaces_def)
  show ?thesis using usb_idesc_numbering [OF ok] by (auto simp: d b)
qed

text \<open>
  C25: counting the descriptors of a type, and the alternate settings of an interface (whose descriptor
  may lie in other memory), returns the number of those descriptors in the configuration and saturates
  at 255 instead of wrapping around.
\<close>

theorem usb_counts_saturate:
  assumes "config_ok cd" and "i + 2 < blen m"
  shows "\<exists>r n. usbd_get_no_descriptors (Some cd) ty = Some r \<and> unat r = min 255 (length (filter (\<lambda>d. bdat cd (d + 1) = ty) (descs cd))) \<and>
    usbd_get_no_alts (Some cd) m i = Some n \<and>
    unat n = min 255 (length (filter (\<lambda>d. is_iface cd d \<and> bdat cd (d + 2) = bdat m (i + 2)) (descs cd)))"
proof -
  have "at_desc cd None" "unat (0 :: byte) < 255" by (simp_all add: at_desc_def)
  from no_descriptors_loop_ok [OF assms(1) this, of ty] no_alts_loop_ok [OF assms(1) this, of "bdat m (i + 2)"] assms(2)
  show ?thesis by (auto simp: usbd_get_no_descriptors_def usbd_get_no_alts_def bInterfaceNumber_def ld_in rest_of_def)
qed

theorem usb_counts_saturate_witness:
  "\<exists>r n. usbd_get_no_descriptors (Some sample_config) 5 = Some r \<and> unat r = 1 \<and> usbd_get_no_alts (Some sample_config) sample_config 9 = Some n \<and> unat n = 1"
  using usb_counts_saturate [OF sample_descs(1), of 9 sample_config 5]
  by (auto simp: sample_descs is_iface_def sample_bytes)

end
