(* ===== verification/Usb_Hid.thy ===== *)
theory Usb_Hid
  imports Usb_Parse
begin

text \<open>
  usb_hid.c: the parser of HID report descriptors and the access to fields of a report.

  The parser state \<^verbatim>\<open>struct hid_data\<close> is a record; its arrays are lists and an index outside one has no
  value, like a read outside the descriptor. The pointer \<^verbatim>\<open>c\<close> of \<open>hid_get_item\<close> is always the element
  \<^verbatim>\<open>pushlevel\<close> of the array \<^verbatim>\<open>cur\<close> and is written so. An \<^verbatim>\<open>int32_t\<close> is a 32-bit word, read with \<open>sint\<close>
  where the code compares; shifts and sums of signed values wrap around as the compilers do it.
\<close>

section \<open>Data\<close>

datatype hid_kind = hid_input | hid_output | hid_feature | hid_collection | hid_endcollection

definition kind_bit :: "hid_kind \<Rightarrow> byte" where
  "kind_bit k = push_bit (case k of hid_input \<Rightarrow> 0 | hid_output \<Rightarrow> 1 | hid_feature \<Rightarrow> 2 | hid_collection \<Rightarrow> 3
     | hid_endcollection \<Rightarrow> 4) 1"

record hid_location =
  l_size :: u32
  l_count :: u32
  l_pos :: u32

record hid_item =
  usage_page :: u32
  logical_minimum :: u32
  logical_maximum :: u32
  physical_minimum :: u32
  physical_maximum :: u32
  unit_exponent :: u32
  unit1 :: u32
  report_ID :: u32
  usage :: u32
  usage_minimum :: u32
  usage_maximum :: u32
  designator_index :: u32
  designator_minimum :: u32
  designator_maximum :: u32
  string_index :: u32
  string_minimum :: u32
  string_maximum :: u32
  set_delimiter :: u32
  collection :: u32
  collevel :: u32
  kind :: hid_kind
  flags1 :: u32
  loc :: hid_location

record hid_data =
  h_buf :: buf
  h_end :: nat
  h_p :: nat
  cur :: "hid_item list"
  last_pos :: "(u32 \<times> u32) list"
  usages_min :: "u32 list"
  usages_max :: "u32 list"
  usage_last :: u32
  loc_size :: u32
  loc_count :: u32
  ncount :: u32
  icount :: u32
  kindset :: byte
  pushlevel :: byte
  nusage :: byte
  iusage :: byte
  ousage :: byte
  susage :: byte

abbreviation (input) MAXUSAGE :: nat where "MAXUSAGE \<equiv> 64"
abbreviation (input) MAXPUSH :: nat where "MAXPUSH \<equiv> 4"
abbreviation (input) MAXID :: nat where "MAXID \<equiv> 16"
abbreviation (input) MAXLOCCNT :: u32 where "MAXLOCCNT \<equiv> 1024"
abbreviation (input) HIO_CONST :: u32 where "HIO_CONST \<equiv> 1"
abbreviation (input) HIO_VARIABLE :: u32 where "HIO_VARIABLE \<equiv> 2"
abbreviation (input) HIO_RELATIVE :: u32 where "HIO_RELATIVE \<equiv> 4"

definition nth_opt :: "'a list \<Rightarrow> nat \<Rightarrow> 'a option" where
  "nth_opt xs i = (if i < length xs then Some (xs ! i) else None)"

definition upd_opt :: "'a list \<Rightarrow> nat \<Rightarrow> 'a \<Rightarrow> 'a list option" where
  "upd_opt xs i x = (if i < length xs then Some (xs[i := x]) else None)"

text \<open>The item \<^verbatim>\<open>*c\<close> and an assignment to it.\<close>

definition get_c :: "hid_data \<Rightarrow> hid_item option" where
  "get_c s = nth_opt (cur s) (unat (pushlevel s))"

definition set_c :: "hid_item \<Rightarrow> hid_data \<Rightarrow> hid_data option" where
  "set_c c s = do { xs \<leftarrow> upd_opt (cur s) (unat (pushlevel s)) c; Some (s\<lparr>cur := xs\<rparr>) }"

definition hid_clear_local :: "hid_item \<Rightarrow> hid_item" where
  "hid_clear_local c = c\<lparr>loc := (loc c)\<lparr>l_count := 0, l_size := 0\<rparr>, usage := 0, usage_minimum := 0,
     usage_maximum := 0, designator_index := 0, designator_minimum := 0, designator_maximum := 0,
     string_index := 0, string_minimum := 0, string_maximum := 0, set_delimiter := 0\<rparr>"

section \<open>Report IDs\<close>

text \<open>The loop over \<^verbatim>\<open>last_pos\<close> from index 1; \<open>n\<close> entries are left.\<close>

fun find_rid :: "nat \<Rightarrow> nat \<Rightarrow> u32 \<Rightarrow> (u32 \<times> u32) list \<Rightarrow> nat option" where
  "find_rid 0 i rid lp = Some i"
| "find_rid (Suc n) i rid lp = do {
     e \<leftarrow> nth_opt lp i;
     if fst e = rid \<or> fst e = 0 then Some i else find_rid n (i + 1) rid lp }"

definition rid_slot :: "u32 \<Rightarrow> (u32 \<times> u32) list \<Rightarrow> nat option" where
  "rid_slot rid lp = (if rid = 0 then Some 0 else find_rid (MAXID - 1) 1 rid lp)"

definition hid_switch_rid :: "hid_data \<Rightarrow> hid_item \<Rightarrow> u32 \<Rightarrow> (hid_data \<times> hid_item) option" where
  "hid_switch_rid s c next_rID =
    (if report_ID c = next_rID then Some (s, c)
     else do {
       i \<leftarrow> rid_slot (report_ID c) (last_pos s);
       lp \<leftarrow> (if i \<noteq> MAXID then upd_opt (last_pos s) i (report_ID c, l_pos (loc c)) else Some (last_pos s));
       let c = c\<lparr>report_ID := next_rID\<rparr>;
       i \<leftarrow> rid_slot next_rID lp;
       if i \<noteq> MAXID then do {
         e \<leftarrow> nth_opt lp i;
         lp \<leftarrow> upd_opt lp i (next_rID, snd e);
         Some (s\<lparr>last_pos := lp\<rparr>, c\<lparr>loc := (loc c)\<lparr>l_pos := snd e\<rparr>\<rparr>) }
       else Some (s\<lparr>last_pos := lp\<rparr>, c\<lparr>loc := (loc c)\<lparr>l_pos := 0\<rparr>\<rparr>) })"

section \<open>The parser\<close>

definition zero_item :: hid_item where
  "zero_item = \<lparr>usage_page = 0, logical_minimum = 0, logical_maximum = 0, physical_minimum = 0,
     physical_maximum = 0, unit_exponent = 0, unit1 = 0, report_ID = 0, usage = 0, usage_minimum = 0,
     usage_maximum = 0, designator_index = 0, designator_minimum = 0, designator_maximum = 0,
     string_index = 0, string_minimum = 0, string_maximum = 0, set_delimiter = 0, collection = 0,
     collevel = 0, kind = hid_input, flags1 = 0, loc = \<lparr>l_size = 0, l_count = 0, l_pos = 0\<rparr>\<rparr>"

text \<open>
  \<open>hid_start_parse\<close>; \<open>None\<close> is the null pointer, for more than one bit in \<open>kindset\<close> or when the
  allocation fails (\<open>mem\<close> is false).
\<close>

definition hid_start_parse :: "bool \<Rightarrow> buf \<Rightarrow> nat \<Rightarrow> u32 \<Rightarrow> hid_data option" where
  "hid_start_parse mem d len kindset1 =
    (if (kindset1 - 1) AND kindset1 \<noteq> 0 \<or> \<not> mem then None
     else Some \<lparr>h_buf = d, h_end = len, h_p = 0, cur = replicate MAXPUSH zero_item,
       last_pos = replicate MAXID (0, 0), usages_min = replicate MAXUSAGE 0, usages_max = replicate MAXUSAGE 0,
       usage_last = 0, loc_size = 0, loc_count = 0, ncount = 0, icount = 0, kindset = ucast kindset1,
       pushlevel = 0, nusage = 0, iusage = 0, ousage = 0, susage = 0\<rparr>)"

definition hid_get_byte :: "nat \<Rightarrow> hid_data \<Rightarrow> (byte \<times> hid_data) option" where
  "hid_get_byte wSize s =
    (if h_p s = h_end s then Some (0, s)
     else do {
       retval \<leftarrow> ld (h_buf s) (h_p s);
       Some (retval, s\<lparr>h_p := if h_end s - h_p s < wSize then h_end s else h_p s + wSize\<rparr>) })"

text \<open>The usage of the next item of an array.\<close>

definition hid_next_usage :: "hid_item \<Rightarrow> hid_data \<Rightarrow> (hid_item \<times> hid_data) option" where
  "hid_next_usage c s =
    (if iusage s < nusage s then do {
       lo \<leftarrow> nth_opt (usages_min s) (unat (iusage s));
       hi \<leftarrow> nth_opt (usages_max s) (unat (iusage s));
       let dval = lo + ucast (ousage s);
       Some (c\<lparr>usage := dval\<rparr>, if dval = hi then s\<lparr>usage_last := dval, iusage := iusage s + 1, ousage := 0\<rparr>
                else s\<lparr>usage_last := dval, ousage := ousage s + 1\<rparr>) }
     else Some (c, s))"

text \<open>The part behind the label \<^verbatim>\<open>top\<close>: the next of an array of items, if it is of the right kind.\<close>

definition hid_top :: "hid_data \<Rightarrow> (hid_item option \<times> hid_data) option" where
  "hid_top s =
    (if icount s < ncount s then do {
       c \<leftarrow> get_c s;
       (c, s) \<leftarrow> hid_next_usage c s;
       let s = s\<lparr>icount := icount s + 1\<rparr>;
       if kindset s AND kind_bit (kind c) \<noteq> 0 then do {
         s \<leftarrow> set_c (c\<lparr>loc := (loc c)\<lparr>l_pos := l_pos (loc c) + l_size (loc c) * l_count (loc c)\<rparr>\<rparr>) s;
         Some (Some c, s) }
       else do { s \<leftarrow> set_c c s; Some (None, s) } }
     else Some (None, s))"

definition hid_reset :: "hid_data \<Rightarrow> hid_data option" where
  "hid_reset s = do {
     c \<leftarrow> get_c s;
     set_c (hid_clear_local c) (s\<lparr>icount := 0, ncount := 0, iusage := 0, nusage := 0, susage := 0, ousage := 0\<rparr>) }"

text \<open>Tag, type and size of an item.\<close>

definition hid_prefix :: "hid_data \<Rightarrow> ((u32 \<times> u32 \<times> nat) \<times> hid_data) option" where
  "hid_prefix s = do {
     (b, s) \<leftarrow> hid_get_byte 1 s;
     if b = 0xfe then do {
       (lo, s) \<leftarrow> hid_get_byte 1 s;
       (hi, s) \<leftarrow> hid_get_byte 1 s;
       (tag, s) \<leftarrow> hid_get_byte 1 s;
       Some ((ucast tag, 0xff, unat lo + 256 * unat hi), s) }
     else Some ((ucast (drop_bit 4 b), ucast (drop_bit 2 b AND 3), if b AND 3 = 3 then 4 else unat (b AND 3)), s) }"

text \<open>The data of an item and the mask of its size; \<open>None\<close> when the size is not one of 0, 1, 2, 4.\<close>

definition hid_value :: "nat \<Rightarrow> hid_data \<Rightarrow> ((u32 \<times> u32) option \<times> hid_data) option" where
  "hid_value bSize s =
    (if bSize = 0 then Some (Some (0, 0), s)
     else if bSize = 1 then do { (b, s) \<leftarrow> hid_get_byte 1 s; Some (Some (scast b, 0xff), s) }
     else if bSize = 2 then do {
       (b0, s) \<leftarrow> hid_get_byte 1 s;
       (b1, s) \<leftarrow> hid_get_byte 1 s;
       Some (Some (scast (ucast b0 OR push_bit 8 (ucast b1) :: u16), 0xffff), s) }
     else if bSize = 4 then do {
       (b0, s) \<leftarrow> hid_get_byte 1 s;
       (b1, s) \<leftarrow> hid_get_byte 1 s;
       (b2, s) \<leftarrow> hid_get_byte 1 s;
       (b3, s) \<leftarrow> hid_get_byte 1 s;
       Some (Some (ucast b0 OR push_bit 8 (ucast b1) OR push_bit 16 (ucast b2) OR push_bit 24 (ucast b3), 0xffffffff), s) }
     else do { (_, s) \<leftarrow> hid_get_byte bSize s; Some (None, s) })"

text \<open>What follows an item: the next one, the label \<^verbatim>\<open>top\<close>, or a return.\<close>

datatype act = Next | Top | Ret "hid_item option"

definition hid_ret :: "hid_kind \<Rightarrow> u32 \<Rightarrow> hid_item \<Rightarrow> hid_data \<Rightarrow> (act \<times> hid_data) option" where
  "hid_ret k dval c s =
    (let c = c\<lparr>kind := k, flags1 := dval, loc := (loc c)\<lparr>l_count := loc_count s, l_size := loc_size s\<rparr>\<rparr>
     in if flags1 c AND HIO_VARIABLE \<noteq> 0 then do {
          let s = s\<lparr>ncount := if l_count (loc c) > MAXLOCCNT then MAXLOCCNT else l_count (loc c)\<rparr>;
          s \<leftarrow> set_c (c\<lparr>loc := (loc c)\<lparr>l_count := 1\<rparr>\<rparr>) s;
          Some (Top, s) }
        else do { s \<leftarrow> set_c c (s\<lparr>ncount := 1\<rparr>); Some (Top, s) })"

definition hid_main :: "u32 \<Rightarrow> u32 \<Rightarrow> hid_item \<Rightarrow> hid_data \<Rightarrow> (act \<times> hid_data) option" where
  "hid_main bTag dval c s =
    (if bTag = 8 then hid_ret hid_input dval c s
     else if bTag = 9 then hid_ret hid_output dval c s
     else if bTag = 10 then do {
       let c = c\<lparr>kind := hid_collection, collection := dval, collevel := collevel c + 1, usage := usage_last s\<rparr>;
       s \<leftarrow> set_c c s;
       Some (Ret (Some c), s) }
     else if bTag = 11 then hid_ret hid_feature dval c s
     else if bTag = 12 then do {
       let c = c\<lparr>kind := hid_endcollection\<rparr>;
       if collevel c = 0 then do { s \<leftarrow> set_c c s; Some (Ret None, s) }
       else do {
         let c = c\<lparr>collevel := collevel c - 1\<rparr>;
         s \<leftarrow> set_c c s;
         Some (Ret (Some c), s) } }
     else Some (Next, s))"

definition hid_global :: "u32 \<Rightarrow> u32 \<Rightarrow> u32 \<Rightarrow> hid_item \<Rightarrow> hid_data \<Rightarrow> (act \<times> hid_data) option" where
  "hid_global bTag dval mask1 c s =
    (let put = (\<lambda>c. do { s \<leftarrow> set_c c s; Some (Next, s) })
     in if bTag = 0 then put (c\<lparr>usage_page := push_bit 16 dval\<rparr>)
     else if bTag = 1 then put (c\<lparr>logical_minimum := dval\<rparr>)
     else if bTag = 2 then put (c\<lparr>logical_maximum := dval\<rparr>)
     else if bTag = 3 then put (c\<lparr>physical_minimum := dval\<rparr>)
     else if bTag = 4 then put (c\<lparr>physical_maximum := dval\<rparr>)
     else if bTag = 5 then put (c\<lparr>unit_exponent := dval\<rparr>)
     else if bTag = 6 then put (c\<lparr>unit1 := dval\<rparr>)
     else if bTag = 7 then Some (Next, s\<lparr>loc_size := dval AND mask1\<rparr>)
     else if bTag = 8 then do {
       (s, c) \<leftarrow> hid_switch_rid s c (dval AND mask1);
       s \<leftarrow> set_c c s;
       Some (Next, s) }
     else if bTag = 9 then Some (Next, s\<lparr>loc_count := dval AND mask1\<rparr>)
     else if bTag = 10 then
       (if unat (pushlevel s) + 1 \<ge> MAXPUSH then Some (Ret None, s)
        else do {
          xs \<leftarrow> upd_opt (cur s) (unat (pushlevel s) + 1) c;
          xs \<leftarrow> upd_opt xs (unat (pushlevel s)) (c\<lparr>loc := (loc c)\<lparr>l_size := loc_size s, l_count := loc_count s\<rparr>\<rparr>);
          Some (Next, s\<lparr>cur := xs, pushlevel := pushlevel s + 1\<rparr>) })
     else if bTag = 11 then
       (if pushlevel s = 0 then Some (Ret None, s)
        else do {
          let s = s\<lparr>pushlevel := pushlevel s - 1\<rparr>;
          d \<leftarrow> get_c s;
          let s = s\<lparr>loc_size := l_size (loc d), loc_count := l_count (loc d)\<rparr>;
          s \<leftarrow> set_c (d\<lparr>loc := \<lparr>l_size = 0, l_count = 0, l_pos = l_pos (loc c)\<rparr>\<rparr>) s;
          Some (Next, s) })
     else Some (Next, s))"

definition hid_add_usage :: "u32 \<Rightarrow> u32 \<Rightarrow> hid_data \<Rightarrow> hid_data option" where
  "hid_add_usage lo hi s = do {
     mn \<leftarrow> upd_opt (usages_min s) (unat (nusage s)) lo;
     mx \<leftarrow> upd_opt (usages_max s) (unat (nusage s)) hi;
     Some (s\<lparr>usages_min := mn, usages_max := mx, nusage := nusage s + 1\<rparr>) }"

text \<open>The label \<^verbatim>\<open>check_set\<close>.\<close>

definition hid_check_set :: "hid_item \<Rightarrow> hid_data \<Rightarrow> (act \<times> hid_data) option" where
  "hid_check_set c s =
    (if susage s \<noteq> 3 then Some (Next, s)
     else do {
       s \<leftarrow> (if unat (nusage s) < MAXUSAGE \<and> sint (usage_minimum c) \<le> sint (usage_maximum c)
             then hid_add_usage (usage_minimum c) (usage_maximum c) s else Some s);
       Some (Next, s\<lparr>susage := 0\<rparr>) })"

definition hid_local :: "u32 \<Rightarrow> nat \<Rightarrow> u32 \<Rightarrow> u32 \<Rightarrow> hid_item \<Rightarrow> hid_data \<Rightarrow> (act \<times> hid_data) option" where
  "hid_local bTag bSize dval mask1 c s =
    (let put = (\<lambda>c. do { s \<leftarrow> set_c c s; Some (Next, s) });
         u = (if bSize \<noteq> 4 then (dval AND mask1) OR usage_page c else dval)
     in if bTag = 0 then do {
       s \<leftarrow> (if unat (nusage s) < MAXUSAGE then hid_add_usage u u (s\<lparr>usage_last := u\<rparr>) else Some (s\<lparr>usage_last := u\<rparr>));
       Some (Next, s\<lparr>susage := 0\<rparr>) }
     else if bTag = 1 then do {
       s \<leftarrow> set_c (c\<lparr>usage_minimum := u\<rparr>) (s\<lparr>susage := susage s OR 1\<rparr>);
       hid_check_set (c\<lparr>usage_minimum := u\<rparr>) s }
     else if bTag = 2 then do {
       s \<leftarrow> set_c (c\<lparr>usage_maximum := u\<rparr>) (s\<lparr>susage := susage s OR 2\<rparr>);
       hid_check_set (c\<lparr>usage_maximum := u\<rparr>) s }
     else if bTag = 3 then put (c\<lparr>designator_index := dval\<rparr>)
     else if bTag = 4 then put (c\<lparr>designator_minimum := dval\<rparr>)
     else if bTag = 5 then put (c\<lparr>designator_maximum := dval\<rparr>)
     else if bTag = 7 then put (c\<lparr>string_index := dval\<rparr>)
     else if bTag = 8 then put (c\<lparr>string_minimum := dval\<rparr>)
     else if bTag = 9 then put (c\<lparr>string_maximum := dval\<rparr>)
     else if bTag = 10 then put (c\<lparr>set_delimiter := dval\<rparr>)
     else Some (Next, s))"

text \<open>One round of the loop over the items.\<close>

definition hid_step :: "hid_data \<Rightarrow> (act \<times> hid_data) option" where
  "hid_step s = do {
     ((bTag, bType, bSize), s) \<leftarrow> hid_prefix s;
     (v, s) \<leftarrow> hid_value bSize s;
     case v of
       None \<Rightarrow> Some (Next, s)
     | Some (dval, mask1) \<Rightarrow> do {
         c \<leftarrow> get_c s;
         if bType = 0 then hid_main bTag dval c s
         else if bType = 1 then hid_global bTag dval mask1 c s
         else if bType = 2 then hid_local bTag bSize dval mask1 c s
         else Some (Next, s) } }"

partial_function (option) hid_loop :: "hid_data \<Rightarrow> (hid_item option \<times> hid_data) option" where
  "hid_loop s =
    (if h_p s = h_end s then Some (None, s)
     else do {
       (a, s) \<leftarrow> hid_step s;
       case a of
         Ret r \<Rightarrow> Some (r, s)
       | Next \<Rightarrow> hid_loop s
       | Top \<Rightarrow> do {
           (r, s) \<leftarrow> hid_top s;
           case r of
             Some h \<Rightarrow> Some (Some h, s)
           | None \<Rightarrow> do { s \<leftarrow> hid_reset s; hid_loop s } } })"

text \<open>\<open>None\<close> as an item is the return value 0.\<close>

definition hid_get_item :: "hid_data \<Rightarrow> (hid_item option \<times> hid_data) option" where
  "hid_get_item s = do {
     (r, s) \<leftarrow> hid_top s;
     case r of
       Some h \<Rightarrow> Some (Some h, s)
     | None \<Rightarrow> do { s \<leftarrow> hid_reset s; hid_loop s } }"


section \<open>Clients of the parser\<close>

text \<open>\<open>hid_get_item\<close> of a null pointer returns 0; \<open>hid_items\<close> is the state after \<open>hid_start_parse\<close>.\<close>

definition hid_next :: "hid_data option \<Rightarrow> (hid_item option \<times> hid_data option) option" where
  "hid_next d = (case d of None \<Rightarrow> Some (None, None) | Some s \<Rightarrow> do { (r, s) \<leftarrow> hid_get_item s; Some (r, Some s) })"

definition kind_arg :: "hid_kind \<Rightarrow> u32" where
  "kind_arg k = ucast (kind_bit k)"

text \<open>The loop of \<open>hid_report_size\<close>: the first report ID, the end and the start of the report.\<close>

partial_function (option) report_loop ::
  "hid_kind \<Rightarrow> u32 option \<Rightarrow> u32 \<Rightarrow> u32 \<Rightarrow> hid_data option \<Rightarrow> (u32 option \<times> u32 \<times> u32) option" where
  "report_loop k any_id hpos lpos d = do {
     (h, d) \<leftarrow> hid_next d;
     case h of
       None \<Rightarrow> Some (any_id, hpos, lpos)
     | Some h \<Rightarrow>
         if kind h = k then
           (let any_id = (if report_ID h \<noteq> 0 \<and> any_id = None then Some (report_ID h) else any_id);
                lpos = (if lpos > l_pos (loc h) then l_pos (loc h) else lpos);
                temp = l_pos (loc h) + l_size (loc h) * l_count (loc h);
                hpos = (if hpos < temp then temp else hpos)
            in report_loop k any_id hpos lpos d)
         else report_loop k any_id hpos lpos d }"

text \<open>The result and the value stored through \<^verbatim>\<open>id\<close>.\<close>

definition hid_report_size :: "bool \<Rightarrow> buf \<Rightarrow> nat \<Rightarrow> hid_kind \<Rightarrow> (u32 \<times> byte) option" where
  "hid_report_size mem b len k = do {
     (any_id, hpos, lpos) \<leftarrow> report_loop k None 0 0xffffffff (hid_start_parse mem b len (kind_arg k));
     let temp = (if lpos > hpos then 0 else hpos - lpos);
     let temp = (if any_id \<noteq> None then temp + 8 else temp);
     Some ((temp + 7) div 8, case any_id of None \<Rightarrow> 0 | Some i \<Rightarrow> ucast i) }"

text \<open>\<open>None\<close> as a result of \<open>hid_locate\<close> is the return value 0, with size, flags and ID set to 0.\<close>

partial_function (option) locate_loop ::
  "u32 \<Rightarrow> hid_kind \<Rightarrow> byte \<Rightarrow> hid_data option \<Rightarrow> (hid_location \<times> u32 \<times> byte) option option" where
  "locate_loop u k index d = do {
     (h, d) \<leftarrow> hid_next d;
     case h of
       None \<Rightarrow> Some None
     | Some h \<Rightarrow>
         if kind h = k \<and> flags1 h AND HIO_CONST = 0 \<and> usage h = u then
           (if index \<noteq> 0 then locate_loop u k (index - 1) d
            else Some (Some (loc h, flags1 h, ucast (report_ID h))))
         else locate_loop u k index d }"

definition hid_locate ::
  "bool \<Rightarrow> buf \<Rightarrow> nat \<Rightarrow> u32 \<Rightarrow> hid_kind \<Rightarrow> byte \<Rightarrow> (hid_location \<times> u32 \<times> byte) option option" where
  "hid_locate mem desc size1 u k index = locate_loop u k index (hid_start_parse mem desc size1 (kind_arg k))"

text \<open>\<open>hid_is_collection\<close> passes the kind \<^verbatim>\<open>hid_input\<close>, which is 0, as the set of kinds.\<close>

partial_function (option) collection_loop :: "u32 \<Rightarrow> hid_data option \<Rightarrow> bool option" where
  "collection_loop u d = do {
     (h, d) \<leftarrow> hid_next d;
     case h of
       None \<Rightarrow> Some False
     | Some h \<Rightarrow> if kind h = hid_collection \<and> usage h = u then Some True else collection_loop u d }"

definition hid_is_collection :: "bool \<Rightarrow> buf \<Rightarrow> nat \<Rightarrow> u32 \<Rightarrow> bool option" where
  "hid_is_collection mem desc size1 u = collection_loop u (hid_start_parse mem desc size1 0)"

definition HID_USAGE2 :: "u32 \<Rightarrow> u32 \<Rightarrow> u32" where
  "HID_USAGE2 p u = push_bit 16 p OR u"

definition hid_is_keyboard :: "bool \<Rightarrow> buf \<Rightarrow> nat \<Rightarrow> bool option" where
  "hid_is_keyboard mem d len = hid_is_collection mem d len (HID_USAGE2 1 6)"

partial_function (option) mouse_loop :: "nat \<Rightarrow> nat \<Rightarrow> hid_data option \<Rightarrow> nat option" where
  "mouse_loop mdepth found d = do {
     (h, d) \<leftarrow> hid_next d;
     case h of
       None \<Rightarrow> Some found
     | Some h \<Rightarrow>
        (case kind h of
           hid_collection \<Rightarrow>
             mouse_loop (if mdepth \<noteq> 0 then mdepth + 1
                         else if collection h = 1 \<and> usage h = HID_USAGE2 1 2 then mdepth + 1 else mdepth) found d
         | hid_endcollection \<Rightarrow> mouse_loop (if mdepth \<noteq> 0 then mdepth - 1 else mdepth) found d
         | hid_input \<Rightarrow>
             if mdepth = 0 then mouse_loop mdepth found d
             else (let rel = (flags1 h AND (HIO_CONST OR HIO_RELATIVE) = HIO_RELATIVE);
                       found = (if usage h = HID_USAGE2 1 0x30 \<and> rel then found + 1 else found);
                       found = (if usage h = HID_USAGE2 1 0x31 \<and> rel then found + 1 else found)
                   in mouse_loop mdepth found d)
         | _ \<Rightarrow> mouse_loop mdepth found d) }"

definition hid_is_mouse :: "bool \<Rightarrow> buf \<Rightarrow> nat \<Rightarrow> nat option" where
  "hid_is_mouse mem d len = mouse_loop 0 0 (hid_start_parse mem d len (kind_arg hid_input))"

section \<open>Fields of a report\<close>

text \<open>The loop \<^verbatim>\<open>while (n--)\<close> of \<open>hid_get_data_sub\<close>; \<open>rpos\<close> is the first byte of the field.\<close>

primrec hid_get_bytes :: "nat \<Rightarrow> nat \<Rightarrow> nat \<Rightarrow> buf \<Rightarrow> u32 \<Rightarrow> u32 option" where
  "hid_get_bytes 0 rpos len b data = Some data"
| "hid_get_bytes (Suc n) rpos len b data = do {
     data \<leftarrow> (if rpos + n < len then do { v \<leftarrow> ld b (rpos + n); Some (data OR push_bit (8 * n) (ucast v)) }
              else Some data);
     hid_get_bytes n rpos len b data }"

definition hid_get_data_sub :: "buf \<Rightarrow> nat \<Rightarrow> hid_location \<Rightarrow> bool \<Rightarrow> u32 option" where
  "hid_get_data_sub b len l is_signed =
    (let hpos = unat (l_pos l); hsize = unat (l_size l)
     in if hsize = 0 then Some 0
        else let hsize = (if hsize > 32 then 32 else hsize)
        in do {
          data \<leftarrow> hid_get_bytes ((hsize + 7) div 8) (hpos div 8) len b 0;
          let data = drop_bit (hpos mod 8) data;
          let n = 32 - hsize;
          Some (if is_signed then signed_drop_bit n (push_bit n data) else drop_bit n (push_bit n data)) })"

definition hid_get_data :: "buf \<Rightarrow> nat \<Rightarrow> hid_location \<Rightarrow> u32 option" where
  "hid_get_data b len l = hid_get_data_sub b len l True"

definition hid_get_data_unsigned :: "buf \<Rightarrow> nat \<Rightarrow> hid_location \<Rightarrow> u32 option" where
  "hid_get_data_unsigned b len l = hid_get_data_sub b len l False"

primrec hid_put_bytes :: "nat \<Rightarrow> nat \<Rightarrow> nat \<Rightarrow> u64 \<Rightarrow> u64 \<Rightarrow> buf \<Rightarrow> buf option" where
  "hid_put_bytes 0 rpos len data mask1 b = Some b"
| "hid_put_bytes (Suc n) rpos len data mask1 b = do {
     b \<leftarrow> (if rpos + n < len then do {
             v \<leftarrow> ld b (rpos + n);
             st (rpos + n) (v AND ucast (NOT (drop_bit (8 * n) mask1)) OR ucast (drop_bit (8 * n) data)) b }
           else Some b);
     hid_put_bytes n rpos len data mask1 b }"

definition hid_put_data_unsigned :: "buf \<Rightarrow> nat \<Rightarrow> hid_location \<Rightarrow> u32 \<Rightarrow> buf option" where
  "hid_put_data_unsigned b len l value1 =
    (let hpos = unat (l_pos l); hsize = unat (l_size l)
     in if hsize = 0 then Some b
        else let hsize = (if hsize > 32 then 32 else hsize);
                 data = push_bit (hpos mod 8) (ucast value1);
                 mask1 = push_bit (hpos mod 8) (push_bit hsize 1 - 1)
             in hid_put_bytes ((hsize + 7) div 8) (hpos div 8) len data mask1 b)"

section \<open>The HID descriptor and the resolution of an item\<close>

abbreviation (input) UDESC_HID :: byte where "UDESC_HID \<equiv> 0x21"

partial_function (option) hid_desc_loop :: "buf \<Rightarrow> nat option \<Rightarrow> nat option option" where
  "hid_desc_loop cd desc = do {
     desc \<leftarrow> usb_desc_foreach (Some cd) desc;
     case desc of
       None \<Rightarrow> Some None
     | Some d \<Rightarrow> do {
         t \<leftarrow> bDescriptorType cd d;
         l \<leftarrow> bLength cd d;
         if t = UDESC_HID \<and> l \<ge> 9 then Some (Some d)
         else if t = UDESC_INTERFACE then Some None
         else hid_desc_loop cd (Some d) } }"

definition hid_get_descriptor_from_usb :: "buf option \<Rightarrow> nat option \<Rightarrow> nat option option" where
  "hid_get_descriptor_from_usb cd id1 =
    (case id1 of
       None \<Rightarrow> Some None
     | Some _ \<Rightarrow> (case cd of None \<Rightarrow> Some None | Some cd \<Rightarrow> hid_desc_loop cd id1))"

datatype usb_error = USB_ERR_NORMAL_COMPLETION | USB_ERR_INVAL | USB_ERR_IOERROR | USB_ERR_NOMEM | USB_ERR_OTHER

text \<open>
  \<open>usbd_req_get_hid_desc\<close>: \<open>iface\<close> is the interface's descriptor (\<open>None\<close> when \<^verbatim>\<open>usbd_get_iface\<close> or its
  \<^verbatim>\<open>idesc\<close> is null), \<open>cd\<close> the configuration, \<open>mem\<close> whether the allocation succeeds, \<open>req\<close> the transfer
  \<^verbatim>\<open>usbd_req_get_report_descriptor\<close>. The result has the report descriptor on success.
\<close>

definition usbd_req_get_hid_desc ::
  "nat option \<Rightarrow> buf option \<Rightarrow> bool \<Rightarrow> (nat \<Rightarrow> usb_error + buf) \<Rightarrow> (usb_error + buf) option" where
  "usbd_req_get_hid_desc iface cd mem req =
    (case iface of
       None \<Rightarrow> Some (Inl USB_ERR_INVAL)
     | Some d \<Rightarrow> do {
         hid \<leftarrow> hid_get_descriptor_from_usb cd (Some d);
         case (hid, cd) of
           (Some h, Some cd) \<Rightarrow> do {
             lo \<leftarrow> ld cd (h + 7);
             hi \<leftarrow> ld cd (h + 8);
             let size1 = unat lo + 256 * unat hi;
             Some (if size1 = 0 then Inl USB_ERR_IOERROR
                   else if \<not> mem then Inl USB_ERR_NOMEM else req size1) }
         | _ \<Rightarrow> Some (Inl USB_ERR_IOERROR) })"

text \<open>The scaling table; index 0 to 15.\<close>

definition hid_scale :: "(int \<times> int) list" where
  "hid_scale = [(1, 1), (1, 10), (1, 100), (1, 1000), (1, 10000), (1, 100000), (1, 1000000), (1, 10000000),
     (100000000, 1), (10000000, 1), (1000000, 1), (100000, 1), (10000, 1), (1000, 1), (100, 1), (10, 1)]"

definition int64_ok :: "int \<Rightarrow> bool" where
  "int64_ok x \<longleftrightarrow> - (2 ^ 63) \<le> x \<and> x < 2 ^ 63"

text \<open>The arithmetic is that of \<^verbatim>\<open>int64_t\<close>; an overflow has no value.\<close>

definition hid_item_resolution :: "hid_item \<Rightarrow> u32 option" where
  "hid_item_resolution hi =
    (let u = unit1 hi;
         m = (if u = 0x11 then Some (1, 10) else if u = 0x13 then Some (10, 254)
              else if u = 0x12 then Some (1, 1) else if u = 0x14 then Some (573, 10) else None)
     in case m of
       None \<Rightarrow> Some 0
     | Some (multiplier, divisor) \<Rightarrow>
        (if sint (logical_maximum hi) \<le> sint (logical_minimum hi) \<or> sint (physical_maximum hi) \<le> sint (physical_minimum hi)
            \<or> sint (unit_exponent hi) < 0 \<or> sint (unit_exponent hi) \<ge> 16 then Some 0
         else
           (let logical_size = sint (logical_maximum hi) - sint (logical_minimum hi);
                physical_size = sint (physical_maximum hi) - sint (physical_minimum hi);
                sc = hid_scale ! nat (sint (unit_exponent hi));
                a = logical_size * multiplier * fst sc;
                b = physical_size * divisor * snd sc
            in if int64_ok (logical_size * multiplier) \<and> int64_ok a \<and> int64_ok (physical_size * divisor) \<and> int64_ok b
               then Some (if a div b > 0x7fffffff then 0 else of_int (a div b)) else None)))"

end
