(* ===== verification/Usb_HidLaws.thy ===== *)
theory Usb_HidLaws
  imports Usb_Hid
begin

text \<open>
  The HID parser of usb_hid.c: it stays inside its arrays and ends; the items it yields; fields of a
  report.
\<close>

section \<open>The parser stays inside its arrays and ends\<close>

definition hid_inv :: "hid_data \<Rightarrow> bool" where
  "hid_inv s \<longleftrightarrow> h_p s \<le> h_end s \<and> h_end s \<le> blen (h_buf s) \<and> length (cur s) = MAXPUSH \<and> unat (pushlevel s) < MAXPUSH \<and>
     length (last_pos s) = MAXID \<and> length (usages_min s) = MAXUSAGE \<and> length (usages_max s) = MAXUSAGE \<and>
     unat (nusage s) \<le> MAXUSAGE \<and> ncount s \<le> MAXLOCCNT"

text \<open>\<open>t\<close> follows \<open>s\<close>: the invariant holds, and the parser has not gone back.\<close>

definition follows :: "hid_data \<Rightarrow> hid_data \<Rightarrow> bool" where
  "follows s t \<longleftrightarrow> hid_inv t \<and> h_end t = h_end s \<and> h_buf t = h_buf s \<and> h_p s \<le> h_p t"

lemma follows_refl: "hid_inv s \<Longrightarrow> follows s s"
  by (simp add: follows_def)

lemma follows_trans: "follows s t \<Longrightarrow> follows t u \<Longrightarrow> follows s u"
  by (auto simp: follows_def)

lemma follows_inv: "follows s t \<Longrightarrow> hid_inv t"
  by (simp add: follows_def)

lemma get_c_ok: "hid_inv s \<Longrightarrow> get_c s = Some (cur s ! unat (pushlevel s))"
  by (simp add: get_c_def nth_opt_def hid_inv_def)

lemma set_c_ok: "hid_inv s \<Longrightarrow> set_c c s = Some (s\<lparr>cur := (cur s)[unat (pushlevel s) := c]\<rparr>)"
  by (simp add: set_c_def upd_opt_def hid_inv_def)

lemma hid_inv_cur [simp]: "length xs = MAXPUSH \<Longrightarrow> hid_inv s \<Longrightarrow> hid_inv (s\<lparr>cur := xs\<rparr>)"
  by (simp add: hid_inv_def)

lemma hid_inv_len: "hid_inv s \<Longrightarrow> length (cur s) = MAXPUSH"
  by (simp add: hid_inv_def)

lemma follows_cur: "hid_inv s \<Longrightarrow> follows s (s\<lparr>cur := (cur s)[i := c]\<rparr>)"
  by (simp add: follows_def hid_inv_len)

lemma follows_set_c: "follows s t \<Longrightarrow> \<exists>u. set_c c t = Some u \<and> follows s u"
  by (auto simp: set_c_ok follows_def hid_inv_len)

lemma hid_get_byte_ok:
  assumes "hid_inv s"
  shows "\<exists>b t. hid_get_byte n s = Some (b, t) \<and> follows s t \<and> (h_p s \<noteq> h_end s \<longrightarrow> 0 < n \<longrightarrow> h_p s < h_p t)"
  using assms by (auto simp: hid_get_byte_def follows_def hid_inv_def ld_def)

lemma hid_prefix_ok:
  assumes "hid_inv s" "h_p s \<noteq> h_end s"
  shows "\<exists>x t. hid_prefix s = Some (x, t) \<and> follows s t \<and> h_p s < h_p t"
proof -
  obtain b t where b: "hid_get_byte 1 s = Some (b, t)" "follows s t" "h_p s < h_p t"
    using hid_get_byte_ok [OF assms(1), of 1] assms(2) by auto
  show ?thesis
  proof (cases "b = 0xfe")
    case True
    obtain b1 t1 where b1: "hid_get_byte 1 t = Some (b1, t1)" "follows t t1"
      using hid_get_byte_ok [OF follows_inv [OF b(2)], of 1] by blast
    obtain b2 t2 where b2: "hid_get_byte 1 t1 = Some (b2, t2)" "follows t1 t2"
      using hid_get_byte_ok [OF follows_inv [OF b1(2)], of 1] by blast
    obtain b3 t3 where b3: "hid_get_byte 1 t2 = Some (b3, t3)" "follows t2 t3"
      using hid_get_byte_ok [OF follows_inv [OF b2(2)], of 1] by blast
    have "follows s t3" "h_p t \<le> h_p t3" using b b1 b2 b3 by (auto simp: follows_def)
    then show ?thesis using True b b1(1) b2(1) b3(1) by (simp add: hid_prefix_def)
  next
    case False
    then show ?thesis using b by (simp add: hid_prefix_def)
  qed
qed

lemma hid_value_ok:
  assumes "hid_inv s"
  shows "\<exists>v t. hid_value n s = Some (v, t) \<and> follows s t"
proof -
  obtain b1 t1 where b1: "hid_get_byte 1 s = Some (b1, t1)" "follows s t1"
    using hid_get_byte_ok [OF assms, of 1] by blast
  obtain b2 t2 where b2: "hid_get_byte 1 t1 = Some (b2, t2)" "follows t1 t2"
    using hid_get_byte_ok [OF follows_inv [OF b1(2)], of 1] by blast
  obtain b3 t3 where b3: "hid_get_byte 1 t2 = Some (b3, t3)" "follows t2 t3"
    using hid_get_byte_ok [OF follows_inv [OF b2(2)], of 1] by blast
  obtain b4 t4 where b4: "hid_get_byte 1 t3 = Some (b4, t4)" "follows t3 t4"
    using hid_get_byte_ok [OF follows_inv [OF b3(2)], of 1] by blast
  obtain b5 t5 where b5: "hid_get_byte n s = Some (b5, t5)" "follows s t5"
    using hid_get_byte_ok [OF assms, of n] by blast
  have "follows s t2" "follows s t4" using b1 b2 b3 b4 by (auto simp: follows_def)
  then show ?thesis
    using b1 b2(1) b3(1) b4(1) b5 follows_refl [OF assms] by (simp add: hid_value_def)
qed

lemma hid_ret_ok:
  assumes "hid_inv s"
  shows "\<exists>t. hid_ret k v c s = Some (Top, t) \<and> follows s t"
proof -
  have "hid_inv (s\<lparr>ncount := n\<rparr>)" if "n \<le> MAXLOCCNT" for n using assms that by (simp add: hid_inv_def)
  then show ?thesis
    using assms by (auto simp: hid_ret_def Let_def set_c_ok follows_def hid_inv_len not_less)
qed

lemma hid_main_ok:
  assumes "hid_inv s"
  shows "\<exists>a t. hid_main tag v c s = Some (a, t) \<and> follows s t"
proof -
  have ret: "\<exists>a t. hid_ret k v c s = Some (a, t) \<and> follows s t" for k using hid_ret_ok [OF assms] by blast
  show ?thesis
    unfolding hid_main_def Let_def
    using ret follows_refl [OF assms] follows_cur [OF assms] by (auto simp: set_c_ok [OF assms])
qed

lemma find_rid_ok: "i + n \<le> length lp \<Longrightarrow> \<exists>j. find_rid n i rid lp = Some j \<and> j \<le> i + n"
proof (induction n arbitrary: i)
  case (Suc n)
  then show ?case using Suc.IH [of "Suc i"] by (auto simp: nth_opt_def)
qed simp

lemma rid_slot_ok: "length lp = MAXID \<Longrightarrow> \<exists>j. rid_slot rid lp = Some j \<and> (j \<noteq> MAXID \<longrightarrow> j < MAXID)"
  using find_rid_ok [of 1 15 lp rid] by (auto simp: rid_slot_def)

lemma hid_switch_rid_ok:
  assumes "hid_inv s"
  shows "\<exists>t d. hid_switch_rid s c rid = Some (t, d) \<and> follows s t"
proof -
  have l: "length (last_pos s) = MAXID" using assms by (simp add: hid_inv_def)
  obtain i where i: "rid_slot (report_ID c) (last_pos s) = Some i" "i \<noteq> MAXID \<longrightarrow> i < MAXID"
    using rid_slot_ok [OF l] by blast
  define lp where "lp = (if i \<noteq> MAXID then (last_pos s)[i := (report_ID c, l_pos (loc c))] else last_pos s)"
  have lp: "length lp = MAXID" "(if i \<noteq> MAXID then upd_opt (last_pos s) i (report_ID c, l_pos (loc c)) else Some (last_pos s)) = Some lp"
    using i(2) l by (auto simp: lp_def upd_opt_def)
  obtain j where j: "rid_slot rid lp = Some j" "j \<noteq> MAXID \<longrightarrow> j < MAXID" using rid_slot_ok [OF lp(1)] by blast
  have inv: "hid_inv (s\<lparr>last_pos := x\<rparr>)" if "length x = MAXID" for x using assms that by (simp add: hid_inv_def)
  show ?thesis
    unfolding hid_switch_rid_def i(1) bind.simps lp(2) Let_def j(1)
    using j(2) lp(1) inv assms by (auto simp: nth_opt_def upd_opt_def follows_def)
qed

lemma push_ok: "hid_inv s \<Longrightarrow> unat (pushlevel s) + 1 < MAXPUSH \<Longrightarrow> unat (pushlevel s + 1) = unat (pushlevel s) + 1"
  by (simp add: unat_word_ariths)

lemma pop_ok: "pushlevel s \<noteq> 0 \<Longrightarrow> unat (pushlevel s - 1) = unat (pushlevel s) - 1"
  by (rule unat_minus_one)

lemma hid_global_ok:
  assumes inv: "hid_inv s"
  shows "\<exists>a t. hid_global tag v m c s = Some (a, t) \<and> follows s t"
proof -
  have put: "\<exists>t. set_c c' s = Some t \<and> follows s t" for c'
    using follows_set_c [OF follows_refl [OF inv]] by blast
  obtain t d where sw: "hid_switch_rid s c (v AND m) = Some (t, d)" "follows s t" using hid_switch_rid_ok [OF inv] by blast
  have sc: "\<exists>u. set_c d t = Some u \<and> follows s u" by (rule follows_set_c [OF sw(2)])
  have len: "length (cur s) = MAXPUSH" by (rule hid_inv_len [OF inv])
  consider "tag \<in> {0, 1, 2, 3, 4, 5, 6}" | "tag \<in> {7, 8, 9}" | "tag = 10" | "tag = 11" | "tag \<notin> {0, 1, 2, 3, 4, 5, 6, 7, 8, 9, 10, 11}"
    by auto
  then show ?thesis
  proof cases
    case 1
    then show ?thesis using follows_cur [OF inv] by (auto simp: hid_global_def Let_def set_c_ok [OF inv])
  next
    case 2
    have l: "follows s (s\<lparr>loc_size := x\<rparr>)" "follows s (s\<lparr>loc_count := x\<rparr>)" for x
      using inv by (simp_all add: follows_def hid_inv_def)
    obtain u where "set_c d t = Some u" "follows s u" using sc by blast
    then show ?thesis using 2 sw(1) l by (auto simp: hid_global_def Let_def)
  next
    case 3
    have p: "follows s (s\<lparr>cur := xs, pushlevel := pushlevel s + 1\<rparr>)" if "length xs = MAXPUSH" "unat (pushlevel s) + 1 < MAXPUSH" for xs
      using inv that push_ok [OF inv] by (simp add: follows_def hid_inv_def)
    have u: "unat (pushlevel s) < MAXPUSH" using inv by (simp add: hid_inv_def)
    show ?thesis
      using 3 len p follows_refl [OF inv] u by (simp add: hid_global_def Let_def upd_opt_def)
  next
    case 4
    show ?thesis
    proof (cases "pushlevel s = 0")
      case True
      then show ?thesis using 4 follows_refl [OF inv] by (simp add: hid_global_def)
    next
      case False
      let ?s = "s\<lparr>pushlevel := pushlevel s - 1\<rparr>"
      have i: "hid_inv ?s" "hid_inv (?s\<lparr>loc_size := x, loc_count := y\<rparr>)" for x y
        using inv pop_ok [OF False] by (auto simp: hid_inv_def)
      show ?thesis
        using 4 False get_c_ok [OF i(1)] set_c_ok [OF i(2)] len
        by (auto simp: hid_global_def Let_def follows_def intro!: hid_inv_cur i(2))
    qed
  next
    case 5
    then show ?thesis using follows_refl [OF inv] by (simp add: hid_global_def)
  qed
qed

lemma hid_add_usage_ok:
  assumes "hid_inv s" "unat (nusage s) < MAXUSAGE"
  shows "\<exists>t. hid_add_usage lo hi s = Some t \<and> follows s t"
proof -
  have "unat (nusage s + 1) = unat (nusage s) + 1" using assms(2) by (simp add: unat_word_ariths)
  then show ?thesis using assms by (auto simp: hid_add_usage_def upd_opt_def follows_def hid_inv_def)
qed

lemma hid_check_set_ok:
  assumes "hid_inv s"
  shows "\<exists>t. hid_check_set c s = Some (Next, t) \<and> follows s t"
proof -
  have sus: "follows s t \<Longrightarrow> follows s (t\<lparr>susage := 0\<rparr>)" for t by (auto simp: follows_def hid_inv_def)
  show ?thesis
  proof (cases "susage s \<noteq> 3")
    case True
    then show ?thesis using follows_refl [OF assms] by (simp add: hid_check_set_def)
  next
    case False
    obtain t where "(if unat (nusage s) < MAXUSAGE \<and> sint (usage_minimum c) \<le> sint (usage_maximum c)
        then hid_add_usage (usage_minimum c) (usage_maximum c) s else Some s) = Some t" "follows s t"
      using hid_add_usage_ok [OF assms] follows_refl [OF assms] by (metis (no_types))
    with False sus show ?thesis by (simp add: hid_check_set_def)
  qed
qed

lemma hid_local_ok:
  assumes inv: "hid_inv s"
  shows "\<exists>a t. hid_local tag n v m c s = Some (a, t) \<and> follows s t"
proof -
  have put: "\<exists>t. set_c c' s = Some t \<and> follows s t" for c'
    using follows_set_c [OF follows_refl [OF inv]] by blast
  have i: "follows s (s\<lparr>usage_last := u\<rparr>)" "follows s (s\<lparr>susage := x\<rparr>)" for u x
    using inv by (simp_all add: follows_def hid_inv_def)
  have sus: "follows s t \<Longrightarrow> follows s (t\<lparr>susage := 0\<rparr>)" for t by (auto simp: follows_def hid_inv_def)
  have add: "\<exists>t. hid_add_usage u u (s\<lparr>usage_last := u\<rparr>) = Some t \<and> follows s t" if lt: "unat (nusage s) < MAXUSAGE" for u
  proof -
    obtain t where "hid_add_usage u u (s\<lparr>usage_last := u\<rparr>) = Some t" "follows (s\<lparr>usage_last := u\<rparr>) t"
      using hid_add_usage_ok [OF follows_inv [OF i(1)], of u u u] lt by auto
    then show ?thesis using follows_trans [OF i(1)] by blast
  qed
  have chk: "\<exists>t u. set_c c' (s\<lparr>susage := x\<rparr>) = Some t \<and> hid_check_set c' t = Some (Next, u) \<and> follows s u" for c' x
  proof -
    obtain t where t: "set_c c' (s\<lparr>susage := x\<rparr>) = Some t" "follows s t" using follows_set_c [OF i(2)] by blast
    obtain u where u: "hid_check_set c' t = Some (Next, u)" "follows t u" using hid_check_set_ok [OF follows_inv [OF t(2)]] by blast
    show ?thesis using t u follows_trans by blast
  qed
  consider "tag = 0" | "tag \<in> {1, 2}" | "tag \<notin> {0, 1, 2}" by auto
  then show ?thesis
  proof cases
    case 1
    let ?u = "if n \<noteq> 4 then (v AND m) OR usage_page c else v"
    obtain t where "(if unat (nusage s) < MAXUSAGE then hid_add_usage ?u ?u (s\<lparr>usage_last := ?u\<rparr>) else Some (s\<lparr>usage_last := ?u\<rparr>)) = Some t"
        "follows s t"
      using add [of ?u] i(1) [of ?u] by (cases "unat (nusage s) < MAXUSAGE") auto
    with 1 sus show ?thesis by (simp add: hid_local_def Let_def)
  next
    case 2
    let ?u = "if n \<noteq> 4 then (v AND m) OR usage_page c else v"
    from 2 chk [of "c\<lparr>usage_minimum := ?u\<rparr>" "susage s OR 1"] chk [of "c\<lparr>usage_maximum := ?u\<rparr>" "susage s OR 2"]
    show ?thesis by (auto simp: hid_local_def Let_def)
  next
    case 3
    then show ?thesis using follows_cur [OF inv] follows_refl [OF inv] by (auto simp: hid_local_def Let_def set_c_ok [OF inv])
  qed
qed

lemma hid_step_ok:
  assumes "hid_inv s" "h_p s \<noteq> h_end s"
  shows "\<exists>a t. hid_step s = Some (a, t) \<and> follows s t \<and> h_p s < h_p t"
proof -
  obtain tag ty n t where p: "hid_prefix s = Some ((tag, ty, n), t)" "follows s t" "h_p s < h_p t"
    using hid_prefix_ok [OF assms] by auto
  obtain v u where v: "hid_value n t = Some (v, u)" "follows t u" using hid_value_ok [OF follows_inv [OF p(2)]] by blast
  have u: "follows s u" "h_p s < h_p u" "hid_inv u" using p v by (auto simp: follows_def)
  show ?thesis
  proof (cases v)
    case None
    then show ?thesis using p(1) v(1) u by (simp add: hid_step_def)
  next
    case (Some w)
    obtain d m where w: "w = (d, m)" by force
    let ?c = "cur u ! unat (pushlevel u)"
    have "\<exists>a x. (if ty = 0 then hid_main tag d ?c u else if ty = 1 then hid_global tag d m ?c u
        else if ty = 2 then hid_local tag n d m ?c u else Some (Next, u)) = Some (a, x) \<and> follows u x"
      using hid_main_ok [OF u(3)] hid_global_ok [OF u(3)] hid_local_ok [OF u(3)] follows_refl [OF u(3)] by (simp split: if_split)
    then obtain a x where a: "(if ty = 0 then hid_main tag d ?c u else if ty = 1 then hid_global tag d m ?c u
        else if ty = 2 then hid_local tag n d m ?c u else Some (Next, u)) = Some (a, x)" "follows u x" by blast
    have "hid_step s = Some (a, x)"
      unfolding hid_step_def p(1) bind.simps prod.case v(1) Some w option.case get_c_ok [OF u(3)] by (rule a(1))
    then show ?thesis using u a(2) by (auto simp: follows_def)
  qed
qed


lemma hid_top_ok:
  assumes inv: "hid_inv s"
  shows "\<exists>r t. hid_top s = Some (r, t) \<and> follows s t \<and>
    (r \<noteq> None \<longrightarrow> icount s < ncount s \<and> ncount t = ncount s \<and> icount t = icount s + 1)"
proof (cases "icount s < ncount s")
  case False
  then show ?thesis using follows_refl [OF inv] by (simp add: hid_top_def)
next
  case True
  let ?c = "cur s ! unat (pushlevel s)"
  obtain c t where ct: "hid_next_usage ?c s = Some (c, t)" "follows s t" "ncount t = ncount s" "icount t = icount s"
  proof (cases "iusage s < nusage s")
    case u: True
    then have "unat (iusage s) < MAXUSAGE" using inv by (auto simp: hid_inv_def word_less_nat_alt)
    moreover have "follows s (s\<lparr>usage_last := d, iusage := i, ousage := 0\<rparr>)" "follows s (s\<lparr>usage_last := d, ousage := i\<rparr>)" for d i
      using inv by (simp_all add: follows_def hid_inv_def)
    moreover have "length (usages_min s) = MAXUSAGE" "length (usages_max s) = MAXUSAGE" using inv by (simp_all add: hid_inv_def)
    ultimately show ?thesis using u that by (simp add: nth_opt_def Let_def hid_next_usage_def)
  next
    case False
    then show ?thesis using follows_refl [OF inv] by (intro that [of ?c s]) (simp_all add: hid_next_usage_def)
  qed
  let ?t = "t\<lparr>icount := icount t + 1\<rparr>"
  have f: "follows s ?t" using ct(2) by (auto simp: follows_def hid_inv_def)
  have i: "hid_inv ?t" by (rule follows_inv [OF f])
  have "follows s (?t\<lparr>cur := (cur ?t)[k := d]\<rparr>)" for k d by (rule follows_trans [OF f follows_cur [OF i]])
  then show ?thesis
    unfolding hid_top_def get_c_ok [OF inv] bind.simps ct(1) prod.case Let_def set_c_ok [OF i]
    using True ct(3,4) by simp
qed

lemma hid_reset_ok:
  assumes inv: "hid_inv s"
  shows "\<exists>t. hid_reset s = Some t \<and> follows s t"
proof -
  let ?s = "s\<lparr>icount := 0, ncount := 0, iusage := 0, nusage := 0, susage := 0, ousage := 0\<rparr>"
  have f: "follows s ?s" using inv by (simp add: follows_def hid_inv_def)
  show ?thesis
    unfolding hid_reset_def get_c_ok [OF inv] using follows_set_c [OF f] by simp
qed

lemma hid_loop_ok:
  assumes "hid_inv s"
  shows "\<exists>r t. hid_loop s = Some (r, t) \<and> follows s t \<and> (r \<noteq> None \<longrightarrow> h_p s < h_p t)"
  using assms
proof (induction "h_end s - h_p s" arbitrary: s rule: less_induct)
  case less
  show ?case
  proof (cases "h_p s = h_end s")
    case True
    then show ?thesis using follows_refl [OF less.prems] by (subst hid_loop.simps) simp
  next
    case False
    obtain a t where a: "hid_step s = Some (a, t)" "follows s t" "h_p s < h_p t"
      using hid_step_ok [OF less.prems False] by blast
    have rec: "\<exists>r v. hid_loop u = Some (r, v) \<and> follows s v \<and> (r \<noteq> None \<longrightarrow> h_p s < h_p v)" if u: "follows t u" for u
    proof -
      have "h_p s \<le> h_end s" using less.prems by (simp add: hid_inv_def)
      then have "h_end u - h_p u < h_end s - h_p s" using a(2,3) u False by (auto simp: follows_def)
      from less.hyps [OF this follows_inv [OF u]] obtain r v where "hid_loop u = Some (r, v)" "follows u v" by blast
      then show ?thesis using a(2,3) u follows_trans by (auto simp: follows_def)
    qed
    show ?thesis
    proof (cases a)
      case (Ret r)
      then show ?thesis using False a by (subst hid_loop.simps) simp
    next
      case Next
      then show ?thesis using False a(1) rec [OF follows_refl [OF follows_inv [OF a(2)]]] by (subst hid_loop.simps) simp
    next
      case Top
      obtain r u where r: "hid_top t = Some (r, u)" "follows t u" using hid_top_ok [OF follows_inv [OF a(2)]] by blast
      obtain v where v: "hid_reset u = Some v" "follows u v" using hid_reset_ok [OF follows_inv [OF r(2)]] by blast
      have "follows s u" "h_p s < h_p u" using a r by (auto simp: follows_def)
      then show ?thesis
        using False a(1) Top r(1) v(1) rec [OF follows_trans [OF r(2) v(2)]]
        by (cases r) (subst hid_loop.simps, simp)+
    qed
  qed
qed

text \<open>What is left to be returned: bytes of the descriptor, and items of the current array.\<close>

definition hid_left :: "hid_data \<Rightarrow> nat" where
  "hid_left s = (h_end s - h_p s) * 1025 + (unat (ncount s) - unat (icount s))"

lemma hid_get_item_ok:
  assumes inv: "hid_inv s"
  shows "\<exists>r t. hid_get_item s = Some (r, t) \<and> follows s t \<and> (r \<noteq> None \<longrightarrow> hid_left t < hid_left s)"
proof -
  obtain r t where r: "hid_top s = Some (r, t)" "follows s t"
      "r \<noteq> None \<longrightarrow> icount s < ncount s \<and> ncount t = ncount s \<and> icount t = icount s + 1"
    using hid_top_ok [OF inv] by blast
  obtain u where u: "hid_reset t = Some u" "follows t u" using hid_reset_ok [OF follows_inv [OF r(2)]] by blast
  obtain q v where q: "hid_loop u = Some (q, v)" "follows u v" "q \<noteq> None \<longrightarrow> h_p u < h_p v"
    using hid_loop_ok [OF follows_inv [OF u(2)]] by blast
  show ?thesis
  proof (cases r)
    case None
    have f: "follows s v" by (rule follows_trans [OF r(2) follows_trans [OF u(2) q(2)]])
    have "hid_left v < hid_left s" if "q \<noteq> None"
    proof -
      have lt: "h_p s < h_p v" using q(3) that r(2) u(2) by (auto simp: follows_def)
      have "ncount v \<le> MAXLOCCNT" "h_end v = h_end s" "h_p v \<le> h_end v" using f by (auto simp: follows_def hid_inv_def)
      then have "unat (ncount v) \<le> 1024" "h_end v - h_p v + 1 \<le> h_end s - h_p s" using lt by (auto simp: word_le_nat_alt)
      then show ?thesis unfolding hid_left_def by linarith
    qed
    then show ?thesis using None r(1) u(1) q(1) f by (simp add: hid_get_item_def)
  next
    case (Some h)
    then have i: "icount s < ncount s" "ncount t = ncount s" "icount t = icount s + 1" using r(3) by auto
    have "unat (ncount s) < 2 ^ LENGTH(32)" by (rule unsigned_less)
    then have "unat (icount s + 1) = unat (icount s) + 1" using i(1) by (simp add: unat_word_ariths word_less_nat_alt)
    moreover have "unat (icount s) < unat (ncount s)" using i(1) by (simp add: word_less_nat_alt)
    moreover have "(h_end t - h_p t) * 1025 \<le> (h_end s - h_p s) * 1025" using r(2) by (auto simp: follows_def)
    ultimately have "hid_left t < hid_left s" unfolding hid_left_def i by linarith
    then show ?thesis using Some r(1,2) by (simp add: hid_get_item_def)
  qed
qed

section \<open>The items of a descriptor\<close>

inductive yields :: "hid_data option \<Rightarrow> hid_item list \<Rightarrow> bool" where
  stop: "hid_next d = Some (None, d') \<Longrightarrow> yields d []"
| item: "hid_next d = Some (Some h, d') \<Longrightarrow> yields d' hs \<Longrightarrow> yields d (h # hs)"

inductive_cases yields_NilE: "yields d []"
inductive_cases yields_ConsE: "yields d (h # hs)"

lemma start_inv: "hid_start_parse mem d len k = Some s \<Longrightarrow> len \<le> blen d \<Longrightarrow> hid_inv s"
  by (auto simp: hid_start_parse_def hid_inv_def split: if_splits)

lemma hid_next_Some: "hid_next (Some s) = do { (r, s) \<leftarrow> hid_get_item s; Some (r, Some s) }"
  by (simp add: hid_next_def)

lemma yields_total:
  assumes "hid_inv s"
  shows "\<exists>hs. yields (Some s) hs \<and> length hs \<le> hid_left s"
  using assms
proof (induction "hid_left s" arbitrary: s rule: less_induct)
  case less
  obtain r t where r: "hid_get_item s = Some (r, t)" "follows s t" "r \<noteq> None \<longrightarrow> hid_left t < hid_left s"
    using hid_get_item_ok [OF less.prems] by blast
  show ?case
  proof (cases r)
    case None
    then have "yields (Some s) []" using r(1) by (intro yields.stop [where d' = "Some t"]) (simp add: hid_next_Some)
    then show ?thesis by (intro exI [of _ "[]"]) simp
  next
    case (Some h)
    with r(3) have lt: "hid_left t < hid_left s" by simp
    from less.hyps [OF this follows_inv [OF r(2)]] obtain hs where hs: "yields (Some t) hs" "length hs \<le> hid_left t" by blast
    have "yields (Some s) (h # hs)"
      using r(1) Some hs(1) by (intro yields.item [where d' = "Some t"]) (simp_all add: hid_next_Some)
    then show ?thesis using hs(2) lt by (intro exI [of _ "h # hs"]) simp
  qed
qed

lemma locate_loop_spec:
  assumes "yields d hs"
  shows "locate_loop u k i d = Some (let ms = filter (\<lambda>h. kind h = k \<and> flags1 h AND HIO_CONST = 0 \<and> usage h = u) hs
    in if unat i < length ms then Some (loc (ms ! unat i), flags1 (ms ! unat i), ucast (report_ID (ms ! unat i))) else None)"
  using assms
proof (induction arbitrary: i)
  case (stop d d')
  then show ?case by (subst locate_loop.simps) simp
next
  case (item d h d' hs)
  have i: "unat (i - 1) = unat i - 1" if "i \<noteq> 0" using that by (rule unat_minus_one)
  have z: "i \<noteq> 0 \<Longrightarrow> 0 < unat i" by (simp add: unat_gt_0)
  show ?case
    using item(1) item.IH i z by (subst locate_loop.simps) (auto simp: Let_def nth_Cons')
qed

section \<open>Reading and writing fields\<close>

lemma hid_get_bytes_eq:
  "len \<le> blen b \<Longrightarrow> \<exists>v. hid_get_bytes n r len b d = Some v \<and>
    (\<forall>k<32. bit v k \<longleftrightarrow> bit d k \<or> k div 8 < n \<and> r + k div 8 < len \<and> bit (bdat b (r + k div 8)) (k mod 8))"
proof (induction n arbitrary: d)
  case (Suc n)
  let ?d = "if r + n < len then d OR push_bit (8 * n) (ucast (bdat b (r + n))) else d"
  obtain v where v: "hid_get_bytes n r len b ?d = Some v"
    "\<forall>k<32. bit v k \<longleftrightarrow> bit ?d k \<or> k div 8 < n \<and> r + k div 8 < len \<and> bit (bdat b (r + k div 8)) (k mod 8)"
    using Suc.IH [of ?d] Suc.prems by auto
  have "hid_get_bytes (Suc n) r len b d = Some v" using v(1) Suc.prems by (simp add: ld_def split: if_splits)
  moreover have "bit v k \<longleftrightarrow> bit d k \<or> k div 8 < Suc n \<and> r + k div 8 < len \<and> bit (bdat b (r + k div 8)) (k mod 8)" if k: "k < 32" for k
  proof -
    have "bit (push_bit (8 * n) (ucast (bdat b (r + n)) :: u32)) k \<longleftrightarrow> 8 * n \<le> k \<and> k - 8 * n < 8 \<and> bit (bdat b (r + n)) (k - 8 * n)"
      using k by (auto simp: bit_simps dest: bit_imp_le_length)
    moreover have "8 * n \<le> k \<and> k - 8 * n < 8 \<longleftrightarrow> k div 8 = n" by auto
    moreover have "k div 8 = n \<Longrightarrow> k - 8 * n = k mod 8" by (simp add: minus_mult_div_eq_mod [symmetric])
    ultimately show ?thesis using v(2) k by (auto simp: bit_simps less_Suc_eq)
  qed
  ultimately show ?case by blast
qed simp

text \<open>The bytes after those at \<open>r\<close> up to \<open>r + n\<close>, as far as they are below \<open>len\<close>, have been changed.\<close>

definition put_range :: "nat \<Rightarrow> nat \<Rightarrow> nat \<Rightarrow> u64 \<Rightarrow> u64 \<Rightarrow> (nat \<Rightarrow> byte) \<Rightarrow> nat \<Rightarrow> byte" where
  "put_range r n len d m f = (\<lambda>j. if r \<le> j \<and> j < r + n \<and> j < len
     then f j AND ucast (NOT (drop_bit (8 * (j - r)) m)) OR ucast (drop_bit (8 * (j - r)) d) else f j)"

lemma put_range_Suc:
  "r + n < len \<Longrightarrow> put_range r n len d m (f(r + n := f (r + n) AND ucast (NOT (drop_bit (8 * n) m)) OR ucast (drop_bit (8 * n) d))) =
   put_range r (Suc n) len d m f"
  "\<not> r + n < len \<Longrightarrow> put_range r (Suc n) len d m f = put_range r n len d m f"
  unfolding put_range_def by (rule ext; auto simp: less_Suc_eq)+

lemma hid_put_bytes_eq:
  "len \<le> blen b \<Longrightarrow> hid_put_bytes n r len d m b = Some (b\<lparr>bdat := put_range r n len d m (bdat b)\<rparr>)"
proof (induction n arbitrary: b)
  case 0
  have "put_range r 0 len d m (bdat b) = bdat b" unfolding put_range_def by (rule ext) auto
  then show ?case by simp
next
  case (Suc n)
  then show ?case by (cases "r + n < len") (simp_all add: ld_def st_def put_range_Suc [unfolded fun_upd_def] fun_upd_def)
qed

text \<open>
  The bits of a report are numbered from bit 0 of byte 0 on. A field has at most 32 of them, and the
  routines touch the bytes from the first one of the field on that its size needs when it starts at a
  byte boundary, as far as they are inside the report.
\<close>

definition fsize :: "hid_location \<Rightarrow> nat" where
  "fsize l = min 32 (unat (l_size l))"

definition touched :: "nat \<Rightarrow> hid_location \<Rightarrow> nat \<Rightarrow> bool" where
  "touched len l x \<longleftrightarrow> (let r = unat (l_pos l) div 8 in r \<le> x div 8 \<and> x div 8 < r + (fsize l + 7) div 8 \<and> x div 8 < len)"

definition report_bit :: "buf \<Rightarrow> nat \<Rightarrow> bool" where
  "report_bit b x = bit (bdat b (x div 8)) (x mod 8)"

lemma bit_mask64: "bit (push_bit q (push_bit z 1 - 1 :: u64)) j \<longleftrightarrow> q \<le> j \<and> j < q + z \<and> j < 64" if "z \<le> 32" "q < 8"
proof -
  have "push_bit z 1 - 1 = (mask z :: u64)" by (simp add: mask_eq_exp_minus_1 push_bit_eq_mult)
  then show ?thesis using that by (auto simp: bit_simps)
qed

lemma field_end: "(p :: nat) = 8 * r + q \<Longrightarrow> q + z \<le> 8 * n \<Longrightarrow> k < z \<Longrightarrow> p + k < (r + n) * 8"
  by (simp add: add_mult_distrib)

lemma put_field:
  assumes len: "len \<le> blen b"
  shows "\<exists>b'. hid_put_data_unsigned b len l v = Some b' \<and> blen b' = blen b \<and>
    (\<forall>x. report_bit b' x =
       (if touched len l x \<and> unat (l_pos l) \<le> x
        then bit v (x - unat (l_pos l)) \<or> unat (l_pos l) + fsize l \<le> x \<and> report_bit b x
        else report_bit b x))"
proof (cases "unat (l_size l) = 0")
  case True
  then have "\<not> touched len l x" for x by (simp add: touched_def fsize_def Let_def)
  then show ?thesis using True by (simp add: hid_put_data_unsigned_def)
next
  case False
  let ?p = "unat (l_pos l)" and ?z = "fsize l"
  let ?q = "?p mod 8" and ?r = "?p div 8" and ?n = "(?z + 7) div 8"
  have z: "?z \<le> 32" "(if 32 < unat (l_size l) then 32 else unat (l_size l)) = ?z" by (auto simp: fsize_def)
  let ?d = "push_bit ?q (ucast v) :: u64" and ?m = "push_bit ?q (push_bit ?z 1 - 1) :: u64"
  let ?b = "b\<lparr>bdat := put_range ?r ?n len ?d ?m (bdat b)\<rparr>"
  have put: "hid_put_data_unsigned b len l v = Some ?b"
    using False unfolding hid_put_data_unsigned_def Let_def z(2) by (simp add: hid_put_bytes_eq [OF len])
  have "report_bit ?b x = (if touched len l x \<and> ?p \<le> x then bit v (x - ?p) \<or> ?p + ?z \<le> x \<and> report_bit b x else report_bit b x)" for x
  proof (cases "touched len l x")
    case True
    define j c where "j = x div 8" and "c = x mod 8"
    let ?k = "8 * (j - ?r) + c"
    have jc: "?r \<le> j" "j < ?r + ?n" "j < len" using True unfolding touched_def Let_def j_def by blast+
    have jx: "c < 8" "x = 8 * j + c" unfolding j_def c_def by simp_all
    have k: "?k + 8 * ?r = x" "?p = 8 * ?r + ?q" using jc(1) jx(2) by (simp_all add: diff_mult_distrib2)
    have "?n \<le> 4" using z(1) by simp
    then have "j - ?r < 4" using jc(1,2) by linarith
    then have k64: "?k < 64" using jx(1) by linarith
    have m: "bit ?m ?k \<longleftrightarrow> ?q \<le> ?k \<and> ?k < ?q + ?z" using bit_mask64 [OF z(1), of ?q ?k] k64 by simp
    have d: "bit ?d ?k \<longleftrightarrow> ?q \<le> ?k \<and> bit v (?k - ?q)" using k64 by (auto simp: bit_simps dest: bit_imp_le_length)
    have "report_bit ?b x \<longleftrightarrow> report_bit b x \<and> \<not> bit ?m ?k \<or> bit ?d ?k"
      using jc jx(1) k64 by (simp add: report_bit_def put_range_def bit_and_iff bit_or_iff bit_unsigned_iff bit_not_iff bit_drop_bit_eq flip: j_def c_def)
    moreover have "?q \<le> ?k \<longleftrightarrow> ?p \<le> x" "?k < ?q + ?z \<longleftrightarrow> x < ?p + ?z" "?k - ?q = x - ?p"
      using k by linarith+
    ultimately show ?thesis unfolding m d using True by (auto simp: not_less)
  next
    case False
    then show ?thesis by (auto simp: report_bit_def put_range_def touched_def Let_def)
  qed
  then show ?thesis using put by (intro exI [of _ ?b]) simp
qed

lemma get_field:
  assumes len: "len \<le> blen b"
  shows "\<exists>v. hid_get_data_unsigned b len l = Some v \<and>
    (\<forall>k. bit v k \<longleftrightarrow> k < fsize l \<and> touched len l (unat (l_pos l) + k) \<and> report_bit b (unat (l_pos l) + k))"
proof (cases "unat (l_size l) = 0")
  case True
  then show ?thesis by (simp add: hid_get_data_unsigned_def hid_get_data_sub_def fsize_def)
next
  case False
  let ?p = "unat (l_pos l)" and ?z = "fsize l"
  let ?q = "?p mod 8" and ?r = "?p div 8" and ?n = "(?z + 7) div 8"
  have z: "?z \<le> 32" "(if 32 < unat (l_size l) then 32 else unat (l_size l)) = ?z" by (auto simp: fsize_def)
  obtain d where d: "hid_get_bytes ?n ?r len b 0 = Some d"
    "\<forall>k<32. bit d k \<longleftrightarrow> k div 8 < ?n \<and> ?r + k div 8 < len \<and> bit (bdat b (?r + k div 8)) (k mod 8)"
    using hid_get_bytes_eq [OF len, of ?n ?r 0] by auto
  let ?v = "drop_bit (32 - ?z) (push_bit (32 - ?z) (drop_bit ?q d))"
  have "hid_get_data_unsigned b len l = Some ?v"
    using False d(1) unfolding hid_get_data_unsigned_def hid_get_data_sub_def Let_def z(2) by simp
  moreover have "bit ?v k \<longleftrightarrow> k < ?z \<and> touched len l (?p + k) \<and> report_bit b (?p + k)" for k
  proof -
    have "bit ?v k \<longleftrightarrow> k < ?z \<and> bit d (k + ?q)"
      using z(1) by (auto simp: bit_simps add.commute dest: bit_imp_le_length)
    moreover have at: "(?p + k) div 8 = ?r + (k + ?q) div 8" "(?p + k) mod 8 = (k + ?q) mod 8"
    proof -
      have "?p + k = k + ?q + 8 * ?r" by simp
      then show "(?p + k) div 8 = ?r + (k + ?q) div 8" "(?p + k) mod 8 = (k + ?q) mod 8" by (metis div_mult_self2 add.commute zero_neq_numeral, metis mod_mult_self2)
    qed
    have t: "touched len l (?p + k) \<longleftrightarrow> (k + ?q) div 8 < ?n \<and> ?r + (k + ?q) div 8 < len"
      unfolding touched_def Let_def at by simp
    have lt: "k + ?q < 32" if "(k + ?q) div 8 < ?n"
    proof -
      have "?n \<le> 4" using z(1) by linarith
      then show ?thesis using that by linarith
    qed
    moreover have "bit d i \<Longrightarrow> i < 32" for i by (drule bit_imp_le_length) simp
    ultimately show ?thesis unfolding t report_bit_def at using d(2) by blast
  qed
  ultimately show ?thesis by blast
qed

section \<open>A small descriptor\<close>

text \<open>One relative 8-bit axis; the parser is run by the simplifier.\<close>

definition axis_desc :: buf where
  "axis_desc = \<lparr>blen = 10, bdat = (!) [0x05, 0x01, 0x09, 0x30, 0x75, 0x08, 0x95, 0x01, 0x81, 0x06]\<rparr>"

lemmas hid_eval = hid_get_item_def hid_top_def hid_reset_def get_c_def set_c_def nth_opt_def upd_opt_def hid_clear_local_def
  hid_step_def hid_prefix_def hid_get_byte_def ld_def hid_value_def hid_main_def hid_global_def hid_local_def hid_add_usage_def
  hid_ret_def hid_next_usage_def Let_def

lemma hid_loop_more: "h_p s \<noteq> h_end s \<Longrightarrow> hid_loop s = do {
       (a, s) \<leftarrow> hid_step s;
       case a of
         Ret r \<Rightarrow> Some (r, s)
       | Next \<Rightarrow> hid_loop s
       | Top \<Rightarrow> do {
           (r, s) \<leftarrow> hid_top s;
           case r of
             Some h \<Rightarrow> Some (Some h, s)
           | None \<Rightarrow> do { s \<leftarrow> hid_reset s; hid_loop s } } }"
  by (subst hid_loop.simps) simp

lemma hid_loop_end: "h_p s = h_end s \<Longrightarrow> hid_loop s = Some (None, s)"
  by (subst hid_loop.simps) simp

lemma axis_items:
  "\<exists>s h t u. hid_start_parse True axis_desc 10 (kind_arg hid_input) = Some s \<and> hid_get_item s = Some (Some h, t) \<and>
     hid_get_item t = Some (None, u) \<and> kind h = hid_input \<and> flags1 h = 6 \<and> usage h = 0x10030 \<and> report_ID h = 0 \<and>
     loc h = \<lparr>l_size = 8, l_count = 1, l_pos = 0\<rparr>"
  by (simp add: hid_start_parse_def zero_item_def hid_eval axis_desc_def kind_bit_def kind_arg_def hid_loop_more hid_loop_end)

section \<open>The resolution of an item\<close>

text \<open>
  The product in the numerator exceeds \<^verbatim>\<open>int64_t\<close> for a wide logical range in degrees with the exponent
  8; and the quotient is truncated, where the comment says that it is rounded up.
\<close>

lemma hid_resolution_overflows:
  "hid_item_resolution (zero_item\<lparr>unit1 := 0x14, unit_exponent := 8, logical_minimum := 0x80000000,
     logical_maximum := 0x7fffffff, physical_maximum := 360\<rparr>) = None"
  by (simp add: hid_item_resolution_def zero_item_def Let_def int64_ok_def hid_scale_def)

lemma hid_resolution_truncates:
  "hid_item_resolution (zero_item\<lparr>unit1 := 0x12, logical_maximum := 5, physical_maximum := 3\<rparr>) = Some 1"
  by (simp add: hid_item_resolution_def zero_item_def Let_def int64_ok_def hid_scale_def)

section \<open>Properties\<close>

text \<open>
  C10: the HID parser is total and safe. For every report descriptor, well formed or not, and every set
  of kinds, the calls of \<open>hid_get_item\<close> never leave the descriptor or one of the arrays of the parser, each
  of them ends, and they yield a finite sequence of items, at most 1025 for every byte.
\<close>

theorem hid_parse_total:
  assumes "len \<le> blen d"
  shows "\<exists>hs. yields (hid_start_parse mem d len k) hs \<and> length hs \<le> 1025 * len"
proof (cases "hid_start_parse mem d len k")
  case None
  then show ?thesis by (intro exI [of _ "[]"] conjI yields.stop [where d' = None]) (simp_all add: hid_next_def)
next
  case (Some s)
  have "hid_left s = 1025 * len" using Some by (auto simp: hid_start_parse_def hid_left_def split: if_splits)
  then show ?thesis using yields_total [OF start_inv [OF Some assms]] Some by simp
qed

theorem hid_parse_total_witness:
  "\<exists>hs. yields (hid_start_parse True \<lparr>blen = 5, bdat = (!) [0x05, 0x01, 0x09, 0x02, 0xa1]\<rparr> 5 1) hs \<and> length hs \<le> 5125"
  using hid_parse_total [of 5 "\<lparr>blen = 5, bdat = (!) [0x05, 0x01, 0x09, 0x02, 0xa1]\<rparr>" True 1] by simp

text \<open>
  C26: \<open>hid_locate\<close> returns location, flags and report ID of the item with the given index among those
  items of the descriptor that are of the given kind, not constant and of the given usage, and 0 when
  there are not that many.
\<close>

theorem hid_locate_spec:
  assumes "yields (hid_start_parse mem b len (kind_arg k)) hs"
  shows "hid_locate mem b len u k i = Some (let ms = filter (\<lambda>h. kind h = k \<and> flags1 h AND HIO_CONST = 0 \<and> usage h = u) hs
    in if unat i < length ms then Some (loc (ms ! unat i), flags1 (ms ! unat i), ucast (report_ID (ms ! unat i))) else None)"
  unfolding hid_locate_def by (rule locate_loop_spec [OF assms])

theorem hid_locate_spec_witness:
  "hid_locate True axis_desc 10 0x10030 hid_input 0 = Some (Some (\<lparr>l_size = 8, l_count = 1, l_pos = 0\<rparr>, 6, 0)) \<and>
   hid_locate True axis_desc 10 0x10031 hid_input 0 = Some None"
proof -
  obtain s h t u where h: "hid_start_parse True axis_desc 10 (kind_arg hid_input) = Some s" "hid_get_item s = Some (Some h, t)"
    "hid_get_item t = Some (None, u)" "kind h = hid_input" "flags1 h = 6" "usage h = 0x10030" "report_ID h = 0"
    "loc h = \<lparr>l_size = 8, l_count = 1, l_pos = 0\<rparr>"
    using axis_items by blast
  have "yields (Some t) []" using h(3) by (intro yields.stop [where d' = "Some u"]) (simp add: hid_next_Some)
  then have "yields (hid_start_parse True axis_desc 10 (kind_arg hid_input)) [h]"
    unfolding h(1) using h(2) by (intro yields.item [where d' = "Some t"]) (simp_all add: hid_next_Some)
  note y = hid_locate_spec [OF this]
  show ?thesis unfolding y using h(4-8) by simp
qed

text \<open>
  C27: \<open>hid_put_data_unsigned\<close> and \<open>hid_get_data_unsigned\<close> on every field and value, inside or outside the
  report. Reading back what has been stored gives the bits of the value that are below the (limited)
  size of the field and in the bytes the routines touch. Of the other bits of the report, only those
  behind the field in the touched bytes change, and only to 1, where the value has a bit beyond the
  size. In particular, when the field lies inside the report in as many bytes as its size needs and the value
  fits, the value is read back and no other bit changes; a field that straddles one byte more loses
  its upper bits.
\<close>

theorem hid_put_get:
  assumes "len \<le> blen b"
  shows "\<exists>b' w. hid_put_data_unsigned b len l v = Some b' \<and> hid_get_data_unsigned b' len l = Some w \<and>
    (\<forall>k. bit w k \<longleftrightarrow> k < fsize l \<and> touched len l (unat (l_pos l) + k) \<and> bit v k) \<and>
    (\<forall>x. x < unat (l_pos l) \<or> unat (l_pos l) + fsize l \<le> x \<longrightarrow>
       (report_bit b' x \<longleftrightarrow> report_bit b x \<or> touched len l x \<and> unat (l_pos l) \<le> x \<and> bit v (x - unat (l_pos l)))) \<and>
    (unat v < 2 ^ fsize l \<and> unat (l_pos l) mod 8 + fsize l \<le> 8 * ((fsize l + 7) div 8) \<and>
       unat (l_pos l) div 8 + (fsize l + 7) div 8 \<le> len \<longrightarrow>
     w = v \<and> (\<forall>x. x < unat (l_pos l) \<or> unat (l_pos l) + fsize l \<le> x \<longrightarrow> report_bit b' x = report_bit b x))"
proof -
  let ?p = "unat (l_pos l)" and ?z = "fsize l"
  obtain b' where b': "hid_put_data_unsigned b len l v = Some b'" "blen b' = blen b"
    "\<forall>x. report_bit b' x = (if touched len l x \<and> ?p \<le> x then bit v (x - ?p) \<or> ?p + ?z \<le> x \<and> report_bit b x else report_bit b x)"
    using put_field [OF assms] by blast
  obtain w where w: "hid_get_data_unsigned b' len l = Some w" "\<forall>k. bit w k \<longleftrightarrow> k < ?z \<and> touched len l (?p + k) \<and> report_bit b' (?p + k)"
    using get_field [of len b' l] assms b'(2) by auto
  have wv: "bit w k \<longleftrightarrow> k < ?z \<and> touched len l (?p + k) \<and> bit v k" for k using w(2) b'(3) by auto
  have out: "report_bit b' x \<longleftrightarrow> report_bit b x \<or> touched len l x \<and> ?p \<le> x \<and> bit v (x - ?p)" if "x < ?p \<or> ?p + ?z \<le> x" for x
    using b'(3) that by auto
  have "w = v \<and> (\<forall>x. x < ?p \<or> ?p + ?z \<le> x \<longrightarrow> report_bit b' x = report_bit b x)"
    if f: "unat v < 2 ^ ?z" "?p mod 8 + ?z \<le> 8 * ((?z + 7) div 8)" "?p div 8 + (?z + 7) div 8 \<le> len"
  proof
    have "take_bit ?z v = v" using f(1) by (simp add: word_unat_eq_iff unsigned_take_bit_eq take_bit_nat_eq_self)
    then have vb: "bit v k \<Longrightarrow> k < ?z" for k by (metis bit_take_bit_iff)
    have "touched len l (?p + k)" if "k < ?z" for k
    proof -
      have "?p + k < (?p div 8 + (?z + 7) div 8) * 8" by (rule field_end [OF _ f(2) that]) simp
      then have "(?p + k) div 8 < ?p div 8 + (?z + 7) div 8" by (rule less_mult_imp_div_less)
      then show ?thesis using f(3) div_le_mono [of ?p "?p + k" 8] by (simp add: touched_def)
    qed
    then show "w = v" using wv vb by (intro bit_eqI) blast
    have "\<not> (?p \<le> x \<and> bit v (x - ?p))" if "x < ?p \<or> ?p + ?z \<le> x" for x using that vb [of "x - ?p"] by auto
    then show "\<forall>x. x < ?p \<or> ?p + ?z \<le> x \<longrightarrow> report_bit b' x = report_bit b x" using out by blast
  qed
  then show ?thesis using b'(1) w(1) wv out by blast
qed

theorem hid_put_get_witness:
  "\<exists>b'. hid_put_data_unsigned \<lparr>blen = 4, bdat = \<lambda>_. 0xff\<rparr> 4 \<lparr>l_size = 12, l_count = 1, l_pos = 12\<rparr> 0x5a5 = Some b' \<and>
     hid_get_data_unsigned b' 4 \<lparr>l_size = 12, l_count = 1, l_pos = 12\<rparr> = Some 0x5a5 \<and> report_bit b' 24"
proof -
  have "fsize \<lparr>l_size = 12, l_count = 1, l_pos = 12\<rparr> = 12" by (simp add: fsize_def)
  then show ?thesis
    using hid_put_get [of 4 "\<lparr>blen = 4, bdat = \<lambda>_. 0xff\<rparr>" "\<lparr>l_size = 12, l_count = 1, l_pos = 12\<rparr>" "0x5a5"]
    by (auto simp: report_bit_def)
qed

text \<open>
  A field that needs one byte more than its size, because it does not start at a byte boundary, is
  cut off. The eight bits at position 4 lie in two bytes, but only the first of them is written and
  read: of the value 0xff the upper four bits are lost.
\<close>

lemma hid_unaligned_field_truncated:
  "\<exists>b'. hid_put_data_unsigned \<lparr>blen = 2, bdat = \<lambda>_. 0\<rparr> 2 \<lparr>l_size = 8, l_count = 1, l_pos = 4\<rparr> 0xff = Some b' \<and>
     bdat b' 0 = 0xf0 \<and> bdat b' 1 = 0 \<and>
     hid_get_data_unsigned b' 2 \<lparr>l_size = 8, l_count = 1, l_pos = 4\<rparr> = Some 0x0f"
  by (simp add: hid_put_data_unsigned_def hid_get_data_unsigned_def hid_get_data_sub_def Let_def ld_def st_def)

end
