(* ===== verification/Sha256.thy ===== *)
theory Sha256
  imports Prelude
begin

text \<open>
  sha256c.c: SHA-256 with the incremental interface of the kernel.

  A byte string is a list of bytes, the arrays \<^verbatim>\<open>W\<close>, \<^verbatim>\<open>S\<close> and \<^verbatim>\<open>state\<close> are lists of 32-bit words. The macros
  are definitions of the same name; \<^verbatim>\<open>RNDr\<close> keeps the rotating indices of the code. \<^verbatim>\<open>be32dec\<close>, \<^verbatim>\<open>be32enc\<close>
  and \<^verbatim>\<open>be64enc\<close> are those of \<^verbatim>\<open>sys/endian.h\<close>. \<^verbatim>\<open>size_t\<close> has 64 bits: with 32 bits \<^verbatim>\<open>len << 3\<close> would lose the
  upper bits of the length of a piece of 512 MiB or more. The specification at the end is that of
  FIPS 180-4 on whole messages.
\<close>

section \<open>Encoding\<close>

definition be32dec :: "byte list \<Rightarrow> u32" where
  "be32dec p = push_bit 24 (ucast (p ! 0)) OR push_bit 16 (ucast (p ! 1)) OR push_bit 8 (ucast (p ! 2)) OR ucast (p ! 3)"

definition be32enc :: "u32 \<Rightarrow> byte list" where
  "be32enc u = [ucast (drop_bit 24 u), ucast (drop_bit 16 u), ucast (drop_bit 8 u), ucast u]"

definition be64enc :: "u64 \<Rightarrow> byte list" where
  "be64enc u = be32enc (ucast (drop_bit 32 u)) @ be32enc (ucast u)"

definition be32dec_vect :: "byte list \<Rightarrow> nat \<Rightarrow> u32 list" where
  "be32dec_vect src len = map (\<lambda>i. be32dec (drop (i * 4) src)) [0..<len div 4]"

definition be32enc_vect :: "u32 list \<Rightarrow> nat \<Rightarrow> byte list" where
  "be32enc_vect src len = concat (map (\<lambda>i. be32enc (src ! i)) [0..<len div 4])"

section \<open>The compression function\<close>

text \<open>The round constants, a row of the list for a line of the table.\<close>

definition K :: "u32 list" where
  "K = concat [
     [0x428a2f98, 0x71374491, 0xb5c0fbcf, 0xe9b5dba5],
     [0x3956c25b, 0x59f111f1, 0x923f82a4, 0xab1c5ed5],
     [0xd807aa98, 0x12835b01, 0x243185be, 0x550c7dc3],
     [0x72be5d74, 0x80deb1fe, 0x9bdc06a7, 0xc19bf174],
     [0xe49b69c1, 0xefbe4786, 0x0fc19dc6, 0x240ca1cc],
     [0x2de92c6f, 0x4a7484aa, 0x5cb0a9dc, 0x76f988da],
     [0x983e5152, 0xa831c66d, 0xb00327c8, 0xbf597fc7],
     [0xc6e00bf3, 0xd5a79147, 0x06ca6351, 0x14292967],
     [0x27b70a85, 0x2e1b2138, 0x4d2c6dfc, 0x53380d13],
     [0x650a7354, 0x766a0abb, 0x81c2c92e, 0x92722c85],
     [0xa2bfe8a1, 0xa81a664b, 0xc24b8b70, 0xc76c51a3],
     [0xd192e819, 0xd6990624, 0xf40e3585, 0x106aa070],
     [0x19a4c116, 0x1e376c08, 0x2748774c, 0x34b0bcb5],
     [0x391c0cb3, 0x4ed8aa4a, 0x5b9cca4f, 0x682e6ff3],
     [0x748f82ee, 0x78a5636f, 0x84c87814, 0x8cc70208],
     [0x90befffa, 0xa4506ceb, 0xbef9a3f7, 0xc67178f2]]"

definition Ch :: "u32 \<Rightarrow> u32 \<Rightarrow> u32 \<Rightarrow> u32" where
  "Ch x y z = (x AND (y XOR z)) XOR z"

definition Maj :: "u32 \<Rightarrow> u32 \<Rightarrow> u32 \<Rightarrow> u32" where
  "Maj x y z = (x AND (y OR z)) OR (y AND z)"

definition ROTR :: "u32 \<Rightarrow> nat \<Rightarrow> u32" where
  "ROTR x n = drop_bit n x OR push_bit (32 - n) x"

definition S0 :: "u32 \<Rightarrow> u32" where
  "S0 x = ROTR x 2 XOR ROTR x 13 XOR ROTR x 22"

definition S1 :: "u32 \<Rightarrow> u32" where
  "S1 x = ROTR x 6 XOR ROTR x 11 XOR ROTR x 25"

definition s0 :: "u32 \<Rightarrow> u32" where
  "s0 x = ROTR x 7 XOR ROTR x 18 XOR drop_bit 3 x"

definition s1 :: "u32 \<Rightarrow> u32" where
  "s1 x = ROTR x 17 XOR ROTR x 19 XOR drop_bit 10 x"

text \<open>\<^verbatim>\<open>RND\<close>: the new values of \<^verbatim>\<open>d\<close> and \<^verbatim>\<open>h\<close>.\<close>

definition RND :: "u32 \<Rightarrow> u32 \<Rightarrow> u32 \<Rightarrow> u32 \<Rightarrow> u32 \<Rightarrow> u32 \<Rightarrow> u32 \<Rightarrow> u32 \<Rightarrow> u32 \<Rightarrow> u32 \<times> u32" where
  "RND a b c d e f g h k =
    (let h = h + (S1 e + Ch e f g + k);
         d = d + h;
         h = h + (S0 a + Maj a b c)
     in (d, h))"

definition RNDr :: "u32 list \<Rightarrow> u32 list \<Rightarrow> nat \<Rightarrow> nat \<Rightarrow> u32 list" where
  "RNDr S W i ii =
    (case RND (S ! ((64 - i) mod 8)) (S ! ((65 - i) mod 8)) (S ! ((66 - i) mod 8)) (S ! ((67 - i) mod 8))
              (S ! ((68 - i) mod 8)) (S ! ((69 - i) mod 8)) (S ! ((70 - i) mod 8)) (S ! ((71 - i) mod 8))
              (W ! (i + ii) + K ! (i + ii)) of
       (d, h) \<Rightarrow> S[(67 - i) mod 8 := d, (71 - i) mod 8 := h])"

definition MSCH :: "nat \<Rightarrow> nat \<Rightarrow> u32 list \<Rightarrow> u32 list" where
  "MSCH ii i W = W[i + ii + 16 := s1 (W ! (i + ii + 14)) + W ! (i + ii + 9) + s0 (W ! (i + ii + 1)) + W ! (i + ii)]"

text \<open>One round of the loop with step 16: sixteen rounds, then sixteen words of the schedule.\<close>

definition mix16 :: "nat \<Rightarrow> u32 list \<times> u32 list \<Rightarrow> u32 list \<times> u32 list" where
  "mix16 i SW =
    (let W = snd SW; S = fold (\<lambda>j S. RNDr S W j i) [0..<16] (fst SW)
     in if i = 48 then (S, W) else (S, fold (\<lambda>j W. MSCH j i W) [0..<16] W))"

text \<open>The words of \<^verbatim>\<open>W\<close> behind the block are not initialised: \<open>junk\<close>.\<close>

definition SHA256_Transform :: "u32 list \<Rightarrow> u32 list \<Rightarrow> byte list \<Rightarrow> u32 list" where
  "SHA256_Transform junk state block =
    (let W = be32dec_vect block 64 @ junk;
         S = fst (fold mix16 [0, 16, 32, 48] (state, W))
     in map (\<lambda>i. state ! i + S ! i) [0..<8])"

section \<open>Contexts\<close>

record SHA256_CTX =
  sha_state :: "u32 list"
  count :: u64
  sha_buf :: "byte list"

definition PAD :: "byte list" where
  "PAD = 0x80 # replicate 63 0"

text \<open>\<^verbatim>\<open>memcpy(&buf[r], src, n)\<close>\<close>

definition buf_copy :: "byte list \<Rightarrow> nat \<Rightarrow> byte list \<Rightarrow> nat \<Rightarrow> byte list" where
  "buf_copy b r src n = take r b @ take n src @ drop (r + n) b"

definition buffered :: "u64 \<Rightarrow> nat" where
  "buffered c = unat (drop_bit 3 c AND 0x3f)"

definition SHA256_Pad :: "u32 list \<Rightarrow> SHA256_CTX \<Rightarrow> SHA256_CTX" where
  "SHA256_Pad junk ctx =
    (let r = buffered (count ctx);
         ctx = (if r < 56 then ctx\<lparr>sha_buf := buf_copy (sha_buf ctx) r PAD (56 - r)\<rparr>
                else let b = buf_copy (sha_buf ctx) r PAD (64 - r)
                     in ctx\<lparr>sha_state := SHA256_Transform junk (sha_state ctx) b,
                            sha_buf := buf_copy b 0 (replicate 56 0) 56\<rparr>);
         b = buf_copy (sha_buf ctx) 56 (be64enc (count ctx)) 8
     in ctx\<lparr>sha_buf := b, sha_state := SHA256_Transform junk (sha_state ctx) b\<rparr>)"

definition SHA256_Init :: "SHA256_CTX \<Rightarrow> SHA256_CTX" where
  "SHA256_Init ctx = ctx\<lparr>count := 0, sha_state := [0x6A09E667, 0xBB67AE85, 0x3C6EF372, 0xA54FF53A,
     0x510E527F, 0x9B05688C, 0x1F83D9AB, 0x5BE0CD19]\<rparr>"

text \<open>\<^verbatim>\<open>while (len >= 64)\<close>: the state and what is left of the input.\<close>

function sha_blocks :: "u32 list \<Rightarrow> u32 list \<Rightarrow> byte list \<Rightarrow> u32 list \<times> byte list" where
  "sha_blocks junk state src =
    (if length src \<ge> 64 then sha_blocks junk (SHA256_Transform junk state (take 64 src)) (drop 64 src)
     else (state, src))"
  by pat_completeness auto
termination
  by (relation "measure (\<lambda>(j, s, src). length src)") auto

declare sha_blocks.simps [simp del]

definition SHA256_Update :: "u32 list \<Rightarrow> byte list \<Rightarrow> SHA256_CTX \<Rightarrow> SHA256_CTX" where
  "SHA256_Update junk src ctx =
    (let r = buffered (count ctx);
         ctx = ctx\<lparr>count := count ctx + push_bit 3 (of_nat (length src))\<rparr>
     in if length src < 64 - r then ctx\<lparr>sha_buf := buf_copy (sha_buf ctx) r src (length src)\<rparr>
        else let b = buf_copy (sha_buf ctx) r src (64 - r);
                 (st, rest) = sha_blocks junk (SHA256_Transform junk (sha_state ctx) b) (drop (64 - r) src)
             in ctx\<lparr>sha_state := st, sha_buf := buf_copy b 0 rest (length rest)\<rparr>)"

text \<open>The digest and the cleared context.\<close>

definition SHA256_Final :: "u32 list \<Rightarrow> SHA256_CTX \<Rightarrow> byte list \<times> SHA256_CTX" where
  "SHA256_Final junk ctx =
    (let ctx = SHA256_Pad junk ctx
     in (be32enc_vect (sha_state ctx) 32,
         \<lparr>sha_state = replicate 8 0, count = 0, sha_buf = replicate 64 0\<rparr>))"

section \<open>FIPS 180-4\<close>

definition fips_Ch :: "u32 \<Rightarrow> u32 \<Rightarrow> u32 \<Rightarrow> u32" where
  "fips_Ch x y z = (x AND y) XOR (NOT x AND z)"

definition fips_Maj :: "u32 \<Rightarrow> u32 \<Rightarrow> u32 \<Rightarrow> u32" where
  "fips_Maj x y z = (x AND y) XOR (x AND z) XOR (y AND z)"

definition fips_S0 :: "u32 \<Rightarrow> u32" where
  "fips_S0 x = word_rotr 2 x XOR word_rotr 13 x XOR word_rotr 22 x"

definition fips_S1 :: "u32 \<Rightarrow> u32" where
  "fips_S1 x = word_rotr 6 x XOR word_rotr 11 x XOR word_rotr 25 x"

definition fips_s0 :: "u32 \<Rightarrow> u32" where
  "fips_s0 x = word_rotr 7 x XOR word_rotr 18 x XOR drop_bit 3 x"

definition fips_s1 :: "u32 \<Rightarrow> u32" where
  "fips_s1 x = word_rotr 17 x XOR word_rotr 19 x XOR drop_bit 10 x"

text \<open>The message schedule (6.2.2, step 1).\<close>

fun fips_W :: "(nat \<Rightarrow> u32) \<Rightarrow> nat \<Rightarrow> u32" where
  "fips_W M t = (if t < 16 then M t
     else fips_s1 (fips_W M (t - 2)) + fips_W M (t - 7) + fips_s0 (fips_W M (t - 15)) + fips_W M (t - 16))"

declare fips_W.simps [simp del]

type_synonym vars = "u32 \<times> u32 \<times> u32 \<times> u32 \<times> u32 \<times> u32 \<times> u32 \<times> u32"

text \<open>One round (step 3).\<close>

definition fips_round :: "u32 \<Rightarrow> u32 \<Rightarrow> vars \<Rightarrow> vars" where
  "fips_round k w v = (case v of (a, b, c, d, e, f, g, h) \<Rightarrow>
     let T1 = h + fips_S1 e + fips_Ch e f g + k + w;
         T2 = fips_S0 a + fips_Maj a b c
     in (T1 + T2, a, b, c, d + T1, e, f, g))"

definition vars_of :: "u32 list \<Rightarrow> vars" where
  "vars_of H = (H ! 0, H ! 1, H ! 2, H ! 3, H ! 4, H ! 5, H ! 6, H ! 7)"

definition list_of :: "vars \<Rightarrow> u32 list" where
  "list_of v = (case v of (a, b, c, d, e, f, g, h) \<Rightarrow> [a, b, c, d, e, f, g, h])"

definition fips_compress :: "u32 list \<Rightarrow> byte list \<Rightarrow> u32 list" where
  "fips_compress H block =
    (let M = (\<lambda>t. be32dec (drop (t * 4) block));
         v = fold (\<lambda>t. fips_round (K ! t) (fips_W M t)) [0..<64] (vars_of H)
     in map2 (+) H (list_of v))"

text \<open>Padding (5.1.1), for messages of whole bytes.\<close>

definition fips_pad :: "byte list \<Rightarrow> byte list" where
  "fips_pad m = m @ 0x80 # replicate ((119 - length m mod 64) mod 64) 0 @ be64enc (of_nat (8 * length m))"

function blocks :: "byte list \<Rightarrow> byte list list" where
  "blocks m = (if length m < 64 then [] else take 64 m # blocks (drop 64 m))"
  by pat_completeness auto
termination
  by (relation "measure length") auto

declare blocks.simps [simp del]

definition H0 :: "u32 list" where
  "H0 = [0x6A09E667, 0xBB67AE85, 0x3C6EF372, 0xA54FF53A, 0x510E527F, 0x9B05688C, 0x1F83D9AB, 0x5BE0CD19]"

definition fips_sha256 :: "byte list \<Rightarrow> byte list" where
  "fips_sha256 m = concat (map be32enc (fold (\<lambda>b H. fips_compress H b) (blocks (fips_pad m)) H0))"

section \<open>The macros\<close>

lemma Ch_eq: "Ch x y z = fips_Ch x y z"
  by (rule bit_eqI) (auto simp: Ch_def fips_Ch_def bit_simps)

lemma Maj_eq: "Maj x y z = fips_Maj x y z"
  by (rule bit_eqI) (auto simp: Maj_def fips_Maj_def bit_simps)

lemma ROTR_eq:
  assumes "0 < n" "n < 32"
  shows "ROTR x n = word_rotr n x"
proof (rule bit_word_eqI)
  fix k assume "k < LENGTH(32)"
  then have k: "k < 32" by simp
  have "(k + n) mod 32 = (if k + n < 32 then k + n else k + n - 32)" using k assms by (simp add: mod_if)
  then show "bit (ROTR x n) k \<longleftrightarrow> bit (word_rotr n x) k"
    using k assms by (auto simp: ROTR_def bit_simps bit_word_rotr_iff add.commute dest: bit_imp_le_length)
qed

lemma sigma_eq: "S0 x = fips_S0 x" "S1 x = fips_S1 x" "s0 x = fips_s0 x" "s1 x = fips_s1 x"
  by (simp_all add: S0_def S1_def s0_def s1_def fips_S0_def fips_S1_def fips_s0_def fips_s1_def ROTR_eq)

end
