(* ===== verification/Sha256_Laws.thy ===== *)
theory Sha256_Laws
  imports Sha256
begin

text \<open>
  The rounds with rotating indices and the schedule computed in place are those of FIPS 180-4, so
  \<open>SHA256_Transform\<close> is its compression function; the buffering of the incremental interface then gives
  the digest of the whole message.
\<close>

section \<open>The rounds\<close>

definition rot_view :: "u32 list \<Rightarrow> nat \<Rightarrow> vars" where
  "rot_view S i = (S ! ((64 - i) mod 8), S ! ((65 - i) mod 8), S ! ((66 - i) mod 8), S ! ((67 - i) mod 8),
     S ! ((68 - i) mod 8), S ! ((69 - i) mod 8), S ! ((70 - i) mod 8), S ! ((71 - i) mod 8))"

lemma RNDr_length [simp]: "length (RNDr S W i ii) = length S"
  by (simp add: RNDr_def split: prod.split)

lemma RND_fips:
  "RND a b c d e f g h (w + k) = (let T1 = h + fips_S1 e + fips_Ch e f g + k + w in (d + T1, T1 + (fips_S0 a + fips_Maj a b c)))"
  by (simp add: RND_def Let_def sigma_eq Ch_eq Maj_eq algebra_simps)

lemma RNDr_round:
  assumes "length S = 8" "i < 16"
  shows "rot_view (RNDr S W i ii) (Suc i) = fips_round (K ! (i + ii)) (W ! (i + ii)) (rot_view S i)"
proof -
  have u: "[0..<16] = 0 # 1 # [2..<16]" by (simp add: upt_conv_Cons)
  have "list_all (\<lambda>i. rot_view (RNDr S W i ii) (Suc i) = fips_round (K ! (i + ii)) (W ! (i + ii)) (rot_view S i)) [0..<16]"
    using assms(1) unfolding u by (simp add: rot_view_def RNDr_def RND_fips fips_round_def Let_def add.assoc)
  then show ?thesis using assms(2) by (simp only: list_all_iff set_upt atLeastLessThan_iff zero_le simp_thms)
qed

lemma rounds16:
  assumes "length S = 8" "n \<le> 16"
  shows "length (fold (\<lambda>j S. RNDr S W j ii) [0..<n] S) = 8 \<and>
    rot_view (fold (\<lambda>j S. RNDr S W j ii) [0..<n] S) n = fold (\<lambda>t. fips_round (K ! t) (W ! t)) [ii..<ii + n] (vars_of S)"
  using assms(2)
proof (induction n)
  case 0
  then show ?case using assms(1) by (simp add: rot_view_def vars_of_def)
next
  case (Suc n)
  then show ?case by (simp add: RNDr_round add.commute)
qed

lemma rot_view_16: "rot_view S 16 = vars_of S"
  by (simp add: rot_view_def vars_of_def)

lemma list_of_vars: "length S = 8 \<Longrightarrow> list_of (vars_of S) = S"
  by (auto simp: numeral_eq_Suc length_Suc_conv list_of_def vars_of_def)

section \<open>The message schedule\<close>

definition sched :: "(nat \<Rightarrow> u32) \<Rightarrow> nat \<Rightarrow> u32 list \<Rightarrow> bool" where
  "sched M n W \<longleftrightarrow> length W = 64 \<and> (\<forall>t<n. W ! t = fips_W M t)"

lemma MSCH_sched:
  assumes "sched M (i + ii + 16) W" "i + ii + 16 < 64"
  shows "sched M (Suc i + ii + 16) (MSCH i ii W)"
proof -
  have "fips_W M (ii + i + 16) = s1 (W ! (ii + i + 14)) + W ! (ii + i + 9) + s0 (W ! (ii + i + 1)) + W ! (ii + i)"
    using assms by (subst fips_W.simps) (simp add: sched_def sigma_eq add.commute)
  then show ?thesis using assms by (auto simp: sched_def MSCH_def nth_list_update less_Suc_eq ac_simps)
qed

lemma schedule16:
  assumes "sched M (ii + 16) W" "ii + 32 \<le> 64" "n \<le> 16"
  shows "sched M (n + ii + 16) (fold (\<lambda>j W. MSCH j ii W) [0..<n] W)"
  using assms(3)
proof (induction n)
  case 0
  then show ?case using assms(1) by simp
next
  case (Suc n)
  then show ?case using assms(2) MSCH_sched [of M n ii] by simp
qed

lemma mix16_ok:
  assumes "length S = 8" "sched M (ii + 16) W" "ii \<le> 48" "ii = 48 \<or> ii \<le> 32"
  shows "\<exists>S' W'. mix16 ii (S, W) = (S', W') \<and> length S' = 8 \<and> (ii < 48 \<longrightarrow> sched M (ii + 32) W') \<and>
    vars_of S' = fold (\<lambda>t. fips_round (K ! t) (fips_W M t)) [ii..<ii + 16] (vars_of S)"
proof -
  let ?S = "fold (\<lambda>j S. RNDr S W j ii) [0..<16] S"
  have 1: "length ?S = 8" "rot_view ?S 16 = fold (\<lambda>t. fips_round (K ! t) (W ! t)) [ii..<ii + 16] (vars_of S)"
    using rounds16 [OF assms(1), of 16] by auto
  have 2: "fold (\<lambda>t. fips_round (K ! t) (W ! t)) [ii..<ii + 16] v = fold (\<lambda>t. fips_round (K ! t) (fips_W M t)) [ii..<ii + 16] v" for v
    using assms(2) by (intro fold_cong) (auto simp: sched_def)
  have 3: "sched M (ii + 32) (fold (\<lambda>j W. MSCH j ii W) [0..<16] W)" if "ii < 48"
    using schedule16 [OF assms(2), of 16] assms(4) that by (simp add: add.commute)
  show ?thesis using 1 2 3 by (auto simp: mix16_def Let_def rot_view_16 simp del: fold_simps upt_rec_numeral)
qed

lemma fold_split: "i \<le> j \<Longrightarrow> j \<le> k \<Longrightarrow> fold f [j..<k] (fold f [i..<j] x) = fold f [i..<k] x"
  using upt_add_eq_append [of i j "k - j"] by simp

theorem Transform_fips:
  assumes "length junk = 48" "length state = 8"
  shows "SHA256_Transform junk state block = fips_compress state block"
proof -
  let ?M = "\<lambda>t. be32dec (drop (t * 4) block)" and ?f = "\<lambda>t. fips_round (K ! t) (fips_W (\<lambda>t. be32dec (drop (t * 4) block)) t)"
  let ?W = "be32dec_vect block 64 @ junk"
  have 0: "sched ?M (0 + 16) ?W"
    using assms(1) by (auto simp: sched_def be32dec_vect_def nth_append fips_W.simps simp del: upt_rec_numeral)
  obtain S1 W1 where 1: "mix16 0 (state, ?W) = (S1, W1)" "length S1 = 8" "sched ?M (16 + 16) W1"
    "vars_of S1 = fold ?f [0..<16] (vars_of state)" using mix16_ok [OF assms(2) 0] by auto
  obtain S2 W2 where 2: "mix16 16 (S1, W1) = (S2, W2)" "length S2 = 8" "sched ?M (32 + 16) W2"
    "vars_of S2 = fold ?f [16..<32] (vars_of S1)" using mix16_ok [OF 1(2,3)] by auto
  obtain S3 W3 where 3: "mix16 32 (S2, W2) = (S3, W3)" "length S3 = 8" "sched ?M (48 + 16) W3"
    "vars_of S3 = fold ?f [32..<48] (vars_of S2)" using mix16_ok [OF 2(2,3)] by auto
  obtain S4 W4 where 4: "mix16 48 (S3, W3) = (S4, W4)" "length S4 = 8"
    "vars_of S4 = fold ?f [48..<64] (vars_of S3)" using mix16_ok [OF 3(2,3)] by auto
  have v: "vars_of S4 = fold ?f [0..<64] (vars_of state)"
    unfolding 4(3) 3(4) 2(4) 1(4)
    using fold_split [of 0 16 32 ?f "vars_of state"] fold_split [of 0 32 48 ?f "vars_of state"] fold_split [of 0 48 64 ?f "vars_of state"]
    by (simp del: upt_rec_numeral fold_simps)
  have "SHA256_Transform junk state block = map (\<lambda>i. state ! i + S4 ! i) [0..<8]"
    using 1(1) 2(1) 3(1) 4(1) by (simp add: SHA256_Transform_def Let_def del: upt_rec_numeral)
  also have "\<dots> = map2 (+) state S4" using assms(2) 4(2) by (intro nth_equalityI) (auto simp del: upt_rec_numeral)
  finally show ?thesis unfolding fips_compress_def Let_def v [symmetric] by (simp add: list_of_vars 4(2))
qed

section \<open>Messages in pieces\<close>

lemma be32enc_length [simp]: "length (be32enc u) = 4" by (simp add: be32enc_def)

lemma be64enc_length [simp]: "length (be64enc u) = 8" by (simp add: be64enc_def)

lemma fips_compress_length: "length H = 8 \<Longrightarrow> length (fips_compress H b) = 8"
  by (simp add: fips_compress_def Let_def list_of_def split: prod.split)

abbreviation compress_all :: "byte list list \<Rightarrow> u32 list \<Rightarrow> u32 list" where
  "compress_all bs H \<equiv> fold (\<lambda>b H. fips_compress H b) bs H"

lemma compress_all_length: "length H = 8 \<Longrightarrow> length (compress_all bs H) = 8"
  by (induction bs arbitrary: H) (simp_all add: fips_compress_length)

lemma blocks_short: "length m < 64 \<Longrightarrow> blocks m = []"
  by (simp add: blocks.simps)

lemma blocks_append: "64 dvd length a \<Longrightarrow> blocks (a @ b) = blocks a @ blocks b"
proof (induction a rule: blocks.induct)
  case (1 a)
  show ?case
  proof (cases "length a < 64")
    case True
    then have "a = []" using 1(2) by (auto dest: dvd_imp_le)
    then show ?thesis by (simp add: blocks_short)
  next
    case False
    then have "blocks (drop 64 a @ b) = blocks (drop 64 a) @ blocks b" using 1 by (simp add: dvd_diff_nat)
    then show ?thesis using False by (subst (1 2) blocks.simps) simp
  qed
qed

lemma blocks_one: "length b = 64 \<Longrightarrow> blocks b = [b]"
  by (simp add: blocks.simps blocks_short)

lemma buf_copy_at: "length b = 64 \<Longrightarrow> r + n \<le> 64 \<Longrightarrow> n \<le> length src \<Longrightarrow> length (buf_copy b r src n) = 64"
  by (simp add: buf_copy_def)

lemma buffered_count: "buffered (of_nat (8 * n)) = n mod 64"
proof -
  have m: "drop_bit 3 c AND 0x3f = c div 8 mod 64" for c :: u64
    using take_bit_eq_mask [of 6 "drop_bit 3 c"] by (simp add: mask_eq_exp_minus_1 take_bit_eq_mod drop_bit_eq_div)
  have "buffered (of_nat (8 * n)) = (8 * n) mod 2 ^ 64 div 8 mod 64"
    unfolding buffered_def m unat_mod_distrib unat_div_distrib unat_of_nat by simp
  also have "(8 * n) mod 2 ^ 64 = 8 * (n mod 2 ^ 61)" using mult_mod_right [of 8 n "2 ^ 61"] by simp
  finally show ?thesis by (simp add: mod_mod_cancel)
qed

text \<open>The context holds the message \<open>m\<close>: whole blocks in the state, the rest in the buffer.\<close>

definition holds :: "byte list \<Rightarrow> byte list \<Rightarrow> SHA256_CTX \<Rightarrow> bool" where
  "holds a p ctx \<longleftrightarrow> 64 dvd length a \<and> length p < 64 \<and> sha_state ctx = compress_all (blocks a) H0 \<and>
     count ctx = of_nat (8 * length (a @ p)) \<and> length (sha_buf ctx) = 64 \<and> take (length p) (sha_buf ctx) = p"

lemma holds_buffered: "holds a p ctx \<Longrightarrow> buffered (count ctx) = length p"
  unfolding holds_def by (elim conjE) (simp only: buffered_count, auto simp: mod_add_eq elim: dvdE)

lemma H0_length [simp]: "length H0 = 8" by (simp add: H0_def)

lemma holds_state: "holds a p ctx \<Longrightarrow> length (sha_state ctx) = 8"
  by (simp add: holds_def compress_all_length)

lemma holds_init: "length (sha_buf ctx) = 64 \<Longrightarrow> holds [] [] (SHA256_Init ctx)"
  by (simp add: holds_def SHA256_Init_def blocks_short H0_def)

lemma sha_blocks_ok:
  assumes "length junk = 48" "length u = 8"
  shows "\<exists>z rest. src = z @ rest \<and> 64 dvd length z \<and> length rest < 64 \<and>
    sha_blocks junk u src = (compress_all (blocks z) u, rest)"
  using assms
proof (induction junk u src rule: sha_blocks.induct)
  case (1 junk u src)
  show ?case
  proof (cases "length src \<ge> 64")
    case True
    let ?u = "SHA256_Transform junk u (take 64 src)"
    have t: "?u = fips_compress u (take 64 src)" using Transform_fips 1(2,3) by blast
    then have "length ?u = 8" using fips_compress_length 1(3) by simp
    then obtain z rest where z: "drop 64 src = z @ rest" "64 dvd length z" "length rest < 64"
      "sha_blocks junk ?u (drop 64 src) = (compress_all (blocks z) ?u, rest)" using 1(1) [OF True 1(2)] by blast
    have "src = (take 64 src @ z) @ rest" using z(1) by (metis append_assoc append_take_drop_id)
    moreover have "blocks (take 64 src @ z) = take 64 src # blocks z" using True by (simp add: blocks_append blocks_one)
    ultimately show ?thesis using True z t
      by (intro exI [of _ "take 64 src @ z"] exI [of _ rest]) (simp add: sha_blocks.simps [of junk u src])
  next
    case False
    then show ?thesis by (intro exI [of _ "[]"] exI [of _ src]) (simp add: blocks_short sha_blocks.simps)
  qed
qed

lemma holds_count: "count ctx = of_nat (8 * n) \<Longrightarrow> count ctx + push_bit 3 (of_nat k) = of_nat (8 * (n + k))"
  by (simp add: push_bit_eq_mult algebra_simps)

lemma holds_update:
  assumes h: "holds a p ctx" and j: "length junk = 48"
  shows "\<exists>a' p'. a @ p @ src = a' @ p' \<and> holds a' p' (SHA256_Update junk src ctx)"
proof -
  note hs = h [unfolded holds_def]
  have c: "count ctx + push_bit 3 (of_nat (length src)) = of_nat (8 * length (a @ p @ src))"
    using holds_count [of ctx "length (a @ p)" "length src"] hs by (simp add: add.assoc)
  show ?thesis
  proof (cases "length src < 64 - length p")
    case True
    then have "SHA256_Update junk src ctx = ctx\<lparr>count := of_nat (8 * length (a @ p @ src)), sha_buf := buf_copy (sha_buf ctx) (length p) src (length src)\<rparr>"
      by (simp add: SHA256_Update_def Let_def holds_buffered [OF h] c del: length_append)
    moreover have "length (p @ src) < 64" using True by simp
    ultimately show ?thesis using hs by (intro exI [of _ a] exI [of _ "p @ src"]) (simp add: holds_def buf_copy_def)
  next
    case False
    let ?n = "64 - length p" and ?b = "p @ take (64 - length p) src"
    have b: "buf_copy (sha_buf ctx) (length p) src ?n = ?b" "length ?b = 64" using hs False by (simp_all add: buf_copy_def)
    let ?u = "SHA256_Transform junk (sha_state ctx) ?b"
    have t: "?u = fips_compress (sha_state ctx) ?b" using Transform_fips j holds_state [OF h] by blast
    then have "length ?u = 8" using fips_compress_length holds_state [OF h] by simp
    then obtain z rest where z: "drop ?n src = z @ rest" "64 dvd length z" "length rest < 64"
      "sha_blocks junk ?u (drop ?n src) = (compress_all (blocks z) ?u, rest)" using sha_blocks_ok [OF j] by blast
    have u: "SHA256_Update junk src ctx = ctx\<lparr>count := of_nat (8 * length (a @ p @ src)), sha_state := compress_all (blocks z) ?u, sha_buf := buf_copy ?b 0 rest (length rest)\<rparr>"
      using False z(4) b(1) by (simp add: SHA256_Update_def Let_def holds_buffered [OF h] c del: length_append)
    have e: "a @ p @ src = (a @ ?b @ z) @ rest" using z(1) by (metis append_assoc append_take_drop_id)
    have "blocks (a @ ?b @ z) = blocks a @ ?b # blocks z" using hs b(2) by (simp add: blocks_append blocks_one del: append_assoc)
    then have "holds (a @ ?b @ z) rest (SHA256_Update junk src ctx)" unfolding u
      using hs z b(2) t e by (simp add: holds_def buf_copy_def del: append_assoc)
    then show ?thesis using e by blast
  qed
qed

lemma holds_updates:
  assumes "holds a p ctx" "length junk = 48"
  shows "\<exists>a' p'. a @ p @ concat cs = a' @ p' \<and> holds a' p' (fold (SHA256_Update junk) cs ctx)"
  using assms
proof (induction cs arbitrary: a p ctx)
  case (Cons x cs)
  obtain a1 p1 where 1: "a @ p @ x = a1 @ p1" "holds a1 p1 (SHA256_Update junk x ctx)" using holds_update [OF Cons(2,3)] by blast
  then show ?case using Cons(1) [OF 1(2) Cons(3)] by (metis append_assoc concat.simps(2) fold_simps(2))
qed auto

lemma take_PAD: "0 < n \<Longrightarrow> n \<le> 64 \<Longrightarrow> take n PAD = 0x80 # replicate (n - 1) 0"
  by (cases n) (simp_all add: PAD_def min_def)

lemma pad_short:
  assumes "64 dvd length a" "length p < 56"
  shows "blocks (fips_pad (a @ p)) = blocks a @ [p @ 0x80 # replicate (55 - length p) 0 @ be64enc (of_nat (8 * length (a @ p)))]"
proof -
  have "length (a @ p) mod 64 = length p" using assms by (auto elim: dvdE)
  moreover have "(119 - length p) mod 64 = 55 - length p" using assms(2) by (simp add: mod_if)
  ultimately show ?thesis using assms unfolding fips_pad_def by (simp add: blocks_append blocks_one)
qed

lemma pad_long:
  assumes "64 dvd length a" "56 \<le> length p" "length p < 64"
  shows "blocks (fips_pad (a @ p)) = blocks a @ [p @ 0x80 # replicate (63 - length p) 0, replicate 56 0 @ be64enc (of_nat (8 * length (a @ p)))]"
proof -
  have 1: "length (a @ p) mod 64 = length p" using assms by (auto elim: dvdE)
  have 2: "(119 - length p) mod 64 = (63 - length p) + 56" using assms(2,3) by (simp add: mod_if)
  have "fips_pad (a @ p) = a @ (p @ 0x80 # replicate (63 - length p) 0) @ (replicate 56 0 @ be64enc (of_nat (8 * length (a @ p))))"
    unfolding fips_pad_def 1 2 replicate_add by simp
  then show ?thesis using assms by (simp add: blocks_append blocks_one del: append_assoc)
qed

lemma holds_pad:
  assumes h: "holds a p ctx" and j: "length junk = 48"
  shows "sha_state (SHA256_Pad junk ctx) = compress_all (blocks (fips_pad (a @ p))) H0"
proof -
  note hs = h [unfolded holds_def]
  have T: "SHA256_Transform junk (sha_state ctx) b = fips_compress (sha_state ctx) b"
    "SHA256_Transform junk (fips_compress (sha_state ctx) c) b = fips_compress (fips_compress (sha_state ctx) c) b" for b c
    using Transform_fips [OF j] holds_state [OF h] fips_compress_length by auto
  have b: "length (sha_buf ctx) = 64" "take (length p) (sha_buf ctx) = p" "length p < 64" using hs by simp_all
  show ?thesis
  proof (cases "length p < 56")
    case True
    then have "sha_state (SHA256_Pad junk ctx) = fips_compress (sha_state ctx) (p @ 0x80 # replicate (55 - length p) 0 @ be64enc (count ctx))"
      using b by (simp add: SHA256_Pad_def Let_def holds_buffered [OF h] buf_copy_def take_PAD take_Cons' T)
    then show ?thesis using hs True by (simp add: pad_short del: length_append)
  next
    case False
    then have "sha_state (SHA256_Pad junk ctx) = fips_compress (fips_compress (sha_state ctx)
        (p @ 0x80 # replicate (63 - length p) 0)) (replicate 56 0 @ be64enc (count ctx))"
      using b by (simp add: SHA256_Pad_def Let_def holds_buffered [OF h] buf_copy_def take_PAD take_Cons' T)
    then show ?thesis using hs False by (simp add: pad_long del: length_append)
  qed
qed

lemma enc_vect: "length xs = 8 \<Longrightarrow> be32enc_vect xs 32 = concat (map be32enc xs)"
  using arg_cong [OF map_nth [of xs], of "map be32enc"] by (simp add: be32enc_vect_def comp_def del: upt_rec_numeral map_nth)

text \<open>The test vector \<^verbatim>\<open>abc\<close>, in two pieces.\<close>

lemma sha_abc: "fst (SHA256_Final (replicate 48 0) (fold (SHA256_Update (replicate 48 0)) [[0x61], [0x62, 0x63]] (SHA256_Init
  \<lparr>sha_state = [], count = 0, sha_buf = replicate 64 0\<rparr>))) =
  [0xba, 0x78, 0x16, 0xbf, 0x8f, 0x01, 0xcf, 0xea, 0x41, 0x41, 0x40, 0xde, 0x5d, 0xae, 0x22, 0x23,
   0xb0, 0x03, 0x61, 0xa3, 0x96, 0x17, 0x7a, 0x9c, 0xb4, 0x10, 0xff, 0x61, 0xf2, 0x00, 0x15, 0xad]"
  by code_simp

text \<open>
  C9: hashing a message in pieces of any lengths with \<open>SHA256_Init\<close>, \<open>SHA256_Update\<close> and \<open>SHA256_Final\<close>
  gives the SHA-256 digest of FIPS 180-4 of the whole message, and leaves nothing of it in the context.
\<close>

theorem SHA256_correct:
  assumes "length junk = 48" and "length (sha_buf ctx) = 64"
  shows "SHA256_Final junk (fold (SHA256_Update junk) cs (SHA256_Init ctx)) =
    (fips_sha256 (concat cs), \<lparr>sha_state = replicate 8 0, count = 0, sha_buf = replicate 64 0\<rparr>)"
proof -
  let ?c = "fold (SHA256_Update junk) cs (SHA256_Init ctx)"
  obtain a p where e: "[] @ [] @ concat cs = a @ p" and h: "holds a p ?c"
    using holds_updates [OF holds_init [OF assms(2)] assms(1)] by blast
  have "concat cs = a @ p" using e by simp
  moreover have "length (compress_all (blocks (fips_pad (a @ p))) H0) = 8" by (simp only: compress_all_length H0_length)
  ultimately show ?thesis
    by (simp only: SHA256_Final_def Let_def fips_sha256_def holds_pad [OF h assms(1)] enc_vect)
qed

theorem SHA256_correct_witness:
  "SHA256_Final (replicate 48 0) (fold (SHA256_Update (replicate 48 0)) [[0x61], [0x62, 0x63]] (SHA256_Init
     \<lparr>sha_state = [], count = 0, sha_buf = replicate 64 0\<rparr>)) =
   (fips_sha256 [0x61, 0x62, 0x63], \<lparr>sha_state = replicate 8 0, count = 0, sha_buf = replicate 64 0\<rparr>) \<and>
   fips_sha256 [0x61, 0x62, 0x63] =
   [0xba, 0x78, 0x16, 0xbf, 0x8f, 0x01, 0xcf, 0xea, 0x41, 0x41, 0x40, 0xde, 0x5d, 0xae, 0x22, 0x23,
    0xb0, 0x03, 0x61, 0xa3, 0x96, 0x17, 0x7a, 0x9c, 0xb4, 0x10, 0xff, 0x61, 0xf2, 0x00, 0x15, 0xad]"
proof -
  have "SHA256_Final (replicate 48 0) (fold (SHA256_Update (replicate 48 0)) [[0x61], [0x62, 0x63]] (SHA256_Init
     \<lparr>sha_state = [], count = 0, sha_buf = replicate 64 0\<rparr>)) =
   (fips_sha256 (concat [[0x61], [0x62, 0x63]]), \<lparr>sha_state = replicate 8 0, count = 0, sha_buf = replicate 64 0\<rparr>)"
    by (rule SHA256_correct) simp_all
  then show ?thesis using sha_abc by (simp only: fst_conv concat.simps append_Cons append_Nil append_Nil2 simp_thms)
qed

end
