(* ===== verification/Libc_Strto.thy ===== *)
theory Libc_Strto
  imports Prelude
begin

text \<open>
  strtoul.c, strtoumax.c and strtoimax.c: strings to integers.

  A string is a position in a byte array, and every byte that the code looks at is an access to that
  array. \<^verbatim>\<open>unsigned long\<close> has the width of the type variable \<open>'l\<close>. The three functions have their
  blanks, sign, prefix and digits in common, which are definitions of their own. A result is the
  value, what \<^verbatim>\<open>errno\<close> is set to, if anything, and what is stored in \<^verbatim>\<open>*endptr\<close>.
\<close>

section \<open>The code\<close>

datatype errno = ERANGE | EINVAL

type_synonym 'l strto = "'l word \<times> errno option \<times> nat"

definition isspace :: "byte \<Rightarrow> bool" where
  "isspace c \<longleftrightarrow> c = 0x20 \<or> 0x09 \<le> c \<and> c \<le> 0x0d"

text \<open>\<^verbatim>\<open>do c = *s++; while (isspace(c))\<close>, with \<open>c\<close> and \<open>s\<close> at the end.\<close>

function skip_space :: "buf \<Rightarrow> nat \<Rightarrow> (byte \<times> nat) option" where
  "skip_space b s =
    (if s < blen b then (if isspace (bdat b s) then skip_space b (s + 1) else Some (bdat b s, s + 1)) else None)"
  by pat_completeness auto
termination
  by (relation "measure (\<lambda>(b, s). blen b - s)") auto

definition get_sign :: "buf \<Rightarrow> byte \<Rightarrow> nat \<Rightarrow> (bool \<times> byte \<times> nat) option" where
  "get_sign b c s =
    (if c = 0x2d then do { c \<leftarrow> ld b s; Some (True, c, s + 1) }
     else if c = 0x2b then do { c \<leftarrow> ld b s; Some (False, c, s + 1) }
     else Some (False, c, s))"

text \<open>The condition of the prefix \<^verbatim>\<open>0x\<close> reads \<^verbatim>\<open>*s\<close> and \<^verbatim>\<open>s[1]\<close> only as far as it has to.\<close>

definition hex_prefix :: "buf \<Rightarrow> byte \<Rightarrow> nat \<Rightarrow> int \<Rightarrow> bool option" where
  "hex_prefix b c s base =
    (if (base = 0 \<or> base = 16) \<and> c = 0x30 then do {
       x \<leftarrow> ld b s;
       if x = 0x78 \<or> x = 0x58 then do {
         d \<leftarrow> ld b (s + 1);
         Some (0x30 \<le> d \<and> d \<le> 0x39 \<or> 0x41 \<le> d \<and> d \<le> 0x46 \<or> 0x61 \<le> d \<and> d \<le> 0x66) }
       else Some False }
     else Some False)"

definition get_base :: "buf \<Rightarrow> byte \<Rightarrow> nat \<Rightarrow> int \<Rightarrow> (int \<times> byte \<times> nat) option" where
  "get_base b c s base = do {
     h \<leftarrow> hex_prefix b c s base;
     if h then do { c \<leftarrow> ld b (s + 1); Some (16, c, s + 2) }
     else if base = 0 then Some (if c = 0x30 then 8 else 10, c, s)
     else Some (base, c, s) }"

definition digit_of :: "byte \<Rightarrow> nat option" where
  "digit_of c =
    (if 0x30 \<le> c \<and> c \<le> 0x39 then Some (unat (c - 0x30))
     else if 0x41 \<le> c \<and> c \<le> 0x5a then Some (unat (c - (0x41 - 10)))
     else if 0x61 \<le> c \<and> c \<le> 0x7a then Some (unat (c - (0x61 - 10)))
     else None)"

text \<open>The loop over the digits; \<open>c\<close> is the byte before \<open>s\<close>. The result is \<^verbatim>\<open>any\<close>, \<^verbatim>\<open>acc\<close> and \<open>s\<close>.\<close>

function digits_loop :: "buf \<Rightarrow> int \<Rightarrow> 'l::len word \<Rightarrow> nat \<Rightarrow> byte \<Rightarrow> nat \<Rightarrow> int \<Rightarrow> 'l word \<Rightarrow> (int \<times> 'l word \<times> nat) option" where
  "digits_loop b base cutoff cutlim c s any acc =
    (case digit_of c of
       None \<Rightarrow> Some (any, acc, s)
     | Some d \<Rightarrow>
         if int d \<ge> base then Some (any, acc, s)
         else let (any, acc) = (if any < 0 \<or> acc > cutoff \<or> acc = cutoff \<and> d > cutlim then (-1, acc)
                                else (1, acc * of_int base + of_nat d))
              in if s < blen b then digits_loop b base cutoff cutlim (bdat b s) (s + 1) any acc else None)"
  by pat_completeness auto
termination
  by (relation "measure (\<lambda>(b, base, cutoff, cutlim, c, s, any, acc). blen b - s)") auto

declare skip_space.simps [simp del] digits_loop.simps [simp del]

text \<open>The head of the functions: sign, base, the first digit and the position behind it.\<close>

definition strto_head :: "buf \<Rightarrow> nat \<Rightarrow> int \<Rightarrow> (bool \<times> int \<times> byte \<times> nat) option" where
  "strto_head b nptr base = do {
     (c, s) \<leftarrow> skip_space b nptr;
     (neg, c, s) \<leftarrow> get_sign b c s;
     (base, c, s) \<leftarrow> get_base b c s base;
     Some (neg, base, c, s) }"

definition strtoul_l :: "buf \<Rightarrow> nat \<Rightarrow> int \<Rightarrow> ('l::len) strto option" where
  "strtoul_l b nptr base = do {
     (neg, base, c, s) \<leftarrow> strto_head b nptr base;
     if base < 2 \<or> base > 36 then Some (0, Some EINVAL, nptr)
     else do {
       let cutoff = (- 1 :: 'l word) div of_int base;
       let cutlim = unat ((- 1 :: 'l word) mod of_int base);
       (any, acc, s) \<leftarrow> digits_loop b base cutoff cutlim c s 0 0;
       Some (if any < 0 then (- 1, Some ERANGE, s - 1)
             else if any = 0 then (acc, Some EINVAL, nptr)
             else (if neg then - acc else acc, None, s - 1)) } }"

definition strtoumax_l :: "buf \<Rightarrow> nat \<Rightarrow> int \<Rightarrow> 64 strto option" where
  "strtoumax_l b nptr base = do {
     (neg, base, c, s) \<leftarrow> strto_head b nptr base;
     if base < 2 \<or> base > 36 then Some (0, Some EINVAL, nptr)
     else do {
       let cutoff = (- 1 :: u64) div of_int base;
       let cutlim = unat ((- 1 :: u64) mod of_int base);
       (any, acc, s) \<leftarrow> digits_loop b base cutoff cutlim c s 0 0;
       Some (if any < 0 then (- 1, Some ERANGE, s - 1)
             else if any = 0 then (acc, Some EINVAL, nptr)
             else (if neg then - acc else acc, None, s - 1)) } }"

definition INTMAX_MAX :: u64 where "INTMAX_MAX = 0x7fffffffffffffff"
definition INTMAX_MIN :: u64 where "INTMAX_MIN = 0x8000000000000000"

definition strtoimax_l :: "buf \<Rightarrow> nat \<Rightarrow> int \<Rightarrow> 64 strto option" where
  "strtoimax_l b nptr base = do {
     (neg, base, c, s) \<leftarrow> strto_head b nptr base;
     if base < 2 \<or> base > 36 then Some (0, Some EINVAL, nptr)
     else do {
       let cutoff = (if neg then - (INTMAX_MIN + INTMAX_MAX) + INTMAX_MAX else INTMAX_MAX);
       let cutlim = unat (cutoff mod of_int base);
       let cutoff = cutoff div of_int base;
       (any, acc, s) \<leftarrow> digits_loop b base cutoff cutlim c s 0 0;
       Some (if any < 0 then (if neg then INTMAX_MIN else INTMAX_MAX, Some ERANGE, s - 1)
             else if any = 0 then (acc, Some EINVAL, nptr)
             else (if neg then - acc else acc, None, s - 1)) } }"

section \<open>Numerals\<close>

text \<open>The string that begins at a position of the array.\<close>

fun str_at :: "buf \<Rightarrow> nat \<Rightarrow> byte list \<Rightarrow> bool" where
  "str_at b s [] \<longleftrightarrow> s < blen b \<and> bdat b s = 0"
| "str_at b s (x # xs) \<longleftrightarrow> s < blen b \<and> bdat b s = x \<and> x \<noteq> 0 \<and> str_at b (s + 1) xs"

definition valid_digit :: "nat \<Rightarrow> byte \<Rightarrow> bool" where
  "valid_digit B c \<longleftrightarrow> (case digit_of c of None \<Rightarrow> False | Some d \<Rightarrow> d < B)"

definition digits_value :: "nat \<Rightarrow> nat \<Rightarrow> byte list \<Rightarrow> nat" where
  "digits_value B a ds = fold (\<lambda>c a. a * B + the (digit_of c)) ds a"

text \<open>Blanks, an optional sign, an optional prefix, digits: sign, base, digits, and the length in front of them.\<close>

definition take_sign :: "byte list \<Rightarrow> bool \<times> nat \<times> byte list" where
  "take_sign xs = (case xs of [] \<Rightarrow> (False, 0, []) | x # ys \<Rightarrow> if x = 0x2d then (True, 1, ys) else if x = 0x2b then (False, 1, ys) else (False, 0, xs))"

definition has_prefix :: "int \<Rightarrow> byte list \<Rightarrow> bool" where
  "has_prefix base xs \<longleftrightarrow> (base = 0 \<or> base = 16) \<and>
     (case xs of z # x # d # _ \<Rightarrow> z = 0x30 \<and> (x = 0x78 \<or> x = 0x58) \<and> valid_digit 16 d | _ \<Rightarrow> False)"

definition take_base :: "int \<Rightarrow> byte list \<Rightarrow> int \<times> nat \<times> byte list" where
  "take_base base xs =
    (if has_prefix base xs then (16, 2, drop 2 xs)
     else if base = 0 then (if xs \<noteq> [] \<and> hd xs = 0x30 then 8 else 10, 0, xs)
     else (base, 0, xs))"

definition numeral_of :: "int \<Rightarrow> byte list \<Rightarrow> bool \<times> int \<times> byte list \<times> nat" where
  "numeral_of base xs =
    (let (neg, n1, ys) = take_sign (dropWhile isspace xs);
         (base, n2, zs) = take_base base ys;
         ds = takeWhile (valid_digit (nat base)) zs
     in (neg, base, ds, length (takeWhile isspace xs) + n1 + n2 + length ds))"

text \<open>\<open>c\<close> has been read from \<open>s - 1\<close>, where the string \<open>xs\<close> begins.\<close>

definition reading :: "buf \<Rightarrow> byte \<Rightarrow> nat \<Rightarrow> byte list \<Rightarrow> bool" where
  "reading b c s xs \<longleftrightarrow> 0 < s \<and> str_at b (s - 1) xs \<and> c = bdat b (s - 1)"

lemma reading_Nil: "reading b c s [] \<Longrightarrow> c = 0"
  by (simp add: reading_def)

lemma reading_Cons: "reading b c s (x # xs) \<Longrightarrow> c = x \<and> x \<noteq> 0 \<and> s < blen b \<and> reading b (bdat b s) (s + 1) xs"
  by (cases xs) (auto simp: reading_def)

lemma isspace_0: "\<not> isspace 0" by (simp add: isspace_def)
lemma digit_of_0: "digit_of 0 = None" by (simp add: digit_of_def)

lemma skip_space_ok:
  "str_at b s xs \<Longrightarrow> \<exists>c. skip_space b s = Some (c, s + length (takeWhile isspace xs) + 1) \<and>
     reading b c (s + length (takeWhile isspace xs) + 1) (dropWhile isspace xs)"
proof (induction xs arbitrary: s)
  case Nil
  then show ?case by (subst skip_space.simps) (simp add: isspace_0 reading_def)
next
  case (Cons x xs)
  then show ?case using Cons.IH [of "s + 1"] by (subst skip_space.simps) (auto simp: reading_def)
qed

lemma get_sign_ok:
  assumes "reading b c s xs" "take_sign xs = (neg, n, ys)"
  shows "\<exists>c'. get_sign b c s = Some (neg, c', s + n) \<and> reading b c' (s + n) ys"
proof (cases xs)
  case Nil
  then show ?thesis using assms reading_Nil by (fastforce simp: get_sign_def take_sign_def)
next
  case (Cons x zs)
  then show ?thesis using assms reading_Cons [of b c s x zs] by (auto simp: get_sign_def take_sign_def ld_def split: if_splits)
qed

lemma valid_hex: "valid_digit 16 d \<longleftrightarrow> 0x30 \<le> d \<and> d \<le> 0x39 \<or> 0x41 \<le> d \<and> d \<le> 0x46 \<or> 0x61 \<le> d \<and> d \<le> 0x66"
  by (auto simp: valid_digit_def digit_of_def word_le_nat_alt unat_sub_if_size word_size split: if_splits)

lemma hex_prefix_ok:
  assumes "reading b c s xs"
  shows "hex_prefix b c s base = Some (has_prefix base xs)"
proof (cases xs)
  case Nil
  then have "c = 0" using reading_Nil assms by simp
  then show ?thesis using Nil by (simp add: hex_prefix_def has_prefix_def)
next
  case (Cons z ys)
  note 1 = reading_Cons [OF assms [unfolded Cons]]
  show ?thesis
  proof (cases ys)
    case Nil
    then show ?thesis using 1 reading_Nil [of b "bdat b s" "s + 1"] by (auto simp: hex_prefix_def has_prefix_def ld_def Cons)
  next
    case (Cons x zs)
    note 2 = reading_Cons [of b "bdat b s" "s + 1" x zs]
    have "s + 1 < blen b" "reading b (bdat b (s + 1)) (s + 2) zs" "bdat b s = x" using 1 2 Cons by auto
    moreover have "valid_digit 16 (bdat b (s + 1)) = (case zs of d # _ \<Rightarrow> valid_digit 16 d | [] \<Rightarrow> False)"
      using calculation(2) by (cases zs) (auto dest: reading_Nil reading_Cons simp: valid_digit_def digit_of_0)
    ultimately show ?thesis using 1 Cons \<open>xs = z # ys\<close>
      by (auto simp: hex_prefix_def has_prefix_def ld_def valid_hex split: list.splits)
  qed
qed

lemma get_base_ok:
  assumes "reading b c s xs" "take_base base xs = (base', n, ys)"
  shows "\<exists>c'. get_base b c s base = Some (base', c', s + n) \<and> reading b c' (s + n) ys"
proof (cases "has_prefix base xs")
  case True
  then obtain z x ds where xs: "xs = z # x # ds" by (auto simp: has_prefix_def split: list.splits)
  have "s + 1 < blen b" "reading b (bdat b (s + 1)) (s + 2) ds"
    using reading_Cons [OF assms(1) [unfolded xs]] reading_Cons [of b "bdat b s" "s + 1" x ds] by auto
  then show ?thesis using True assms xs by (auto simp: get_base_def hex_prefix_ok [OF assms(1)] take_base_def ld_def)
next
  case False
  moreover have "(xs \<noteq> [] \<and> hd xs = 0x30) = (c = 0x30)"
    using assms(1) by (cases xs) (auto dest: reading_Nil reading_Cons)
  ultimately show ?thesis using assms by (auto simp: get_base_def hex_prefix_ok [OF assms(1)] take_base_def split: if_splits)
qed

lemma strto_head_ok:
  assumes "str_at b nptr xs" "numeral_of base xs = (neg, base', ds, n)"
  shows "\<exists>c s ys. strto_head b nptr base = Some (neg, base', c, s) \<and> reading b c s ys \<and>
    ds = takeWhile (valid_digit (nat base')) ys \<and> s + length ds = nptr + n + 1"
proof -
  let ?k = "length (takeWhile isspace xs)"
  obtain c where 1: "skip_space b nptr = Some (c, nptr + ?k + 1)" "reading b c (nptr + ?k + 1) (dropWhile isspace xs)"
    using skip_space_ok [OF assms(1)] by blast
  obtain n1 ys neg' where y: "take_sign (dropWhile isspace xs) = (neg', n1, ys)" by (metis prod_cases3)
  obtain n2 zs bs where z: "take_base base ys = (bs, n2, zs)" by (metis prod_cases3)
  have e: "neg' = neg" "bs = base'" "ds = takeWhile (valid_digit (nat base')) zs" "n = ?k + n1 + n2 + length ds"
    using assms(2) y z by (auto simp: numeral_of_def Let_def)
  obtain c1 where 2: "get_sign b c (nptr + ?k + 1) = Some (neg, c1, nptr + ?k + 1 + n1)" "reading b c1 (nptr + ?k + 1 + n1) ys"
    using get_sign_ok [OF 1(2) y] e by auto
  obtain c2 where 3: "get_base b c1 (nptr + ?k + 1 + n1) base = Some (base', c2, nptr + ?k + 1 + n1 + n2)" "reading b c2 (nptr + ?k + 1 + n1 + n2) zs"
    using get_base_ok [OF 2(2) z] e by auto
  have "strto_head b nptr base = Some (neg, base', c2, nptr + ?k + 1 + n1 + n2)"
    unfolding strto_head_def using 1(1) 2(1) 3(1) by simp
  then show ?thesis using 3(2) e by auto
qed

section \<open>The digits\<close>

lemma digits_value_simps [simp]:
  "digits_value B a [] = a" "digits_value B a (c # ds) = digits_value B (a * B + the (digit_of c)) ds"
  by (simp_all add: digits_value_def)

lemma digits_value_ge: "0 < B \<Longrightarrow> a \<le> digits_value B a ds"
proof (induction ds arbitrary: a)
  case (Cons c ds)
  have "a \<le> a * B" using Cons(2) by simp
  also have "\<dots> \<le> digits_value B (a * B + the (digit_of c)) ds" using Cons by (meson add_leD1)
  finally show ?case by simp
qed simp

lemma cut: "0 < B \<Longrightarrow> d < B \<Longrightarrow> (m div B < a \<or> a = m div B \<and> m mod B < d) \<longleftrightarrow> m < a * B + (d :: nat)"
proof -
  assume B: "0 < B" "d < B"
  consider "a < m div B" | "a = m div B" | "m div B < a" by linarith
  then show ?thesis
  proof cases
    case 1
    then have "(a + 1) * B \<le> m div B * B" by (intro mult_le_mono1) simp
    also have "\<dots> \<le> m" by simp
    finally show ?thesis using 1 B by simp
  next
    case 2
    have "m < m div B * B + d \<longleftrightarrow> m mod B < d" using div_mult_mod_eq [of m B] by (intro iffI) linarith+
    then show ?thesis unfolding 2 by simp
  next
    case 3
    then have "(m div B + 1) * B \<le> a * B" by (intro mult_le_mono1) simp
    moreover have "m < (m div B + 1) * B" using dividend_less_div_times [OF B(1), of m] by simp
    ultimately show ?thesis using 3 by linarith
  qed
qed

lemma digits_over:
  fixes cutoff :: "'l::len word"
  assumes "reading b c s xs"
  shows "\<exists>acc'. digits_loop b base cutoff cutlim c s (- 1) acc = Some (- 1, acc', s + length (takeWhile (valid_digit (nat base)) xs))"
  using assms
proof (induction xs arbitrary: c s acc)
  case Nil
  then have "c = 0" using reading_Nil by blast
  then show ?case by (subst digits_loop.simps) (simp add: digit_of_0)
next
  case (Cons x xs)
  note r = reading_Cons [OF Cons(2)]
  show ?case
  proof (cases "valid_digit (nat base) x")
    case True
    then obtain d where "digit_of x = Some d" "int d < base" by (auto simp: valid_digit_def split: option.splits)
    then show ?thesis using Cons(1) [of "bdat b s" "s + 1" acc] r True by (subst digits_loop.simps) auto
  next
    case False
    then show ?thesis using r by (subst digits_loop.simps) (auto simp: valid_digit_def split: option.splits)
  qed
qed

lemma digits_loop_ok:
  fixes cutoff acc :: "'l::len word"
  assumes "reading b c s xs" "unat cutoff = m div B" "cutlim = m mod B" "m < 2 ^ LENGTH('l)" "2 \<le> B" "unat acc \<le> m" "0 \<le> any"
  shows "\<exists>any' acc'. digits_loop b (int B) cutoff cutlim c s any acc = Some (any', acc', s + length (takeWhile (valid_digit B) xs)) \<and>
    any' = (if takeWhile (valid_digit B) xs = [] then any else if digits_value B (unat acc) (takeWhile (valid_digit B) xs) \<le> m then 1 else - 1) \<and>
    (digits_value B (unat acc) (takeWhile (valid_digit B) xs) \<le> m \<longrightarrow> unat acc' = digits_value B (unat acc) (takeWhile (valid_digit B) xs))"
  using assms(1,6,7)
proof (induction xs arbitrary: c s any acc)
  case Nil
  then have "c = 0" using reading_Nil by blast
  then show ?case using Nil by (subst digits_loop.simps) (simp add: digit_of_0)
next
  case (Cons x xs)
  note r = reading_Cons [OF Cons(2)]
  show ?case
  proof (cases "valid_digit B x")
    case False
    then show ?thesis using r by (subst digits_loop.simps) (auto simp: valid_digit_def split: option.splits)
  next
    case True
    then obtain d where d: "digit_of x = Some d" "d < B" by (auto simp: valid_digit_def split: option.splits)
    have over: "(cutoff < acc \<or> acc = cutoff \<and> cutlim < d) \<longleftrightarrow> m < unat acc * B + d"
      using cut [of B d m "unat acc"] assms(2,3,5) d(2) by (auto simp: word_less_nat_alt word_unat_eq_iff)
    show ?thesis
    proof (cases "m < unat acc * B + d")
      case True
      then have "\<not> digits_value B (unat acc * B + d) (takeWhile (valid_digit B) xs) \<le> m"
        using digits_value_ge [of B "unat acc * B + d"] assms(5) by (meson leD less_le_trans not_less numeral_2_eq_2 zero_less_numeral)
      then show ?thesis using digits_over [of b "bdat b s" "s + 1" xs "int B" cutoff cutlim acc] r d \<open>valid_digit B x\<close> over True Cons(4)
        by (subst digits_loop.simps) auto
    next
      case False
      let ?acc = "acc * of_nat B + of_nat d"
      have "?acc = of_nat (unat acc * B + d)" by simp
      then have u: "unat ?acc = unat acc * B + d" using False assms(4) by (simp only: unat_of_nat) simp
      then show ?thesis using Cons(1) [of "bdat b s" "s + 1" ?acc 1] r d \<open>valid_digit B x\<close> over False Cons(4)
        by (subst digits_loop.simps) (auto split: if_splits)
    qed
  qed
qed

lemma base_word:
  fixes M :: "'l::len word"
  assumes "2 \<le> base" "base \<le> 36" "32 \<le> LENGTH('l)"
  shows "unat (M div of_int base) = unat M div nat base" "unat (M mod of_int base) = unat M mod nat base"
proof -
  have "(36 :: nat) < 2 ^ 32" by simp
  also have "\<dots> \<le> 2 ^ LENGTH('l)" using assms(3) by (intro power_increasing) simp_all
  finally have "nat base < 2 ^ LENGTH('l)" using assms(2) by linarith
  then have "unat (of_nat (nat base) :: 'l word) = nat base" by (simp add: unat_of_nat del: of_nat_nat)
  moreover have "(of_nat (nat base) :: 'l word) = of_int base" using assms(1) by simp
  ultimately show "unat (M div of_int base) = unat M div nat base" "unat (M mod of_int base) = unat M mod nat base"
    by (simp_all add: unat_div_distrib unat_mod_distrib)
qed

text \<open>The digits behind the head, with the largest value \<open>M\<close>.\<close>

lemma strto_digits:
  fixes M :: "'l::len word"
  assumes "reading b c s ys" "2 \<le> base" "base \<le> 36" "32 \<le> LENGTH('l)" "ds = takeWhile (valid_digit (nat base)) ys"
  shows "\<exists>any acc. digits_loop b base (M div of_int base) (unat (M mod of_int base)) c s 0 0 = Some (any, acc, s + length ds) \<and>
    any = (if ds = [] then 0 else if digits_value (nat base) 0 ds \<le> unat M then 1 else - 1) \<and>
    (digits_value (nat base) 0 ds \<le> unat M \<longrightarrow> acc = of_nat (digits_value (nat base) 0 ds))"
proof -
  have b: "int (nat base) = base" "2 \<le> nat base" using assms(2) by simp_all
  have e: "unat w = v \<Longrightarrow> w = of_nat v" for w :: "'l word" and v by auto
  show ?thesis
    using digits_loop_ok [where acc = "0 :: 'l word" and any = 0,
        OF assms(1) base_word(1) [where M = M, OF assms(2-4)] base_word(2) [where M = M, OF assms(2-4)] unsigned_less b(2)] e
    unfolding b(1) assms(5) by (simp only: unat_0 zero_le order_refl) blast
qed

lemma strtoumax_eq: "strtoumax_l b nptr base = strtoul_l b nptr base"
  by (simp add: strtoumax_l_def strtoul_l_def)

section \<open>Properties\<close>

text \<open>What \<^verbatim>\<open>strtoul\<close> returns for a numeral.\<close>

definition unsigned_result :: "nat \<Rightarrow> bool \<times> int \<times> byte list \<times> nat \<Rightarrow> ('l::len) strto" where
  "unsigned_result nptr r = (case r of (neg, base, ds, n) \<Rightarrow>
     if base < 2 \<or> base > 36 \<or> ds = [] then (0, Some EINVAL, nptr)
     else if digits_value (nat base) 0 ds < 2 ^ LENGTH('l)
     then (of_int ((if neg then - 1 else 1) * int (digits_value (nat base) 0 ds)), None, nptr + n)
     else (of_nat (2 ^ LENGTH('l) - 1), Some ERANGE, nptr + n))"

text \<open>
  C11: \<^verbatim>\<open>strtoul\<close> reads no byte behind the end of the string and returns the value of the numeral at the
  beginning of it, modulo the size of the type when it has a minus sign; the largest value and
  \<^verbatim>\<open>ERANGE\<close> when the digits denote more than that; 0, \<^verbatim>\<open>EINVAL\<close> and the beginning of the string when there
  are no digits or the base is out of range. In the other cases \<^verbatim>\<open>endptr\<close> is the end of the numeral.
\<close>

theorem strtoul_spec:
  assumes "str_at b nptr xs" and "32 \<le> LENGTH('l::len)"
  shows "strtoul_l b nptr base = Some (unsigned_result nptr (numeral_of base xs) :: 'l strto)"
proof -
  obtain neg base' ds n where n: "numeral_of base xs = (neg, base', ds, n)" by (metis prod_cases4)
  obtain c s ys where h: "strto_head b nptr base = Some (neg, base', c, s)" "reading b c s ys"
    "ds = takeWhile (valid_digit (nat base')) ys" "s + length ds = nptr + n + 1" using strto_head_ok [OF assms(1) n] by blast
  have m1: "unat (- 1 :: 'l word) = 2 ^ LENGTH('l) - 1" by (simp add: unsigned_minus_1_eq_mask mask_eq_exp_minus_1)
  have m: "digits_value (nat base') 0 ds \<le> unat (- 1 :: 'l word) \<longleftrightarrow> digits_value (nat base') 0 ds < 2 ^ LENGTH('l)"
    unfolding m1 using zero_less_power [of "2 :: nat" "LENGTH('l)"] by (intro iffI) linarith+
  have M: "(of_nat (2 ^ LENGTH('l) - 1) :: 'l word) = - 1" using m1 by (metis of_nat_unat ucast_id)
  show ?thesis
  proof (cases "base' < 2 \<or> base' > 36")
    case True
    then show ?thesis using h n by (auto simp: strtoul_l_def unsigned_result_def)
  next
    case False
    then show ?thesis using strto_digits [OF h(2) _ _ assms(2) h(3), where M = "- 1"] h(1,4) n M
      unfolding m by (auto simp: strtoul_l_def unsigned_result_def)
  qed
qed

theorem strtoul_spec_witness:
  "strtoul_l \<lparr>blen = 7, bdat = \<lambda>i. [0x20, 0x30, 0x78, 0x31, 0x46, 0x67, 0] ! i\<rparr> 0 0 = Some ((31, None, 5) :: 32 strto)"
proof -
  have "strtoul_l \<lparr>blen = 7, bdat = \<lambda>i. [0x20, 0x30, 0x78, 0x31, 0x46, 0x67, 0] ! i\<rparr> 0 0 =
      Some (unsigned_result 0 (numeral_of 0 [0x20, 0x30, 0x78, 0x31, 0x46, 0x67]) :: 32 strto)"
    by (rule strtoul_spec) simp_all
  then show ?thesis
    by (simp add: unsigned_result_def numeral_of_def take_sign_def take_base_def has_prefix_def isspace_def valid_digit_def digit_of_def)
qed

text \<open>
  C28: \<^verbatim>\<open>strtoimax\<close> returns the value of the numeral at the beginning of the string when it fits the type, and
  otherwise the nearest value that does, with \<^verbatim>\<open>ERANGE\<close>; without digits or with a base out of range 0 and
  \<^verbatim>\<open>EINVAL\<close>. It reads no byte behind the end of the string.
\<close>

theorem strtoimax_spec:
  assumes "str_at b nptr xs" and "numeral_of base xs = (neg, base', ds, n)"
  shows "\<exists>w e p. strtoimax_l b nptr base = Some (w, e, p) \<and>
    (if base' < 2 \<or> base' > 36 \<or> ds = [] then w = 0 \<and> e = Some EINVAL \<and> p = nptr
     else let v = (if neg then - 1 else 1) * int (digits_value (nat base') 0 ds) in
       sint w = max (- (2 ^ 63)) (min (2 ^ 63 - 1) v) \<and> p = nptr + n \<and>
       e = (if - (2 ^ 63) \<le> v \<and> v < 2 ^ 63 then None else Some ERANGE))"
proof -
  obtain c s ys where h: "strto_head b nptr base = Some (neg, base', c, s)" "reading b c s ys"
    "ds = takeWhile (valid_digit (nat base')) ys" "s + length ds = nptr + n + 1" using strto_head_ok [OF assms] by blast
  let ?v = "digits_value (nat base') 0 ds" and ?M = "if neg then - (INTMAX_MIN + INTMAX_MAX) + INTMAX_MAX else INTMAX_MAX"
  have M: "unat ?M = (if neg then 2 ^ 63 else 2 ^ 63 - 1)" by (simp add: INTMAX_MIN_def INTMAX_MAX_def)
  show ?thesis
  proof (cases "base' < 2 \<or> base' > 36 \<or> ds = []")
    case True
    then show ?thesis using h strto_digits [OF h(2) _ _ _ h(3), where M = ?M] by (auto simp: strtoimax_l_def)
  next
    case False
    have s: "sint (of_int i :: u64) = i" if "- (2 ^ 63) \<le> i" "i < 2 ^ 63" for i
      using that by (simp add: signed_of_int signed_take_bit_int_eq_self)
    obtain any acc where d: "digits_loop b base' (?M div of_int base') (unat (?M mod of_int base')) c s 0 0 = Some (any, acc, s + length ds)"
      "any = (if ?v \<le> unat ?M then 1 else - 1)" "?v \<le> unat ?M \<longrightarrow> acc = of_nat ?v"
      using strto_digits [OF h(2) _ _ _ h(3), where M = ?M] False by auto
    show ?thesis
    proof (cases "?v \<le> unat ?M")
      case True
      have "strtoimax_l b nptr base = Some (of_int ((if neg then - 1 else 1) * int ?v), None, nptr + n)"
        using True False h d by (simp add: strtoimax_l_def Let_def)
      moreover have "- (2 ^ 63) \<le> (if neg then - 1 else 1) * int ?v" "(if neg then - 1 else 1) * int ?v < 2 ^ 63"
        using True M by (auto split: if_splits)
      ultimately show ?thesis using False s by (simp add: Let_def del: of_int_mult)
    next
      case over: False
      have "strtoimax_l b nptr base = Some (if neg then INTMAX_MIN else INTMAX_MAX, Some ERANGE, nptr + n)"
        using over False h d by (simp add: strtoimax_l_def Let_def)
      then show ?thesis using False over M by (auto simp: Let_def INTMAX_MIN_def INTMAX_MAX_def split: if_splits)
    qed
  qed
qed

theorem strtoimax_spec_witness:
  "\<exists>w. strtoimax_l \<lparr>blen = 4, bdat = \<lambda>i. [0x2d, 0x31, 0x32, 0] ! i\<rparr> 0 10 = Some (w, None, 3) \<and> sint w = - 12"
proof -
  have "numeral_of 10 [0x2d, 0x31, 0x32] = (True, 10, [0x31, 0x32], 3)"
    by (simp add: numeral_of_def take_sign_def take_base_def has_prefix_def isspace_def valid_digit_def digit_of_def)
  from strtoimax_spec [OF _ this, of "\<lparr>blen = 4, bdat = \<lambda>i. [0x2d, 0x31, 0x32, 0] ! i\<rparr>" 0]
  show ?thesis by (simp add: digit_of_def)
qed

end
