(* ===== verification/Spec2Isabelle.thy ===== *)
theory Spec2Isabelle
  imports Fsck_Decode Newfs_Fsck Usb_HidLaws Sha256_Laws Libc_Strto
begin

text \<open>
  A verification library for the FreeBSD sources that OpenHarmony uses.

  \<^bold>\<open>The programs.\<close> The repository holds two programs for FAT file systems, \<^verbatim>\<open>sbin/newfs_msdos\<close>, which makes a
  file system, and \<^verbatim>\<open>sbin/fsck_msdosfs\<close>, which checks and repairs one; the USB stack of the kernel with
  its parsers for the descriptors that devices send; and parts of the C library and of the kernel's
  cryptography. The library models the two programs completely, the two USB parsers, SHA-256, and the
  conversion of strings to integers.

  \<^bold>\<open>Conventions.\<close> Integers are words of the width they have in C, and wrap around. A byte array is a record
  of length and contents, and an access outside it has no value. A function that may fail to return
  normally has an \<open>option\<close> as result: \<open>None\<close> stands for a failed assertion, an access outside an object,
  or a loop that does not end; error codes are ordinary results. Loops that end by their form are
  functions with a termination proof, the others are \<open>partial_function (option)\<close>, and that they return is
  proved. State is passed explicitly: the record \<open>env\<close> has the device, the options, the answers of the
  user and the faults of the environment (which reads, writes and allocations fail), \<open>fsck\<close> adds the
  boot block and the FAT, \<open>dirs\<close> the tree of directory entries and its buffers. No fuel is
  used; a counted loop recurses on its remaining turns.
  \<^verbatim>\<open>Prelude\<close> has the types, the arrays, and the rules \<open>post\<close> and \<open>tot\<close> for partial and total correctness.

  \<^bold>\<open>fsck_msdosfs.\<close>
  \<^item> \<^verbatim>\<open>Fsck_Env\<close>: main.c's options and \<open>ask\<close>, reading and writing the device, \<open>malloc\<close>. In an
    interactive run the first line that begins with y or n answers \<open>ask\<close>, and no input behind it is used.
  \<^item> \<^verbatim>\<open>Fsck_Boot\<close>: boot.c. An accepted boot block is well formed and its data region lies in the volume
    (when the sectors of the tables do not overflow 32 bits); what \<open>writefsinfo\<close> stores is what \<open>readboot\<close> decodes; a FAT that is two entries short is accepted.
  \<^item> \<^verbatim>\<open>Fsck_Bitmap\<close>, \<^verbatim>\<open>Fsck_Fat\<close>: the head bitmap and the FAT descriptor of fat.c, with the accessors for 12, 16
    and 32 bits and the chunk cache for large FAT32 tables.
  \<^item> \<^verbatim>\<open>Fsck_FatLaws\<close>, \<^verbatim>\<open>Fsck_Cache\<close>, \<^verbatim>\<open>Fsck_Table\<close>: all accessors implement one abstract table \<open>fat_view\<close>. The
    contract is the locale \<open>cluster_table\<close>, interpreted on the checked accessors; reading has no visible
    effect, writing changes one entry, and out-of-range or read-only accesses are refused. The table
    invariant asks of a cached table that no I/O fails, that its size is not an odd multiple of the
    chunk size of 128 KiB and that its last chunk is on the device.
  \<^item> \<^verbatim>\<open>Fsck_Decode\<close>: the table as a packed array of 12-, 16- or 32-bit fields, decoded bit by bit from its bytes;
    this is what the accessors return. Loading a large FAT32 table sets up the cache so that it holds
    the FAT of the device.
  \<^item> \<^verbatim>\<open>Fsck_FatOps\<close>, \<^verbatim>\<open>Fsck_Chain\<close>, \<^verbatim>\<open>Fsck_Scan\<close>: \<open>readfat\<close>, \<open>checkchain\<close>, \<open>clearchain\<close>, \<open>copyfat\<close>, \<open>writefat\<close> and the
    clean flag. With repairs accepted, the scan of \<open>readfat\<close> ends, repairs bad links, and leaves exactly the
    used clusters without predecessor as heads; from a head \<open>checkchain\<close> returns and counts the chain; on a cycle it does not
    return; \<open>clearchain\<close> frees a chain and nothing else.
  \<^item> \<^verbatim>\<open>Fsck_Dir\<close>, \<^verbatim>\<open>Fsck_ReadDir\<close>, \<^verbatim>\<open>Fsck_Lost\<close>: dir.c, from the lists of entries and directories to be read over
    \<open>readDosDirSection\<close> to \<open>reconnect\<close>, and \<open>checklost\<close> of fat.c. Buffers carry whether they are live.
  \<^item> \<^verbatim>\<open>Fsck_Check\<close>: check.c and main.c. \<^verbatim>\<open>Fsck_ReadOnly\<close>, \<^verbatim>\<open>Fsck_ReadOnlyRun\<close>: a check that may not write leaves
    every byte of the device as it is whenever it returns, whatever the device holds and whichever operations fail.

  \<^bold>\<open>newfs_msdos.\<close>
  \<^item> \<^verbatim>\<open>Mkfs_Params\<close>, \<^verbatim>\<open>Mkfs_Layout\<close>, \<^verbatim>\<open>Mkfs_Image\<close>, \<^verbatim>\<open>Newfs_Main\<close>: options, disk geometry, the choice of the parameters,
    the alignment loop, every sector of the image, writing in chunks, and the command line. What the
    operating system answers is the record \<open>os\<close>, an argument.
  \<^item> \<^verbatim>\<open>Mkfs_Facts\<close>, \<^verbatim>\<open>Mkfs_Plan\<close>: without \<^verbatim>\<open>-A\<close> accepted parameters are consistent. \<^verbatim>\<open>Mkfs_Write\<close>: without \<^verbatim>\<open>-A\<close>
    and when the assertions on the chunk size hold, the program returns, and after success the device
    holds exactly the image and nothing else has changed.

  \<^bold>\<open>The two together.\<close> \<^verbatim>\<open>Newfs_Boot\<close>: the checker decodes from a new volume the parameters that were encoded.
  \<^verbatim>\<open>Fsck_Clean\<close>: the phases of a check on a volume without faults. \<^verbatim>\<open>Newfs_Fsck\<close>: a new volume passes the check
  with status 0, and the check writes nothing. The hypothesis \<open>fresh_request\<close> of these theorems restricts
  them to volumes made without \<^verbatim>\<open>-A\<close>, \<^verbatim>\<open>-B\<close>, \<^verbatim>\<open>-@\<close> and \<^verbatim>\<open>-N\<close>, on a device that holds the volume and at least 4096
  bytes, with exactly the clusters of the data area reported and not 0xff5 of them in FAT16 or 0xfff5 in FAT32,
  and for FAT32 with 512-byte sectors, FSInfo and backup at their default places, an OEM name other than EXFAT
  and a FAT below 4 GiB. Some volumes outside of it are rejected or misread by the checker: those with 0xff5
  or 0xfff5 clusters, and those whose data area has more clusters than the FAT has entries.

  \<^bold>\<open>USB.\<close> \<^verbatim>\<open>Usb_Parse\<close>: usb_parse.c. The iterators stay inside the configuration and visit its descriptors in
  order; interface numbers do not wrap and counts saturate. \<^verbatim>\<open>Usb_Hid\<close>, \<^verbatim>\<open>Usb_HidLaws\<close>: usb_hid.c. On every
  descriptor the parser stays inside its arrays and ends; \<open>hid_locate\<close> finds the item it should; what is
  written to a field is read back as far as the field lies in the bytes that its size needs, and which
  other bits a too wide value changes is stated exactly.

  \<^bold>\<open>SHA-256.\<close> \<^verbatim>\<open>Sha256\<close> has sha256c.c and the specification of FIPS 180-4, \<^verbatim>\<open>Sha256_Laws\<close> that a message hashed in
  pieces of any lengths has the digest of the specification, with the test vector \<^verbatim>\<open>abc\<close>; \<^verbatim>\<open>size_t\<close> has 64
  bits.

  \<^bold>\<open>Strings to integers.\<close> \<^verbatim>\<open>Libc_Strto\<close>: strtoul.c, strtoumax.c and strtoimax.c return the value of the numeral at
  the beginning of a string, saturate with \<^verbatim>\<open>ERANGE\<close>, and read nothing behind the string.

  \<^bold>\<open>Not modelled.\<close> Messages and other output. The rest of the USB stack, the drivers and the bus framework:
  they are interleavings of threads, interrupts and hardware under the primitives of a kernel that is
  not part of the repository. linuxkpi passes calls on to that kernel. gdtoa, msun and parsefloat need
  floating-point arithmetic. The checksum routine is assembly, the CRC table has no code. Rijndael,
  ChaCha with arc4random, yarrow and fts are left out for their extent.
\<close>

end
